(* ===== verification/Scalar_Field.thy ===== *)
theory Scalar_Field
  imports Prelude
begin

text \<open>
  The scalar field of the BN254 curve (\<open>constants/src/lib.rs\<close>, type \<open>Scalar\<close>)
  and the conversions of \<open>crypto/src/fields.rs\<close> between scalars, big integers,
  machine integers and addresses. A scalar is a natural number below the modulus; the
  field operations are arithmetic modulo it. The ring structure is an instance of the
  library's class of commutative rings, so that the library's ring automation applies to
  secret shares and fixed point representations.
\<close>

section \<open>The field\<close>

definition scalar_modulus :: nat where
  "scalar_modulus =
     21888242871839275222246405745257275088548364400416034343698204186575808495617"

lemma scalar_modulus_gt_1: "1 < scalar_modulus"
  by (simp add: scalar_modulus_def)

lemma scalar_modulus_pos [simp]: "0 < scalar_modulus"
  using scalar_modulus_gt_1 by simp

typedef scalar = "{..<scalar_modulus}"
  by (rule exI [of _ 0]) simp

setup_lifting type_definition_scalar

instantiation scalar :: comm_ring_1
begin

lift_definition zero_scalar :: scalar is 0
  by simp

lift_definition one_scalar :: scalar is 1
  using scalar_modulus_gt_1 by simp

lift_definition plus_scalar :: "scalar \<Rightarrow> scalar \<Rightarrow> scalar"
  is "\<lambda>a b. (a + b) mod scalar_modulus"
  by simp

lift_definition times_scalar :: "scalar \<Rightarrow> scalar \<Rightarrow> scalar"
  is "\<lambda>a b. (a * b) mod scalar_modulus"
  by simp

lift_definition uminus_scalar :: "scalar \<Rightarrow> scalar"
  is "\<lambda>a. (scalar_modulus - a) mod scalar_modulus"
  by simp

lift_definition minus_scalar :: "scalar \<Rightarrow> scalar \<Rightarrow> scalar"
  is "\<lambda>a b. (a + (scalar_modulus - b)) mod scalar_modulus"
  by simp

instance
proof
  fix a b c :: scalar
  show "a * b * c = a * (b * c)"
    by transfer (simp add: mod_mult_left_eq mod_mult_right_eq ac_simps)
  show "a * b = b * a"
    by transfer (simp add: ac_simps)
  show "1 * a = a"
    by transfer simp
  show "a + b + c = a + (b + c)"
    by transfer (simp add: mod_add_left_eq mod_add_right_eq ac_simps)
  show "a + b = b + a"
    by transfer (simp add: ac_simps)
  show "0 + a = a"
    by transfer simp
  show "- a + a = 0"
    by transfer (simp add: mod_add_left_eq)
  show "a - b = a + - b"
    by transfer (simp add: mod_add_right_eq)
  show "(a + b) * c = a * c + b * c"
    by transfer (simp add: mod_mult_left_eq mod_add_eq distrib_right)
  show "(0 :: scalar) \<noteq> 1"
    by transfer simp
qed

end

text \<open>Scalars compare by their representative.\<close>

instantiation scalar :: linorder
begin

lift_definition less_eq_scalar :: "scalar \<Rightarrow> scalar \<Rightarrow> bool" is "(\<le>)" .

lift_definition less_scalar :: "scalar \<Rightarrow> scalar \<Rightarrow> bool" is "(<)" .

instance
  by standard (transfer, simp add: less_le_not_le linear)+

end

section \<open>Conversions\<close>

definition scalar_to_biguint :: "scalar \<Rightarrow> nat" where
  "scalar_to_biguint a = Rep_scalar a"

definition scalar_to_bigint :: "scalar \<Rightarrow> int" where
  "scalar_to_bigint a = int (scalar_to_biguint a)"

text \<open>\<open>Scalar::from\<close> on a big integer reduces it modulo the field's modulus.\<close>

lift_definition scalar_from :: "nat \<Rightarrow> scalar" is "\<lambda>n. n mod scalar_modulus"
  by simp

definition biguint_to_scalar :: "nat \<Rightarrow> scalar" where
  "biguint_to_scalar n = scalar_from n"

definition bigint_to_scalar :: "int \<Rightarrow> scalar" where
  "bigint_to_scalar z =
     (if z < 0 then - biguint_to_scalar (nat (- z)) else biguint_to_scalar (nat z))"

text \<open>The 32 byte big endian encoding of a scalar.\<close>

definition to_bytes_be :: "scalar \<Rightarrow> u8 list" where
  "to_bytes_be a = to_be_bytes 32 (scalar_to_biguint a)"

definition last_bytes :: "nat \<Rightarrow> u8 list \<Rightarrow> u8 list" where
  "last_bytes n bs = drop (length bs - n) bs"

definition scalar_to_u64 :: "scalar \<Rightarrow> u64" where
  "scalar_to_u64 a = of_nat (from_be_bytes (last_bytes 8 (to_bytes_be a)))"

definition scalar_to_u128 :: "scalar \<Rightarrow> u128" where
  "scalar_to_u128 a = of_nat (from_be_bytes (last_bytes 16 (to_bytes_be a)))"

definition scalar_to_usize :: "scalar \<Rightarrow> u64" where
  "scalar_to_usize a = scalar_to_u64 a"

definition scalar_to_address :: "scalar \<Rightarrow> address" where
  "scalar_to_address a = of_nat (from_be_bytes (last_bytes 20 (to_bytes_be a)))"

definition scalar_to_u256 :: "scalar \<Rightarrow> 256 word" where
  "scalar_to_u256 a = of_nat (from_be_bytes (last_bytes 32 (to_bytes_be a)))"

definition address_to_scalar :: "address \<Rightarrow> scalar" where
  "address_to_scalar a = biguint_to_scalar (from_be_bytes (to_be_bytes 20 (unat a)))"

definition u256_to_scalar :: "256 word \<Rightarrow> scalar" where
  "u256_to_scalar a = biguint_to_scalar (from_be_bytes (to_be_bytes 32 (unat a)))"

definition bigint_to_scalar_bits :: "nat \<Rightarrow> int \<Rightarrow> scalar list" where
  "bigint_to_scalar_bits d a = map (\<lambda>i. if bit a i then 1 else 0) [0..<d]"

text \<open>\<open>Scalar::from\<close> on the unsigned machine integers.\<close>

definition scalar_of_u64 :: "u64 \<Rightarrow> scalar" where
  "scalar_of_u64 n = biguint_to_scalar (unat n)"

definition scalar_of_u128 :: "u128 \<Rightarrow> scalar" where
  "scalar_of_u128 n = biguint_to_scalar (unat n)"

section \<open>Lemmas\<close>

lemma scalar_to_biguint_less [simp]: "scalar_to_biguint a < scalar_modulus"
  using Rep_scalar [of a] by (simp add: scalar_to_biguint_def)

lemma scalar_eq_iff: "a = b \<longleftrightarrow> scalar_to_biguint a = scalar_to_biguint b"
  by (simp add: scalar_to_biguint_def Rep_scalar_inject)

lemma scalar_less_iff: "a < b \<longleftrightarrow> scalar_to_biguint a < scalar_to_biguint b"
  by (simp add: scalar_to_biguint_def less_scalar.rep_eq)

lemma scalar_le_iff: "a \<le> b \<longleftrightarrow> scalar_to_biguint a \<le> scalar_to_biguint b"
  by (simp add: scalar_to_biguint_def less_eq_scalar.rep_eq)

lemma scalar_to_biguint_0 [simp]: "scalar_to_biguint 0 = 0"
  by (simp add: scalar_to_biguint_def zero_scalar.rep_eq)

lemma scalar_to_biguint_1 [simp]: "scalar_to_biguint 1 = 1"
  by (simp add: scalar_to_biguint_def one_scalar.rep_eq)

lemma scalar_to_biguint_add:
  "scalar_to_biguint (a + b) = (scalar_to_biguint a + scalar_to_biguint b) mod scalar_modulus"
  by (simp add: scalar_to_biguint_def plus_scalar.rep_eq)

lemma scalar_to_biguint_mult:
  "scalar_to_biguint (a * b) = (scalar_to_biguint a * scalar_to_biguint b) mod scalar_modulus"
  by (simp add: scalar_to_biguint_def times_scalar.rep_eq)

lemma scalar_to_biguint_uminus:
  "scalar_to_biguint (- a) = (if a = 0 then 0 else scalar_modulus - scalar_to_biguint a)"
proof (cases "a = 0")
  case True
  then show ?thesis by simp
next
  case False
  then have "0 < scalar_to_biguint a"
    by (simp add: scalar_eq_iff)
  with False show ?thesis
    by (simp add: scalar_to_biguint_def uminus_scalar.rep_eq)
qed

lemma scalar_to_biguint_of_nat: "scalar_to_biguint (of_nat n) = n mod scalar_modulus"
proof (induction n)
  case 0
  then show ?case by simp
next
  case (Suc n)
  then show ?case
    using scalar_modulus_gt_1 by (simp add: scalar_to_biguint_add mod_simps)
qed

lemma scalar_to_biguint_to_scalar:
  "scalar_to_biguint (biguint_to_scalar n) = n mod scalar_modulus"
  by (simp add: biguint_to_scalar_def scalar_to_biguint_def scalar_from.rep_eq)

lemma biguint_to_scalar_of_nat: "biguint_to_scalar n = of_nat n"
  by (simp add: scalar_eq_iff scalar_to_biguint_to_scalar scalar_to_biguint_of_nat)

lemma biguint_scalar_roundtrip [simp]: "biguint_to_scalar (scalar_to_biguint a) = a"
  by (simp add: scalar_eq_iff scalar_to_biguint_to_scalar)

lemma biguint_to_scalar_add:
  "biguint_to_scalar (m + n) = biguint_to_scalar m + biguint_to_scalar n"
  by (simp add: biguint_to_scalar_of_nat)

lemma biguint_to_scalar_mult:
  "biguint_to_scalar (m * n) = biguint_to_scalar m * biguint_to_scalar n"
  by (simp add: biguint_to_scalar_of_nat)

lemma bigint_to_scalar_nonneg: "0 \<le> z \<Longrightarrow> bigint_to_scalar z = biguint_to_scalar (nat z)"
  by (simp add: bigint_to_scalar_def)

lemma bigint_to_scalar_of_int: "bigint_to_scalar z = of_int z"
  by (cases z) (simp_all add: bigint_to_scalar_def biguint_to_scalar_of_nat)

lemma bytes_of_scalar:
  assumes "n \<le> 32"
  shows "from_be_bytes (last_bytes n (to_bytes_be a)) = scalar_to_biguint a mod 256 ^ n"
proof -
  have "last_bytes n (to_bytes_be a) = to_be_bytes n (scalar_to_biguint a)"
    using assms drop_to_be_bytes [of "32 - n" n "scalar_to_biguint a"]
    by (simp add: last_bytes_def to_bytes_be_def)
  then show ?thesis
    by (simp add: from_to_be_bytes)
qed

lemma unat_scalar_to_u128: "unat (scalar_to_u128 a) = scalar_to_biguint a mod 2 ^ 128"
  by (simp add: scalar_to_u128_def bytes_of_scalar unat_of_nat)

lemma unat_scalar_to_u64: "unat (scalar_to_u64 a) = scalar_to_biguint a mod 2 ^ 64"
  by (simp add: scalar_to_u64_def bytes_of_scalar unat_of_nat)

lemma unat_scalar_to_address: "unat (scalar_to_address a) = scalar_to_biguint a mod 2 ^ 160"
  by (simp add: scalar_to_address_def bytes_of_scalar unat_of_nat)

lemma scalar_modulus_bounds: "2 ^ 253 < scalar_modulus" "scalar_modulus < 2 ^ 254"
  by (simp_all add: scalar_modulus_def)

lemma small_mod_modulus: "n < 2 ^ 253 \<Longrightarrow> n mod scalar_modulus = n"
  using scalar_modulus_bounds(1) by simp

lemma unat_less_u128: "unat (x :: u128) < 2 ^ 128"
  using unsigned_less [of x] by simp

lemma scalar_to_biguint_of_u128 [simp]: "scalar_to_biguint (scalar_of_u128 x) = unat x"
  using unat_less_u128 [of x] scalar_modulus_bounds(1)
  by (simp add: scalar_of_u128_def scalar_to_biguint_to_scalar)

lemma scalar_u128_roundtrip [simp]: "scalar_to_u128 (scalar_of_u128 x) = x"
  using unat_less_u128 [of x]
  by (simp add: word_unat_eq_iff unat_scalar_to_u128)

lemma scalar_of_u128_diff:
  assumes "y \<le> x"
  shows "scalar_of_u128 (x - y) = scalar_of_u128 x - scalar_of_u128 y"
proof -
  have "unat x = unat (x - y) + unat y"
    using assms by (simp add: unat_sub word_le_nat_alt)
  then have "scalar_of_u128 x = scalar_of_u128 (x - y) + scalar_of_u128 y"
    by (simp add: scalar_of_u128_def biguint_to_scalar_add)
  then show ?thesis by (simp add: algebra_simps)
qed

lemma scalar_address_roundtrip: "scalar_to_address (address_to_scalar a) = a"
proof -
  have "unat a < 2 ^ 160"
    using unsigned_less [of a] by simp
  moreover have "from_be_bytes (to_be_bytes 20 (unat a)) = unat a"
    using calculation by (simp add: from_to_be_bytes)
  ultimately show ?thesis
    using scalar_modulus_bounds(1)
    by (simp add: word_unat_eq_iff unat_scalar_to_address address_to_scalar_def
        scalar_to_biguint_to_scalar)
qed

end
