(* ===== verification/Fixed_Point.thy ===== *)
theory Fixed_Point
  imports Complex_Main Scalar_Field
begin

text \<open>
  Fixed point numbers of \<open>circuit-types/src/primitives/fixed_point.rs\<close> and the range
  checks of \<open>circuit-types/src/lib.rs\<close>. A fixed point number is a scalar holding the
  represented value times \<open>2^63\<close>; the field elements above half of the modulus stand
  for the negative numbers. Operations that divide by a \<open>BigUint\<close> panic when it is
  zero: they return an option and \<open>None\<close> is the panic.

  The lemmas relate every rounding operation to exact integer arithmetic on the
  representations, state when a product does not wrap around in the field, and show that
  \<open>Ord\<close> is the order of the signed values.
\<close>

section \<open>Definitions\<close>

definition DEFAULT_FP_PRECISION :: nat where
  "DEFAULT_FP_PRECISION = 63"

definition TWO_TO_M :: nat where
  "TWO_TO_M = 2 ^ DEFAULT_FP_PRECISION"

definition TWO_TO_2M :: nat where
  "TWO_TO_2M = 2 ^ (2 * DEFAULT_FP_PRECISION)"

definition TWO_TO_M_SCALAR :: scalar where
  "TWO_TO_M_SCALAR = biguint_to_scalar TWO_TO_M"

definition right_shift_scalar_by_m :: "scalar \<Rightarrow> scalar" where
  "right_shift_scalar_by_m a = biguint_to_scalar (drop_bit DEFAULT_FP_PRECISION (scalar_to_biguint a))"

datatype fixed_point = FixedPoint (repr: scalar)

definition fp_zero :: fixed_point where
  "fp_zero = FixedPoint 0"

definition fp_one :: fixed_point where
  "fp_one = FixedPoint TWO_TO_M_SCALAR"

definition is_negative :: "fixed_point \<Rightarrow> bool" where
  "is_negative x = ((scalar_modulus - 1) div 2 < scalar_to_biguint (repr x))"

definition fp_neg :: "fixed_point \<Rightarrow> fixed_point" where
  "fp_neg x = FixedPoint (- repr x)"

definition fp_abs :: "fixed_point \<Rightarrow> fixed_point" where
  "fp_abs x = (if is_negative x then fp_neg x else x)"

definition from_repr :: "scalar \<Rightarrow> fixed_point" where
  "from_repr r = FixedPoint r"

definition fp_of_amount :: "amount \<Rightarrow> fixed_point" where
  "fp_of_amount a = FixedPoint (scalar_of_u128 a * TWO_TO_M_SCALAR)"

definition fp_of_u64 :: "u64 \<Rightarrow> fixed_point" where
  "fp_of_u64 v = FixedPoint (scalar_of_u64 v * TWO_TO_M_SCALAR)"

definition from_integer :: "u64 \<Rightarrow> fixed_point" where
  "from_integer v = fp_of_amount (ucast v)"

definition from_integer_ratio :: "u128 \<Rightarrow> u128 \<Rightarrow> fixed_point option" where
  "from_integer_ratio numerator denominator =
     (let shifted = push_bit DEFAULT_FP_PRECISION (unat numerator) in
      if denominator = 0 then None
      else Some (FixedPoint (biguint_to_scalar (shifted div unat denominator))))"

definition fp_floor :: "fixed_point \<Rightarrow> scalar" where
  "fp_floor x = bigint_to_scalar (drop_bit DEFAULT_FP_PRECISION (scalar_to_bigint (repr x)))"

definition u64_of_fp :: "fixed_point \<Rightarrow> u64" where
  "u64_of_fp x = scalar_to_u64 (fp_floor x)"

definition div_ceil :: "nat \<Rightarrow> nat \<Rightarrow> nat" where
  "div_ceil a b = (if a mod b = 0 then a div b else a div b + 1)"

definition floor_div :: "fixed_point \<Rightarrow> fixed_point \<Rightarrow> fixed_point option" where
  "floor_div x rhs =
     (let self_repr = scalar_to_biguint (repr x) * TWO_TO_M;
          rhs_repr = scalar_to_biguint (repr rhs)
      in if rhs_repr = 0 then None
         else Some (FixedPoint (biguint_to_scalar (self_repr div rhs_repr))))"

definition ceil_div :: "fixed_point \<Rightarrow> fixed_point \<Rightarrow> fixed_point option" where
  "ceil_div x rhs =
     (let self_repr = scalar_to_biguint (repr x) * TWO_TO_M;
          rhs_repr = scalar_to_biguint (repr rhs)
      in if rhs_repr = 0 then None
         else Some (FixedPoint (biguint_to_scalar (div_ceil self_repr rhs_repr))))"

definition mul_scalar :: "fixed_point \<Rightarrow> scalar \<Rightarrow> fixed_point" where
  "mul_scalar x rhs = FixedPoint (repr x * rhs)"

definition mul_amount :: "fixed_point \<Rightarrow> amount \<Rightarrow> fixed_point" where
  "mul_amount x rhs = FixedPoint (repr x * scalar_of_u128 rhs)"

definition floor_mul_int :: "fixed_point \<Rightarrow> u128 \<Rightarrow> scalar" where
  "floor_mul_int x val = fp_floor (mul_scalar x (scalar_of_u128 val))"

definition ceil_mul_int :: "fixed_point \<Rightarrow> u128 \<Rightarrow> scalar" where
  "ceil_mul_int x val =
     (let product_repr = scalar_to_biguint (repr x) * unat val;
          q = product_repr div TWO_TO_M;
          r = product_repr mod TWO_TO_M;
          q_scalar = biguint_to_scalar q
      in if r = 0 then q_scalar else q_scalar + 1)"

definition floor_div_int :: "fixed_point \<Rightarrow> u128 \<Rightarrow> scalar option" where
  "floor_div_int x val =
     (let val_repr = scalar_to_biguint (scalar_of_u128 val * TWO_TO_M_SCALAR);
          self_repr = scalar_to_biguint (repr x)
      in if self_repr = 0 then None
         else Some (biguint_to_scalar (val_repr div self_repr)))"

definition ceil_div_int :: "fixed_point \<Rightarrow> u128 \<Rightarrow> scalar option" where
  "ceil_div_int x val =
     (let val_repr = scalar_to_biguint (scalar_of_u128 val * TWO_TO_M_SCALAR);
          self_repr = scalar_to_biguint (repr x)
      in if self_repr = 0 then None
         else
           (let q_scalar = biguint_to_scalar (val_repr div self_repr)
            in Some (if val_repr mod self_repr = 0 then q_scalar else q_scalar + 1)))"

text \<open>The \<open>None\<close> of \<open>inverse\<close> is a value the source returns, not a panic.\<close>

definition fp_inverse :: "fixed_point \<Rightarrow> fixed_point option" where
  "fp_inverse x =
     (if repr x = 0 then None
      else Some (FixedPoint (biguint_to_scalar (TWO_TO_2M div scalar_to_biguint (repr x)))))"

definition fp_add :: "fixed_point \<Rightarrow> fixed_point \<Rightarrow> fixed_point" where
  "fp_add x rhs = FixedPoint (repr x + repr rhs)"

definition fp_add_scalar :: "fixed_point \<Rightarrow> scalar \<Rightarrow> fixed_point" where
  "fp_add_scalar x rhs = FixedPoint (repr x + TWO_TO_M_SCALAR * rhs)"

definition fp_mul :: "fixed_point \<Rightarrow> fixed_point \<Rightarrow> fixed_point" where
  "fp_mul x rhs = FixedPoint (right_shift_scalar_by_m (repr x * repr rhs))"

definition div_scalar :: "fixed_point \<Rightarrow> scalar \<Rightarrow> fixed_point option" where
  "div_scalar x rhs =
     (if scalar_to_biguint rhs = 0 then None
      else Some (FixedPoint
        (biguint_to_scalar (scalar_to_biguint (repr x) div scalar_to_biguint rhs))))"

definition fp_sub :: "fixed_point \<Rightarrow> fixed_point \<Rightarrow> fixed_point" where
  "fp_sub x rhs = fp_add x (fp_neg rhs)"

definition fp_sub_scalar :: "fixed_point \<Rightarrow> scalar \<Rightarrow> fixed_point" where
  "fp_sub_scalar x rhs = fp_add_scalar x (- rhs)"

definition scalar_sub_fp :: "scalar \<Rightarrow> fixed_point \<Rightarrow> fixed_point" where
  "scalar_sub_fp x rhs = fp_add_scalar (fp_neg rhs) x"

definition fp_cmp :: "fixed_point \<Rightarrow> fixed_point \<Rightarrow> ordering" where
  "fp_cmp x other =
     (case (is_negative x, is_negative other) of
        (True, True) \<Rightarrow> cmp (repr other) (repr x)
      | (False, False) \<Rightarrow> cmp (repr x) (repr other)
      | (True, False) \<Rightarrow> Less
      | (False, True) \<Rightarrow> Greater)"

subsection \<open>Range checks\<close>

definition AMOUNT_BITS :: nat where
  "AMOUNT_BITS = 100"

definition PRICE_BITS :: nat where
  "PRICE_BITS = DEFAULT_FP_PRECISION + 64"

definition max_price :: fixed_point where
  "max_price = from_repr (biguint_to_scalar (push_bit PRICE_BITS 1 - 1))"

definition max_amount :: amount where
  "max_amount = push_bit AMOUNT_BITS 1 - 1"

definition validate_amount_bitlength :: "amount \<Rightarrow> bool" where
  "validate_amount_bitlength a = (a \<le> push_bit AMOUNT_BITS 1 - 1)"

definition validate_price_bitlength :: "fixed_point \<Rightarrow> bool" where
  "validate_price_bitlength price = (repr price \<le> scalar_of_u128 (push_bit PRICE_BITS 1 - 1))"

text \<open>The signed value of a fixed point number, in units of \<open>2^-63\<close>.\<close>

definition fp_value :: "fixed_point \<Rightarrow> int" where
  "fp_value x =
     (if is_negative x then int (scalar_to_biguint (repr x)) - int scalar_modulus
      else int (scalar_to_biguint (repr x)))"

section \<open>Constants\<close>

lemmas fp_consts = TWO_TO_M_def TWO_TO_2M_def DEFAULT_FP_PRECISION_def AMOUNT_BITS_def PRICE_BITS_def

lemma TWO_TO_M_pos [simp]: "0 < TWO_TO_M"
  by (simp add: fp_consts)

lemma scalar_to_biguint_TWO_TO_M [simp]: "scalar_to_biguint TWO_TO_M_SCALAR = 2 ^ 63"
  by (simp add: TWO_TO_M_SCALAR_def scalar_to_biguint_to_scalar fp_consts scalar_modulus_def)

lemma max_amount_val: "unat max_amount = 2 ^ 100 - 1"
  by (simp add: max_amount_def fp_consts)

lemma validate_amount_iff: "validate_amount_bitlength a \<longleftrightarrow> unat a < 2 ^ 100"
  by (simp add: validate_amount_bitlength_def fp_consts word_le_nat_alt, linarith)

lemma validate_price_iff:
  "validate_price_bitlength x \<longleftrightarrow> scalar_to_biguint (repr x) < 2 ^ 127"
  by (simp add: validate_price_bitlength_def fp_consts scalar_le_iff, linarith)

section \<open>The order\<close>

text \<open>
  Two negative numbers are compared by their representations in reverse, although a larger
  representation is a larger (less negative) value: \<open>fp_rank\<close> is the quantity that
  \<open>Ord\<close> really compares.
\<close>

definition fp_rank :: "fixed_point \<Rightarrow> int" where
  "fp_rank x =
     (if is_negative x then - int (scalar_to_biguint (repr x))
      else int (scalar_to_biguint (repr x)))"

lemma is_negative_pos: "is_negative x \<Longrightarrow> 0 < scalar_to_biguint (repr x)"
  by (simp add: is_negative_def)

lemma fp_cmp_rank: "fp_cmp x y = cmp (fp_rank x) (fp_rank y)"
  using is_negative_pos [of x] is_negative_pos [of y]
  by (auto simp: fp_cmp_def cmp_def fp_rank_def scalar_less_iff scalar_eq_iff)

lemma fp_rank_inj: "fp_rank x = fp_rank y \<Longrightarrow> x = y"
  using is_negative_pos [of x] is_negative_pos [of y]
  by (auto simp: fp_rank_def scalar_eq_iff intro: fixed_point.expand split: if_splits)

lemma fp_value_inj: "fp_value x = fp_value y \<Longrightarrow> x = y"
  using Rep_scalar [of "repr x"] Rep_scalar [of "repr y"]
  by (auto simp: fp_value_def scalar_eq_iff scalar_to_biguint_def intro: fixed_point.expand
      split: if_splits)

instantiation fixed_point :: linorder
begin

definition less_eq_fixed_point :: "fixed_point \<Rightarrow> fixed_point \<Rightarrow> bool" where
  "less_eq_fixed_point x y = (fp_cmp x y \<noteq> Greater)"

definition less_fixed_point :: "fixed_point \<Rightarrow> fixed_point \<Rightarrow> bool" where
  "less_fixed_point x y = (fp_cmp x y = Less)"

instance
  by standard
    (auto simp: less_eq_fixed_point_def less_fixed_point_def fp_cmp_rank cmp_def
      split: if_splits dest: fp_rank_inj)

end

lemma fp_le_rank: "x \<le> y \<longleftrightarrow> fp_rank x \<le> fp_rank y"
  by (auto simp: less_eq_fixed_point_def fp_cmp_rank cmp_def)

lemma fp_rank_nonneg: "\<not> is_negative x \<Longrightarrow> fp_rank x = fp_value x"
  by (simp add: fp_rank_def fp_value_def)

lemma fp_value_neg: "is_negative x \<Longrightarrow> fp_value x < 0"
  using Rep_scalar [of "repr x"] by (simp add: fp_value_def scalar_to_biguint_def)

lemma fp_value_nonneg: "\<not> is_negative x \<Longrightarrow> 0 \<le> fp_value x"
  by (simp add: fp_value_def)

lemma fp_rank_neg: "is_negative x \<Longrightarrow> fp_rank x = - int scalar_modulus - fp_value x"
  by (simp add: fp_rank_def fp_value_def)

lemma fp_rank_neg_less: "is_negative x \<Longrightarrow> fp_rank x < 0"
  using is_negative_pos [of x] by (simp add: fp_rank_def)

lemma fp_le_value:
  "\<not> (is_negative x \<and> is_negative y) \<Longrightarrow> x \<le> y \<longleftrightarrow> fp_value x \<le> fp_value y"
  using fp_value_neg [of x] fp_value_neg [of y] fp_value_nonneg [of x] fp_value_nonneg [of y]
    fp_rank_nonneg [of x] fp_rank_nonneg [of y] fp_rank_neg_less [of x] fp_rank_neg_less [of y]
  by (cases "is_negative x"; cases "is_negative y") (auto simp: fp_le_rank)

lemma fp_le_value_negative:
  "is_negative x \<Longrightarrow> is_negative y \<Longrightarrow> x \<le> y \<longleftrightarrow> fp_value y \<le> fp_value x"
  by (auto simp: fp_le_rank fp_rank_neg)

section \<open>Rounding\<close>

text \<open>
  The rational number a non-negative fixed point number stands for: the representation is read
  without its sign, so this is the value only of numbers that are not \<open>is_negative\<close>, as every
  number within the price bit length and every fee rate up to one is.
\<close>

definition fp_rat :: "fixed_point \<Rightarrow> rat" where
  "fp_rat x = of_nat (scalar_to_biguint (repr x)) / of_nat TWO_TO_M"

lemma floor_ratio: "\<lfloor>of_nat m / (of_nat n :: rat)\<rfloor> = int (m div n)"
  by (rule floor_divide_of_nat_eq)

lemma div_ceil_mult: "div_ceil a b * b + a mod b = a + (if a mod b = 0 then 0 else b)"
proof (cases "a mod b = 0")
  case True
  then have "b dvd a" by (simp add: mod_eq_0_iff_dvd)
  then show ?thesis by (simp add: div_ceil_def)
next
  case False
  then show ?thesis by (simp add: div_ceil_def algebra_simps)
qed

lemma div_ceil_least:
  assumes "0 < b"
  shows "a \<le> div_ceil a b * b" and "a \<le> c * b \<Longrightarrow> div_ceil a b \<le> c"
proof -
  have e: "a = a div b * b + a mod b" by simp
  have m: "a mod b < b" using assms by simp
  show "a \<le> div_ceil a b * b"
    using div_ceil_mult [of a b] m by (cases "a mod b = 0") auto
  show "div_ceil a b \<le> c" if c: "a \<le> c * b"
  proof (rule ccontr)
    assume "\<not> div_ceil a b \<le> c"
    then have "c \<le> a div b \<and> (a mod b = 0 \<longrightarrow> c < a div b)"
      by (auto simp: div_ceil_def split: if_splits)
    moreover have "a mod b = 0 \<Longrightarrow> a div b * b \<le> c * b" using c e by linarith
    moreover have "0 < a mod b \<Longrightarrow> a div b * b < c * b" using c e by linarith
    ultimately show False
      using assms by (cases "a mod b = 0") auto
  qed
qed

lemma ceiling_ratio:
  assumes "0 < n"
  shows "\<lceil>of_nat m / (of_nat n :: rat)\<rceil> = int (div_ceil m n)"
proof (rule ceiling_unique)
  have "of_nat m \<le> (of_nat (div_ceil m n * n) :: rat)"
    using div_ceil_least(1) [OF assms] of_nat_le_iff by blast
  then show "of_nat m / of_nat n \<le> (of_int (int (div_ceil m n)) :: rat)"
    using assms by (simp add: field_simps)
  have "div_ceil m n * n < m + n"
    using assms div_ceil_mult [of m n] by (cases "m mod n = 0") auto
  then have "(of_nat (div_ceil m n * n) :: rat) < of_nat (m + n)"
    using of_nat_less_iff by blast
  then show "of_int (int (div_ceil m n)) - 1 < (of_nat m / of_nat n :: rat)"
    using assms by (simp add: field_simps)
qed

lemma div_less_modulus: "a < scalar_modulus \<Longrightarrow> a div b < scalar_modulus"
  by (meson div_le_dividend le_less_trans)

lemma fp_floor_exact:
  "scalar_to_biguint (fp_floor x) = scalar_to_biguint (repr x) div TWO_TO_M"
  by (simp add: fp_floor_def bigint_to_scalar_nonneg scalar_to_bigint_def drop_bit_eq_div
      nat_div_distrib scalar_to_biguint_to_scalar div_less_modulus fp_consts)

lemma mul_scalar_exact:
  assumes "scalar_to_biguint (repr x) * unat v < scalar_modulus"
  shows "scalar_to_biguint (repr (mul_scalar x (scalar_of_u128 v))) = scalar_to_biguint (repr x) * unat v"
  using assms by (simp add: mul_scalar_def scalar_to_biguint_mult)

lemma floor_mul_int_exact:
  assumes "scalar_to_biguint (repr x) * unat v < scalar_modulus"
  shows "scalar_to_biguint (floor_mul_int x v) = scalar_to_biguint (repr x) * unat v div TWO_TO_M"
  by (simp add: floor_mul_int_def fp_floor_exact mul_scalar_exact [OF assms])

lemma ceil_mul_int_exact:
  assumes "scalar_to_biguint (repr x) * unat v < scalar_modulus"
  shows "scalar_to_biguint (ceil_mul_int x v) = div_ceil (scalar_to_biguint (repr x) * unat v) TWO_TO_M"
proof -
  let ?p = "scalar_to_biguint (repr x) * unat v"
  have "?p div TWO_TO_M + 1 < scalar_modulus"
    using assms by (simp add: fp_consts scalar_modulus_def)
  then show ?thesis
    by (simp add: ceil_mul_int_def Let_def div_ceil_def scalar_to_biguint_add
        scalar_to_biguint_to_scalar)
qed

text \<open>An amount times a price, both within their bit lengths, stays below the modulus.\<close>

lemma price_amount_no_wrap:
  assumes "validate_price_bitlength x" and "validate_amount_bitlength v"
  shows "scalar_to_biguint (repr x) * unat v < scalar_modulus"
proof -
  have "scalar_to_biguint (repr x) * unat v < 2 ^ 127 * 2 ^ 100"
    using assms unfolding validate_price_iff validate_amount_iff
    by (intro mult_strict_mono) auto
  then show ?thesis by (simp add: scalar_modulus_def)
qed

lemma int_shift_no_wrap:
  "scalar_to_biguint (scalar_of_u128 v * TWO_TO_M_SCALAR) = unat v * TWO_TO_M"
proof -
  have "unat v * 2 ^ 63 < 2 ^ 128 * 2 ^ 63"
    using unat_less_u128 [of v] by simp
  then have "unat v * 2 ^ 63 < scalar_modulus"
    by (simp add: scalar_modulus_def)
  then show ?thesis
    by (simp add: scalar_to_biguint_mult fp_consts)
qed

lemma floor_div_int_exact:
  "floor_div_int x v =
     (if repr x = 0 then None
      else Some (biguint_to_scalar (unat v * TWO_TO_M div scalar_to_biguint (repr x))))"
  by (simp add: floor_div_int_def int_shift_no_wrap scalar_eq_iff)

lemma biguint_ceil_scalar:
  assumes "a div b + 1 < scalar_modulus"
  shows "scalar_to_biguint (if a mod b = 0 then biguint_to_scalar (a div b)
           else biguint_to_scalar (a div b) + 1) = div_ceil a b"
  using assms by (simp add: div_ceil_def scalar_to_biguint_add scalar_to_biguint_to_scalar)

lemma int_shift_div_bound: "unat (v :: u128) * TWO_TO_M div k + 1 < scalar_modulus"
proof -
  have "unat v * TWO_TO_M div k \<le> unat v * TWO_TO_M" by simp
  also have "\<dots> < 2 ^ 128 * 2 ^ 63"
    using unat_less_u128 [of v] by (simp add: fp_consts)
  finally show ?thesis by (simp add: scalar_modulus_def)
qed

lemma inverse_repr:
  assumes "fp_inverse x = Some y"
  shows "scalar_to_biguint (repr y) = TWO_TO_2M div scalar_to_biguint (repr x)"
proof -
  have "TWO_TO_2M div scalar_to_biguint (repr x) < scalar_modulus"
    by (rule div_less_modulus) (simp add: fp_consts scalar_modulus_def)
  then show ?thesis
    using assms by (auto simp: fp_inverse_def scalar_to_biguint_to_scalar split: if_splits)
qed

lemma reciprocal_ratio:
  "of_nat TWO_TO_M / fp_rat x = (of_nat TWO_TO_2M / of_nat (scalar_to_biguint (repr x)) :: rat)"
proof -
  have "of_nat TWO_TO_2M = (of_nat TWO_TO_M * of_nat TWO_TO_M :: rat)" by (simp add: fp_consts)
  then show ?thesis by (simp add: fp_rat_def)
qed

lemma div_div_ge: "n div a \<noteq> 0 \<Longrightarrow> a \<le> n div (n div a)" for a n :: nat
  by (simp add: less_eq_div_iff_mult_less_eq)

lemma fp_inverse_one: "fp_inverse fp_one = Some fp_one"
  by (simp add: fp_inverse_def fp_one_def scalar_eq_iff TWO_TO_M_SCALAR_def scalar_to_biguint_to_scalar
      fp_consts scalar_modulus_def)

lemma floor_mul_int_one: "floor_mul_int fp_one v = scalar_of_u128 v"
proof -
  have "2 ^ 63 * unat v < 2 ^ 63 * 2 ^ 128" using unat_less_u128 [of v] by simp
  then have "scalar_to_biguint (repr fp_one) * unat v < scalar_modulus"
    by (simp add: fp_one_def scalar_modulus_def)
  then show ?thesis
    using floor_mul_int_exact [of fp_one v] by (simp add: scalar_eq_iff fp_one_def fp_consts)
qed

section \<open>Properties\<close>

text \<open>
  C16. Multiplying a price by an amount, both within the bit lengths the protocol allows,
  never wraps around in the field: \<open>floor_mul_int\<close> is the floor and
  \<open>ceil_mul_int\<close> the ceiling of the exact rational product.
\<close>

theorem mul_int_rounds_exactly:
  assumes "validate_price_bitlength x" and "validate_amount_bitlength v"
  shows "int (scalar_to_biguint (floor_mul_int x v)) = \<lfloor>fp_rat x * of_nat (unat v)\<rfloor> \<and>
         int (scalar_to_biguint (ceil_mul_int x v)) = \<lceil>fp_rat x * of_nat (unat v)\<rceil>"
proof -
  note nw = price_amount_no_wrap [OF assms]
  have r: "fp_rat x * of_nat (unat v) =
      of_nat (scalar_to_biguint (repr x) * unat v) / (of_nat TWO_TO_M :: rat)"
    by (simp add: fp_rat_def)
  show ?thesis
    unfolding r floor_ratio ceiling_ratio [OF TWO_TO_M_pos]
      floor_mul_int_exact [OF nw] ceil_mul_int_exact [OF nw] by simp
qed

theorem mul_int_rounds_exactly_witness:
  "\<lfloor>fp_rat (FixedPoint (biguint_to_scalar (3 * 2 ^ 62))) * of_nat (unat (5 :: u128))\<rfloor> =
   int (scalar_to_biguint (floor_mul_int (FixedPoint (biguint_to_scalar (3 * 2 ^ 62))) 5)) \<and>
   validate_price_bitlength (FixedPoint (biguint_to_scalar (3 * 2 ^ 62))) \<and>
   validate_amount_bitlength (5 :: u128)"
proof -
  have p: "validate_price_bitlength (FixedPoint (biguint_to_scalar (3 * 2 ^ 62)))"
    by (simp add: validate_price_iff scalar_to_biguint_to_scalar scalar_modulus_def)
  have a: "validate_amount_bitlength (5 :: u128)"
    by (simp add: validate_amount_iff)
  show ?thesis
    using mul_int_rounds_exactly [OF p a] p a by simp
qed


text \<open>
  The inverse of a fixed point number is defined exactly when its representation is
  not zero, and its representation is the floor of the exact reciprocal in units of
  \<open>2^-63\<close>, both read without a sign; inverting twice never falls below the original number.
\<close>

theorem inverse_rounds_down:
  "case fp_inverse x of
     None \<Rightarrow> repr x = 0
   | Some y \<Rightarrow> repr x \<noteq> 0 \<and>
       int (scalar_to_biguint (repr y)) = \<lfloor>of_nat TWO_TO_M / fp_rat x\<rfloor> \<and>
       (case fp_inverse y of None \<Rightarrow> TWO_TO_2M < scalar_to_biguint (repr x)
        | Some z \<Rightarrow> scalar_to_biguint (repr x) \<le> scalar_to_biguint (repr z))"
proof (cases "fp_inverse x")
  case None
  then show ?thesis by (simp add: fp_inverse_def split: if_splits)
next
  case (Some y)
  note ey = inverse_repr [OF Some]
  have nz: "repr x \<noteq> 0" using Some by (simp add: fp_inverse_def split: if_splits)
  have "case fp_inverse y of None \<Rightarrow> TWO_TO_2M < scalar_to_biguint (repr x)
        | Some z \<Rightarrow> scalar_to_biguint (repr x) \<le> scalar_to_biguint (repr z)"
  proof (cases "fp_inverse y")
    case None
    then have "TWO_TO_2M div scalar_to_biguint (repr x) = 0"
      using ey by (simp add: fp_inverse_def split: if_splits)
    then show ?thesis
      using None nz by (simp add: div_eq_0_iff scalar_eq_iff)
  next
    case (Some z)
    have "TWO_TO_2M div scalar_to_biguint (repr x) \<noteq> 0"
      using Some ey by (metis fp_inverse_def option.distinct(1) scalar_eq_iff scalar_to_biguint_0)
    then show ?thesis
      using Some div_div_ge [of TWO_TO_2M] inverse_repr [OF Some] ey by simp
  qed
  then show ?thesis
    using Some nz ey unfolding reciprocal_ratio floor_ratio by simp
qed

text \<open>
  C40. \<open>Ord\<close> is the order of the signed values whenever at least one of the two
  numbers is not negative; on two negative numbers it is the reverse of that order.
\<close>

theorem fp_order_by_value:
  "x \<le> y \<longleftrightarrow>
     (if is_negative x \<and> is_negative y then fp_value y \<le> fp_value x
      else fp_value x \<le> fp_value y)"
  using fp_le_value [of x y] fp_le_value_negative [of x y] by (simp split: if_splits)

end
