(* ===== verification/Poseidon2.thy ===== *)
theory Poseidon2
  imports Scalar_Field
begin

text \<open>
  The Poseidon2 hash of \<open>crypto/src/hash\<close>: the round constants, the permutation on
  three field elements, the sponge built on it and \<open>compute_poseidon_hash\<close>. The
  mutable sponge is passed as a record; \<open>absorb\<close> asserts that the sponge is not
  squeezing, and \<open>None\<close> is that panic.

  The lemmas show that the two linear layers are the matrices their comments name and are
  invertible, that a fresh sponge never panics, and that the incremental sponge computes
  the block-wise reference sponge.
\<close>

section \<open>Constants\<close>

definition R_F :: nat where
  "R_F = 8"

definition R_P :: nat where
  "R_P = 56"

definition WIDTH :: nat where
  "WIDTH = 3"

definition RATE :: nat where
  "RATE = 2"

definition CAPACITY :: nat where
  "CAPACITY = 1"

definition ALPHA :: nat where
  "ALPHA = 5"

text \<open>\<open>ScalarField::new (BigInt::new [l0, l1, l2, l3])\<close>: little endian limbs.\<close>

definition field_new :: "nat \<Rightarrow> nat \<Rightarrow> nat \<Rightarrow> nat \<Rightarrow> scalar" where
  "field_new l0 l1 l2 l3 =
     scalar_from (l0 + l1 * 2 ^ 64 + l2 * 2 ^ 128 + l3 * 2 ^ 192)"

definition FULL_ROUND_CONSTANTS :: "scalar list list" where
  "FULL_ROUND_CONSTANTS =
     [[field_new 6458331304642816022 9191791745966588794 10078444264992802031 2091475785534126077,
       field_new 13196537876657739280 13242552074285594254 12411648568120336672 3015986462747209158,
       field_new 11424359946556596689 2698455998639397967 2219105332273731329 2246365349865385472],
      [field_new 15782428245603856869 12762929946389366497 13652592920561494567 769322212625167858,
       field_new 656627337302130472 3963883011537030758 15489675571286521695 2473147239071445900,
       field_new 15321051510152419125 10502964042640599943 6513797472532144639 1883790224900438088],
      [field_new 5753026235266483322 738961277496629169 8934088858439642033 2520967471806658381,
       field_new 17282094170399272525 16580379156546658773 11299574250627272826 1178195396411754989,
       field_new 11843547806398251470 2387753460292841813 17734952367284543128 197758656190898648],
      [field_new 11673112823341286564 12369618416529278774 2844207100017432099 1065502144839691590,
       field_new 5258847900301915518 6505352688770326422 6071654207755516479 2967749481702258496,
       field_new 892821802737558910 14727071363237210694 2792543592443165093 2830937070444722279],
      [field_new 8705540160700578512 6746830576917213441 7092845282961761070 1931309519409552049,
       field_new 14595188708134663589 2015698889624141507 14187205567353648784 1871427985608321894,
       field_new 16271429997482961043 468818470830000426 7996775362779455505 2021487601170175912],
      [field_new 1733406684830268733 18152518321385677508 5836227034235395097 1491710151164857790,
       field_new 12660150021064259934 13267881929723736097 10315712918880346551 2108981438329286341,
       field_new 8525962534445484028 9934399915059914018 6988064890623532430 2207548493368319419],
      [field_new 1390870045172465649 6422021221791678552 13078062013033884631 322243138126305932,
       field_new 2080203751875985086 7362864967529529522 17728687880877874386 1812467639561021094,
       field_new 260056793786564966 12888488316328472437 14360227994345277611 1450833317726038835],
      [field_new 17947676061038389710 12834170303949236259 11384599308972499080 143388347964205391,
       field_new 6546071725730114135 12601887796104903258 8919969549330983706 1794029064565484592,
       field_new 1021565994830986662 10934776881971040877 12375328443065392690 1135395077632659701]]"

definition PARTIAL_ROUND_CONSTANTS :: "scalar list" where
  "PARTIAL_ROUND_CONSTANTS =
     [field_new 5302271620417049781 14906098032514729777 13131960320030414264 1881667084089419620,
      field_new 13338254911895600183 586415510492166035 9483754624098305591 2786538975574068840,
      field_new 809569393612520424 528120150944813735 9342005836485684535 899704706212247635,
      field_new 17137185606063142037 13415865686895593136 11391838450430455070 2086742809232669367,
      field_new 8843393565329129737 1838180464329137089 6218527723244609675 1107386903008522679,
      field_new 4809630522644666222 17535228293073829195 10801336483130722817 1792268399693959384,
      field_new 5634636821807834076 15053876840384767471 7947578098813132826 357964892642556076,
      field_new 16527458989744188390 16677040905594745484 4341476110168786225 3010494594414878830,
      field_new 63306881032388373 7327841382898372030 13858532193471856477 1841200778148548229,
      field_new 5319782128374767476 12105534410073556125 7706728210739274202 2733165640907410782,
      field_new 13905011766727611265 397545458774684082 2618297833076747029 1409249416379998688,
      field_new 4617094559105111687 4793267458613048010 17791403032818154766 3486234691922257694,
      field_new 9674187949040268832 2439672703657190660 3127451649443712794 1877012939541750851,
      field_new 12273040699418823327 17004437659862682988 4609551378284273612 3118377810905829727,
      field_new 18106409021383810916 7005941813576523867 142065113101712121 1356675148274829111,
      field_new 13417219845588204063 18098831554155340941 8139412102635653279 2752703017946725000,
      field_new 9030911001104498125 17918615306737643293 777016847745710800 726472871956080806,
      field_new 15584670787591111609 2863790524049332765 1900103773593318106 2948408348452667051,
      field_new 16867895570996871532 9840099798364396799 680609925832583881 2047644432353969731,
      field_new 3617622047312850068 5723491105472485545 3108891270768987616 2290053041924610425,
      field_new 16635599629165910696 13889630767821251854 16393349863559499543 279513358749840108,
      field_new 4991402318615115981 5063502445310142847 7620324954341078828 3257591428770437702,
      field_new 15081224770952329547 5919227265182789027 17764430127524375836 669620769166038202,
      field_new 15360420589354587895 16261191412625806761 1854549200062090405 1833065620299829980,
      field_new 6975783924512399374 9737821894529518142 2291263480286660018 702362307909111359,
      field_new 6069171416060354126 3752469561037779032 5834479341906125444 1730499498393076028,
      field_new 15285076325592677980 13794437892125540525 3483915936988995384 1117085899585373406,
      field_new 9062361212365479288 12380341930130305002 15528130627563932004 1328247396736374211,
      field_new 17259757026730354065 1151600880302546424 7620006839548456097 2576626133210285583,
      field_new 8960531168600849300 4461975299424440180 17009261745893778992 3038488690496386825,
      field_new 13165667200848562987 14110818871887028667 5180761908053230572 555646921363871471,
      field_new 1381758840622748093 9986911534659916114 9826174633534139965 2824156456769809917,
      field_new 3413617401377599094 17258722595927485798 15605954241271186193 2115646988530496184,
      field_new 8945482950897992840 702592287789103350 3686043328539833836 3425852069776866095,
      field_new 7376743520743437269 2111267269708684676 15878419741432144411 2191075595829647030,
      field_new 2259619124330372427 12001441661304539563 6902370926577093337 1282945395516133573,
      field_new 16729565964201713852 6956698123409511863 3383169071491634900 2405817082479101412,
      field_new 5320921342946068874 2691715029914560996 10930922554022577632 1001529153797943229,
      field_new 11171553171900432536 15969234436173575856 16356721817558633473 3085620780208706067,
      field_new 15228643841329377399 4455358404709847991 7982463345877531625 2119812921062617820,
      field_new 14097760453325158398 856786123610740072 13335858100674396141 1612490154809976395,
      field_new 10854412943914486782 14892522000790554512 1247299884213565152 28614983888150324,
      field_new 14929667005143385101 3836713032172734107 8315888069836105516 2238834806901519768,
      field_new 1227321958173010238 4310456818987391418 12986075078568625117 2763362288870467025,
      field_new 7441031895532537359 9599919680464559728 8931488460254525139 1654118242821888559,
      field_new 16259374832042614367 6237462359444241861 11048481482555464692 1927010586885088017,
      field_new 147832287409453657 11483538217836605698 15607570256914320247 1027503282893456593,
      field_new 12124132488385046214 31921346119029583 5274767504760454943 1043762827231794559,
      field_new 5509839628418401949 7018542083821702829 1594960980879474461 581703325927526154,
      field_new 3325744805996203348 7543499699481574044 13522420521837659136 2424535168622248373,
      field_new 8264568362009840078 13623416661050546942 12497801165521077958 140459674360179844,
      field_new 5605477589105515659 10084396541222391775 183568619191429726 797512561166172386,
      field_new 3774123395629030959 2881218385746366730 17361136136679132462 2033634766325428180,
      field_new 12812937017348375870 3412938269445494740 4781767212785234811 2056393341899272936,
      field_new 10048060944186642319 2426675488974593715 17785911234421064746 230367907622696299,
      field_new 6619695695594038473 5832859038197865707 7480173222580839341 2774347868835657535]"

section \<open>The permutation\<close>

definition apply_sbox :: "scalar \<Rightarrow> scalar" where
  "apply_sbox v =
     (let base_val = v;
          v = v * v;
          v = v * v
      in v * base_val)"

definition external_add_rc :: "nat \<Rightarrow> scalar list \<Rightarrow> scalar list" where
  "external_add_rc round_number st = map2 (+) st (FULL_ROUND_CONSTANTS ! round_number)"

definition external_sbox :: "scalar list \<Rightarrow> scalar list" where
  "external_sbox st = map apply_sbox st"

definition external_mds :: "scalar list \<Rightarrow> scalar list" where
  "external_mds st = (let sum = foldl (+) 0 st in map (\<lambda>x. x + sum) st)"

definition external_round :: "nat \<Rightarrow> scalar list \<Rightarrow> scalar list" where
  "external_round round_number st =
     external_mds (external_sbox (external_add_rc round_number st))"

definition internal_add_rc :: "nat \<Rightarrow> scalar list \<Rightarrow> scalar list" where
  "internal_add_rc round_number st = st[0 := st ! 0 + PARTIAL_ROUND_CONSTANTS ! round_number]"

definition internal_sbox :: "scalar list \<Rightarrow> scalar list" where
  "internal_sbox st = st[0 := apply_sbox (st ! 0)]"

definition internal_mds :: "scalar list \<Rightarrow> scalar list" where
  "internal_mds st =
     (let sum = foldl (+) 0 st;
          st = st[WIDTH - 1 := st ! (WIDTH - 1) + st ! (WIDTH - 1)]
      in map (\<lambda>x. x + sum) st)"

definition internal_round :: "nat \<Rightarrow> scalar list \<Rightarrow> scalar list" where
  "internal_round round_number st =
     internal_mds (internal_sbox (internal_add_rc round_number st))"

definition permute :: "scalar list \<Rightarrow> scalar list" where
  "permute st =
     (let st = external_mds st;
          st = fold external_round [0..<R_F div 2] st;
          st = fold internal_round [0..<R_P] st
      in fold external_round [R_F div 2..<R_F] st)"

section \<open>The sponge\<close>

record poseidon2_sponge =
  state :: "scalar list"
  next_index :: nat
  squeezing :: bool

definition sponge_new :: poseidon2_sponge where
  "sponge_new = \<lparr>state = replicate WIDTH 0, next_index = 0, squeezing = False\<rparr>"

definition absorb :: "scalar \<Rightarrow> poseidon2_sponge \<Rightarrow> poseidon2_sponge option" where
  "absorb x s =
     (if squeezing s then None
      else
        (let s = (if next_index s = RATE
                  then s\<lparr>state := permute (state s), next_index := 0\<rparr> else s);
             entry = next_index s + CAPACITY
         in Some (s\<lparr>state := (state s)[entry := state s ! entry + x],
                    next_index := next_index s + 1\<rparr>)))"

fun absorb_batch :: "scalar list \<Rightarrow> poseidon2_sponge \<Rightarrow> poseidon2_sponge option" where
  "absorb_batch [] s = Some s"
| "absorb_batch (x # xs) s =
     (case absorb x s of None \<Rightarrow> None | Some s \<Rightarrow> absorb_batch xs s)"

definition squeeze :: "poseidon2_sponge \<Rightarrow> scalar \<times> poseidon2_sponge" where
  "squeeze s =
     (let s = (if \<not> squeezing s \<or> next_index s = RATE
               then s\<lparr>state := permute (state s), next_index := 0, squeezing := True\<rparr> else s);
          entry = next_index s + CAPACITY;
          s = s\<lparr>next_index := next_index s + 1\<rparr>
      in (state s ! entry, s))"

fun squeeze_batch :: "nat \<Rightarrow> poseidon2_sponge \<Rightarrow> scalar list \<times> poseidon2_sponge" where
  "squeeze_batch 0 s = ([], s)"
| "squeeze_batch (Suc n) s =
     (let (x, s) = squeeze s; (xs, s) = squeeze_batch n s in (x # xs, s))"

definition sponge_hash :: "scalar list \<Rightarrow> poseidon2_sponge \<Rightarrow> (scalar \<times> poseidon2_sponge) option" where
  "sponge_hash seq s = map_option squeeze (absorb_batch seq s)"

definition compute_poseidon_hash :: "scalar list \<Rightarrow> scalar" where
  "compute_poseidon_hash values = fst (the (sponge_hash values sponge_new))"

section \<open>Reference definitions\<close>

definition mat_vec :: "scalar list list \<Rightarrow> scalar list \<Rightarrow> scalar list" where
  "mat_vec M v = map (\<lambda>row. sum_list (map2 (*) row v)) M"

definition M_E :: "scalar list list" where
  "M_E = [[2, 1, 1], [1, 2, 1], [1, 1, 2]]"

definition M_I :: "scalar list list" where
  "M_I = [[2, 1, 1], [1, 2, 1], [1, 1, 3]]"

text \<open>The inverses of four and seven in the field, and the inverse matrices.\<close>

definition inv_4 :: scalar where
  "inv_4 = scalar_from ((3 * scalar_modulus + 1) div 4)"

definition inv_7 :: scalar where
  "inv_7 = scalar_from ((1 * scalar_modulus + 1) div 7)"

definition M_E_inv :: "scalar list list" where
  "M_E_inv = map (map (\<lambda>x. inv_4 * x)) [[3, -1, -1], [-1, 3, -1], [-1, -1, 3]]"

definition M_I_inv :: "scalar list list" where
  "M_I_inv = map (map (\<lambda>x. inv_7 * x)) [[5, -2, -1], [-2, 5, -1], [-1, -1, 3]]"

text \<open>
  The block-wise sponge: inputs are split into blocks of \<open>RATE\<close> elements, each block is
  added to the rate part of the state, and the state is permuted between two blocks and
  before the first output.
\<close>

fun rate_blocks :: "scalar list \<Rightarrow> scalar list list" where
  "rate_blocks [] = []"
| "rate_blocks [x] = [[x]]"
| "rate_blocks (x # y # xs) = [x, y] # rate_blocks xs"

fun add_from :: "nat \<Rightarrow> scalar list \<Rightarrow> scalar list \<Rightarrow> scalar list" where
  "add_from i [] st = st"
| "add_from i (x # xs) st = add_from (Suc i) xs (st[i := st ! i + x])"

fun absorb_blocks :: "scalar list list \<Rightarrow> scalar list \<Rightarrow> scalar list" where
  "absorb_blocks [] st = st"
| "absorb_blocks [b] st = add_from CAPACITY b st"
| "absorb_blocks (b # bs) st = absorb_blocks bs (permute (add_from CAPACITY b st))"

definition block_sponge_hash :: "scalar list \<Rightarrow> scalar" where
  "block_sponge_hash xs = permute (absorb_blocks (rate_blocks xs) (replicate WIDTH 0)) ! CAPACITY"

text \<open>Every index a well formed sponge uses is inside its state.\<close>

definition sponge_ok :: "poseidon2_sponge \<Rightarrow> bool" where
  "sponge_ok s \<longleftrightarrow> length (state s) = WIDTH \<and> next_index s \<le> RATE"

section \<open>Lemmas\<close>

lemmas poseidon_consts = R_F_def R_P_def WIDTH_def RATE_def CAPACITY_def

lemma apply_sbox_power: "apply_sbox v = v ^ ALPHA"
  by (simp add: apply_sbox_def ALPHA_def numeral_eq_Suc mult.assoc)

lemma scalar_numeral: "(numeral k :: scalar) = scalar_from (numeral k)"
  by (metis biguint_to_scalar_def biguint_to_scalar_of_nat of_nat_numeral)

lemma scalar_from_mult: "scalar_from m * scalar_from n = scalar_from (m * n)"
  by (metis biguint_to_scalar_def biguint_to_scalar_mult)

lemma scalar_from_eq_1: "n mod scalar_modulus = 1 \<Longrightarrow> scalar_from n = 1"
  by (metis biguint_to_scalar_def scalar_eq_iff scalar_to_biguint_1 scalar_to_biguint_to_scalar)

lemma inv_4: "4 * inv_4 = 1"
  unfolding inv_4_def scalar_numeral scalar_from_mult
  by (rule scalar_from_eq_1) (simp add: scalar_modulus_def)

lemma inv_7: "7 * inv_7 = 1"
  unfolding inv_7_def scalar_numeral scalar_from_mult
  by (rule scalar_from_eq_1) (simp add: scalar_modulus_def)

lemma scale_inv_4: "inv_4 * (4 * x) = x"
  by (metis inv_4 mult.assoc mult.commute mult_1)

lemma scale_inv_7: "inv_7 * (7 * x) = x"
  by (metis inv_7 mult.assoc mult.commute mult_1)

lemma external_mds_matrix: "external_mds [a, b, c] = mat_vec M_E [a, b, c]"
  by (simp add: external_mds_def mat_vec_def M_E_def algebra_simps)

lemma internal_mds_matrix: "internal_mds [a, b, c] = mat_vec M_I [a, b, c]"
  by (simp add: internal_mds_def mat_vec_def M_I_def WIDTH_def algebra_simps)

lemma M_E_inv_M_E: "mat_vec M_E_inv (mat_vec M_E [a, b, c]) = [a, b, c]"
proof -
  have "mat_vec M_E_inv (mat_vec M_E [a, b, c]) = [inv_4 * (4 * a), inv_4 * (4 * b), inv_4 * (4 * c)]"
    by (simp add: mat_vec_def M_E_inv_def M_E_def algebra_simps)
  then show ?thesis by (simp only: scale_inv_4)
qed

lemma M_I_inv_M_I: "mat_vec M_I_inv (mat_vec M_I [a, b, c]) = [a, b, c]"
proof -
  have "mat_vec M_I_inv (mat_vec M_I [a, b, c]) = [inv_7 * (7 * a), inv_7 * (7 * b), inv_7 * (7 * c)]"
    by (simp add: mat_vec_def M_I_inv_def M_I_def algebra_simps)
  then show ?thesis by (simp only: scale_inv_7)
qed

lemma FULL_ROUND_CONSTANTS_shape:
  "length FULL_ROUND_CONSTANTS = R_F \<and> (\<forall>rc \<in> set FULL_ROUND_CONSTANTS. length rc = WIDTH)"
  by (simp add: FULL_ROUND_CONSTANTS_def R_F_def WIDTH_def)

lemma PARTIAL_ROUND_CONSTANTS_length: "length PARTIAL_ROUND_CONSTANTS = R_P"
  by (simp add: PARTIAL_ROUND_CONSTANTS_def R_P_def)

lemma external_round_length:
  "i < R_F \<Longrightarrow> length st = WIDTH \<Longrightarrow> length (external_round i st) = WIDTH"
  using FULL_ROUND_CONSTANTS_shape
  by (simp add: external_round_def external_mds_def external_sbox_def external_add_rc_def)

lemma internal_round_length: "length (internal_round i st) = length st"
  by (simp add: internal_round_def internal_mds_def internal_sbox_def internal_add_rc_def Let_def)

lemma fold_length_keep:
  "(\<And>i st. i \<in> set is \<Longrightarrow> length st = n \<Longrightarrow> length (f i st) = n) \<Longrightarrow> length st = n \<Longrightarrow>
   length (fold f is st) = n"
  by (induction "is" arbitrary: st) auto

lemma permute_length: "length st = WIDTH \<Longrightarrow> length (permute st) = WIDTH"
  unfolding permute_def Let_def
  by (intro fold_length_keep external_round_length)
    (auto simp: internal_round_length external_mds_def R_F_def)

lemma absorb_ok: "sponge_ok s \<Longrightarrow> absorb x s = Some t \<Longrightarrow> sponge_ok t \<and> squeezing t = squeezing s"
  by (auto simp: absorb_def sponge_ok_def Let_def permute_length poseidon_consts split: if_splits)

lemma squeeze_ok: "sponge_ok s \<Longrightarrow> sponge_ok (snd (squeeze s))"
  by (auto simp: squeeze_def sponge_ok_def Let_def permute_length poseidon_consts)

lemma absorb_batch_ok:
  "sponge_ok s \<Longrightarrow> \<not> squeezing s \<Longrightarrow> \<exists>t. absorb_batch xs s = Some t \<and> sponge_ok t \<and> \<not> squeezing t"
proof (induction xs arbitrary: s)
  case Nil
  then show ?case by simp
next
  case (Cons x xs)
  obtain t where t: "absorb x s = Some t"
    using Cons.prems(2) by (auto simp: absorb_def Let_def)
  show ?case
    using Cons.IH [of t] absorb_ok [OF Cons.prems(1) t] Cons.prems(2) t by simp
qed

text \<open>A sponge with a full rate behaves as the permuted sponge with an empty rate.\<close>

lemma absorb_full:
  "xs \<noteq> [] \<Longrightarrow> absorb_batch xs \<lparr>state = st, next_index = RATE, squeezing = False\<rparr> =
     absorb_batch xs \<lparr>state = permute st, next_index = 0, squeezing = False\<rparr>"
  by (cases xs) (simp_all add: absorb_def RATE_def)

lemma absorb_batch_blocks:
  "\<exists>i. absorb_batch xs \<lparr>state = st, next_index = 0, squeezing = False\<rparr> =
     Some \<lparr>state = absorb_blocks (rate_blocks xs) st, next_index = i, squeezing = False\<rparr>"
proof (induction xs arbitrary: st rule: rate_blocks.induct)
  case 1
  then show ?case by simp
next
  case (2 x)
  then show ?case by (simp add: absorb_def poseidon_consts)
next
  case (3 x y xs)
  let ?st = "add_from CAPACITY [x, y] st"
  have s: "absorb_batch (x # y # xs) \<lparr>state = st, next_index = 0, squeezing = False\<rparr> =
      absorb_batch xs \<lparr>state = ?st, next_index = RATE, squeezing = False\<rparr>"
    by (simp add: absorb_def poseidon_consts numeral_2_eq_2)
  show ?case
  proof (cases "xs = []")
    case True
    then show ?thesis using s by simp
  next
    case False
    then obtain b bs where b: "rate_blocks xs = b # bs"
      by (cases xs rule: rate_blocks.cases) auto
    show ?thesis
      using "3.IH" [of "permute ?st"] s absorb_full [OF False, of ?st] b by simp
  qed
qed

section \<open>Properties\<close>

text \<open>
  The two linear layers of the permutation, computed by adding the sum of the state,
  are the matrices \<open>circ(2, 1, 1)\<close> and \<open>[[2,1,1],[1,2,1],[1,1,3]]\<close> of the
  Poseidon2 specification, both matrices are invertible over the field, and the S-box raises
  to the power \<open>ALPHA\<close>.
\<close>

theorem poseidon_layers:
  "external_mds [a, b, c] = mat_vec M_E [a, b, c] \<and>
   mat_vec M_E_inv (external_mds [a, b, c]) = [a, b, c] \<and>
   internal_mds [a, b, c] = mat_vec M_I [a, b, c] \<and>
   mat_vec M_I_inv (internal_mds [a, b, c]) = [a, b, c] \<and>
   external_sbox [a, b, c] = [a ^ ALPHA, b ^ ALPHA, c ^ ALPHA] \<and>
   internal_sbox [a, b, c] = [a ^ ALPHA, b, c]"
  by (simp add: external_mds_matrix internal_mds_matrix M_E_inv_M_E M_I_inv_M_I
      external_sbox_def internal_sbox_def apply_sbox_power)

text \<open>
  C29. Hashing with a fresh sponge never panics and never indexes outside of the state, and
  the incremental sponge, which permutes lazily when the rate is full, returns the hash of
  the block-wise sponge construction for every input length.
\<close>

theorem sponge_hash_is_block_sponge:
  "\<exists>t. sponge_hash xs sponge_new = Some (block_sponge_hash xs, t) \<and> sponge_ok t \<and>
       compute_poseidon_hash xs = block_sponge_hash xs"
proof -
  have ok: "sponge_ok sponge_new" "\<not> squeezing sponge_new"
    by (simp_all add: sponge_ok_def sponge_new_def)
  obtain u where u: "absorb_batch xs sponge_new = Some u" "sponge_ok u" "\<not> squeezing u"
    using absorb_batch_ok [OF ok] by blast
  obtain i where i: "absorb_batch xs sponge_new =
      Some \<lparr>state = absorb_blocks (rate_blocks xs) (replicate WIDTH 0), next_index = i, squeezing = False\<rparr>"
    using absorb_batch_blocks [of xs "replicate WIDTH 0"] by (auto simp: sponge_new_def)
  have "fst (squeeze u) = block_sponge_hash xs"
    using u(1) i by (auto simp: squeeze_def block_sponge_hash_def Let_def)
  then show ?thesis
    using u squeeze_ok [OF u(2)]
    by (cases "squeeze u") (simp add: sponge_hash_def compute_poseidon_hash_def)
qed

end
