(* ===== verification/State_Wrapper.thy ===== *)
theory State_Wrapper
  imports Fixed_Point Poseidon2
begin

text \<open>
  State elements of the darkpool (\<open>darkpool-types/src\<close>): the Poseidon CSPRNG, the
  serialization of intents and balances to scalars and to secret shares, the state wrapper
  with its commitments, nullifiers and recovery identifiers, and the updates a settlement
  makes to an intent or a balance.

  A generic Rust function over \<open>T: SecretShareBaseType\<close> takes the serializers of
  \<open>T\<close> and of its share type as arguments. The locale \<open>secret_share\<close> states the
  laws these serializers obey; it is interpreted for every type the relayer shares.
\<close>

section \<open>The CSPRNG\<close>

record csprng =
  seed :: scalar
  index :: u64

definition csprng_new :: "scalar \<Rightarrow> csprng" where
  "csprng_new s = \<lparr>seed = s, index = 0\<rparr>"

definition csprng_next :: "csprng \<Rightarrow> scalar \<times> csprng" where
  "csprng_next c =
     (compute_poseidon_hash [seed c, scalar_of_u64 (index c)], c\<lparr>index := index c + 1\<rparr>)"

definition advance_by :: "u64 \<Rightarrow> csprng \<Rightarrow> csprng" where
  "advance_by n c = c\<lparr>index := index c + n\<rparr>"

definition get_ith :: "csprng \<Rightarrow> u64 \<Rightarrow> scalar" where
  "get_ith c i = compute_poseidon_hash [seed c, scalar_of_u64 i]"

text \<open>\<open>Iterator::take\<close> through the mutable reference.\<close>

fun csprng_take :: "nat \<Rightarrow> csprng \<Rightarrow> scalar list \<times> csprng" where
  "csprng_take 0 c = ([], c)"
| "csprng_take (Suc n) c =
     (let (x, c) = csprng_next c; (xs, c) = csprng_take n c in (x # xs, c))"

text \<open>The half open range \<open>a..b\<close> of \<open>u64\<close> values: empty unless \<open>a < b\<close>.\<close>

definition u64_range :: "u64 \<Rightarrow> u64 \<Rightarrow> u64 list" where
  "u64_range a b = map (\<lambda>k. a + of_nat k) [0..<unat b - unat a]"

definition stream_cipher_encrypt ::
    "('v \<Rightarrow> scalar list) \<Rightarrow> (scalar list \<Rightarrow> 's) \<Rightarrow> 'v \<Rightarrow> csprng \<Rightarrow> 's \<times> csprng" where
  "stream_cipher_encrypt to_scalars share_from_scalars val c =
     (let value_scalars = to_scalars val;
          (pads, c) = csprng_take (length value_scalars) c;
          ciphertexts = map2 (-) value_scalars pads
      in (share_from_scalars ciphertexts, c))"

definition peek_stream_cipher_encrypt ::
    "('v \<Rightarrow> scalar list) \<Rightarrow> (scalar list \<Rightarrow> 's) \<Rightarrow> 'v \<Rightarrow> csprng \<Rightarrow> 's" where
  "peek_stream_cipher_encrypt to_scalars share_from_scalars val c =
     (let value_scalars = to_scalars val;
          num_values = length value_scalars;
          start_index = index c;
          pads = map (get_ith c) (u64_range start_index (start_index + of_nat num_values));
          ciphertexts = map2 (-) value_scalars pads
      in share_from_scalars ciphertexts)"

section \<open>State elements and their shares\<close>

text \<open>
  The serializers of the derived types list the fields in order. Reading a value back from
  too few scalars panics; every caller passes as many as the type has.
\<close>

record intent =
  in_token :: address
  out_token :: address
  owner :: address
  min_price :: fixed_point
  amount_in :: amount

record intent_share =
  in_token_share :: scalar
  out_token_share :: scalar
  owner_share :: scalar
  min_price_share :: scalar
  amount_in_share :: scalar

definition intent_to_scalars :: "intent \<Rightarrow> scalar list" where
  "intent_to_scalars i =
     [address_to_scalar (in_token i), address_to_scalar (out_token i),
      address_to_scalar (owner i), repr (min_price i), scalar_of_u128 (amount_in i)]"

definition intent_from_scalars :: "scalar list \<Rightarrow> intent" where
  "intent_from_scalars xs =
     \<lparr>in_token = scalar_to_address (xs ! 0), out_token = scalar_to_address (xs ! 1),
      owner = scalar_to_address (xs ! 2), min_price = FixedPoint (xs ! 3),
      amount_in = scalar_to_u128 (xs ! 4)\<rparr>"

definition intent_share_to_scalars :: "intent_share \<Rightarrow> scalar list" where
  "intent_share_to_scalars s =
     [in_token_share s, out_token_share s, owner_share s, min_price_share s, amount_in_share s]"

definition intent_share_from_scalars :: "scalar list \<Rightarrow> intent_share" where
  "intent_share_from_scalars xs =
     \<lparr>in_token_share = xs ! 0, out_token_share = xs ! 1, owner_share = xs ! 2,
      min_price_share = xs ! 3, amount_in_share = xs ! 4\<rparr>"

record schnorr_public_key =
  point_x :: scalar
  point_y :: scalar

record darkpool_balance =
  mint :: address
  bal_owner :: address
  relayer_fee_recipient :: address
  authority :: schnorr_public_key
  relayer_fee_balance :: amount
  protocol_fee_balance :: amount
  bal_amount :: amount

record darkpool_balance_share =
  mint_share :: scalar
  bal_owner_share :: scalar
  relayer_fee_recipient_share :: scalar
  authority_x_share :: scalar
  authority_y_share :: scalar
  relayer_fee_balance_share :: scalar
  protocol_fee_balance_share :: scalar
  bal_amount_share :: scalar

definition balance_to_scalars :: "darkpool_balance \<Rightarrow> scalar list" where
  "balance_to_scalars b =
     [address_to_scalar (mint b), address_to_scalar (bal_owner b),
      address_to_scalar (relayer_fee_recipient b), point_x (authority b), point_y (authority b),
      scalar_of_u128 (relayer_fee_balance b), scalar_of_u128 (protocol_fee_balance b),
      scalar_of_u128 (bal_amount b)]"

definition balance_from_scalars :: "scalar list \<Rightarrow> darkpool_balance" where
  "balance_from_scalars xs =
     \<lparr>mint = scalar_to_address (xs ! 0), bal_owner = scalar_to_address (xs ! 1),
      relayer_fee_recipient = scalar_to_address (xs ! 2),
      authority = \<lparr>point_x = xs ! 3, point_y = xs ! 4\<rparr>,
      relayer_fee_balance = scalar_to_u128 (xs ! 5), protocol_fee_balance = scalar_to_u128 (xs ! 6),
      bal_amount = scalar_to_u128 (xs ! 7)\<rparr>"

definition balance_share_to_scalars :: "darkpool_balance_share \<Rightarrow> scalar list" where
  "balance_share_to_scalars s =
     [mint_share s, bal_owner_share s, relayer_fee_recipient_share s, authority_x_share s,
      authority_y_share s, relayer_fee_balance_share s, protocol_fee_balance_share s,
      bal_amount_share s]"

definition balance_share_from_scalars :: "scalar list \<Rightarrow> darkpool_balance_share" where
  "balance_share_from_scalars xs =
     \<lparr>mint_share = xs ! 0, bal_owner_share = xs ! 1, relayer_fee_recipient_share = xs ! 2,
      authority_x_share = xs ! 3, authority_y_share = xs ! 4, relayer_fee_balance_share = xs ! 5,
      protocol_fee_balance_share = xs ! 6, bal_amount_share = xs ! 7\<rparr>"

definition darkpool_balance_new ::
    "address \<Rightarrow> address \<Rightarrow> address \<Rightarrow> schnorr_public_key \<Rightarrow> darkpool_balance" where
  "darkpool_balance_new m own recipient auth =
     \<lparr>mint = m, bal_owner = own, relayer_fee_recipient = recipient, authority = auth,
      relayer_fee_balance = 0, protocol_fee_balance = 0, bal_amount = 0\<rparr>"

definition with_amount :: "amount \<Rightarrow> darkpool_balance \<Rightarrow> darkpool_balance" where
  "with_amount a b = b\<lparr>bal_amount := a\<rparr>"

text \<open>The part of a balance that a match updates.\<close>

record post_match_balance =
  pm_relayer_fee_balance :: amount
  pm_protocol_fee_balance :: amount
  pm_amount :: amount

record post_match_balance_share =
  pm_relayer_fee_balance_share :: scalar
  pm_protocol_fee_balance_share :: scalar
  pm_amount_share :: scalar

record pre_match_balance =
  pre_mint :: address
  pre_owner :: address
  pre_relayer_fee_recipient :: address
  pre_authority :: schnorr_public_key

definition post_match_of_balance :: "darkpool_balance \<Rightarrow> post_match_balance" where
  "post_match_of_balance b =
     \<lparr>pm_relayer_fee_balance = relayer_fee_balance b,
      pm_protocol_fee_balance = protocol_fee_balance b, pm_amount = bal_amount b\<rparr>"

definition pre_match_of_balance :: "darkpool_balance \<Rightarrow> pre_match_balance" where
  "pre_match_of_balance b =
     \<lparr>pre_mint = mint b, pre_owner = bal_owner b,
      pre_relayer_fee_recipient = relayer_fee_recipient b, pre_authority = authority b\<rparr>"

definition balance_of_pre_post :: "pre_match_balance \<Rightarrow> post_match_balance \<Rightarrow> darkpool_balance" where
  "balance_of_pre_post pre post =
     \<lparr>mint = pre_mint pre, bal_owner = pre_owner pre,
      relayer_fee_recipient = pre_relayer_fee_recipient pre, authority = pre_authority pre,
      relayer_fee_balance = pm_relayer_fee_balance post,
      protocol_fee_balance = pm_protocol_fee_balance post, bal_amount = pm_amount post\<rparr>"

definition post_match_to_scalars :: "post_match_balance \<Rightarrow> scalar list" where
  "post_match_to_scalars p =
     [scalar_of_u128 (pm_relayer_fee_balance p), scalar_of_u128 (pm_protocol_fee_balance p),
      scalar_of_u128 (pm_amount p)]"

definition post_match_from_scalars :: "scalar list \<Rightarrow> post_match_balance" where
  "post_match_from_scalars xs =
     \<lparr>pm_relayer_fee_balance = scalar_to_u128 (xs ! 0),
      pm_protocol_fee_balance = scalar_to_u128 (xs ! 1), pm_amount = scalar_to_u128 (xs ! 2)\<rparr>"

definition post_match_share_to_scalars :: "post_match_balance_share \<Rightarrow> scalar list" where
  "post_match_share_to_scalars s =
     [pm_relayer_fee_balance_share s, pm_protocol_fee_balance_share s, pm_amount_share s]"

definition post_match_share_from_scalars :: "scalar list \<Rightarrow> post_match_balance_share" where
  "post_match_share_from_scalars xs =
     \<lparr>pm_relayer_fee_balance_share = xs ! 0, pm_protocol_fee_balance_share = xs ! 1,
      pm_amount_share = xs ! 2\<rparr>"

definition post_match_share_of_balance_share :: "darkpool_balance_share \<Rightarrow> post_match_balance_share" where
  "post_match_share_of_balance_share s =
     \<lparr>pm_relayer_fee_balance_share = relayer_fee_balance_share s,
      pm_protocol_fee_balance_share = protocol_fee_balance_share s,
      pm_amount_share = bal_amount_share s\<rparr>"

definition share_update_from_post_match ::
    "post_match_balance_share \<Rightarrow> darkpool_balance_share \<Rightarrow> darkpool_balance_share" where
  "share_update_from_post_match post s =
     s\<lparr>bal_amount_share := pm_amount_share post,
       relayer_fee_balance_share := pm_relayer_fee_balance_share post,
       protocol_fee_balance_share := pm_protocol_fee_balance_share post\<rparr>"

text \<open>An amount is serialized as one scalar; so is its share.\<close>

definition amount_to_scalars :: "amount \<Rightarrow> scalar list" where
  "amount_to_scalars a = [scalar_of_u128 a]"

definition amount_from_scalars :: "scalar list \<Rightarrow> amount" where
  "amount_from_scalars xs = scalar_to_u128 (xs ! 0)"

definition scalar_to_scalars :: "scalar \<Rightarrow> scalar list" where
  "scalar_to_scalars x = [x]"

definition scalar_from_scalars :: "scalar list \<Rightarrow> scalar" where
  "scalar_from_scalars xs = xs ! 0"

definition csprng_to_scalars :: "csprng \<Rightarrow> scalar list" where
  "csprng_to_scalars c = [seed c, scalar_of_u64 (index c)]"

definition add_shares :: "(scalar list \<Rightarrow> 'v) \<Rightarrow> ('s \<Rightarrow> scalar list) \<Rightarrow> 's \<Rightarrow> 's \<Rightarrow> 'v" where
  "add_shares from_scalars share_to_scalars s rhs =
     from_scalars (map2 (+) (share_to_scalars s) (share_to_scalars rhs))"

section \<open>The state wrapper\<close>

record ('v, 's) state_wrapper =
  recovery_stream :: csprng
  share_stream :: csprng
  inner :: 'v
  public_share :: 's

definition state_wrapper_new ::
    "('v \<Rightarrow> scalar list) \<Rightarrow> (scalar list \<Rightarrow> 's) \<Rightarrow> 'v \<Rightarrow> scalar \<Rightarrow> scalar \<Rightarrow> ('v, 's) state_wrapper" where
  "state_wrapper_new to_scalars share_from_scalars val share_stream_seed recovery_stream_seed =
     (let rec_stream = csprng_new recovery_stream_seed;
          (share, sh_stream) =
            stream_cipher_encrypt to_scalars share_from_scalars val (csprng_new share_stream_seed)
      in \<lparr>recovery_stream = rec_stream, share_stream = sh_stream, inner = val, public_share = share\<rparr>)"

definition get_original_share_stream :: "('v, 's) state_wrapper \<Rightarrow> csprng" where
  "get_original_share_stream w = csprng_new (seed (share_stream w))"

definition get_original_recovery_stream :: "('v, 's) state_wrapper \<Rightarrow> csprng" where
  "get_original_recovery_stream w = csprng_new (seed (recovery_stream w))"

definition private_shares ::
    "('v \<Rightarrow> scalar list) \<Rightarrow> ('s \<Rightarrow> scalar list) \<Rightarrow> (scalar list \<Rightarrow> 's) \<Rightarrow> ('v, 's) state_wrapper \<Rightarrow> 's" where
  "private_shares to_scalars share_to_scalars share_from_scalars w =
     (let val_scalars = to_scalars (inner w);
          public_scalars = share_to_scalars (public_share w)
      in share_from_scalars (map2 (-) val_scalars public_scalars))"

definition compute_private_commitment ::
    "('v \<Rightarrow> scalar list) \<Rightarrow> ('s \<Rightarrow> scalar list) \<Rightarrow> (scalar list \<Rightarrow> 's) \<Rightarrow> ('v, 's) state_wrapper \<Rightarrow> scalar" where
  "compute_private_commitment to_scalars share_to_scalars share_from_scalars w =
     compute_poseidon_hash
       (share_to_scalars (private_shares to_scalars share_to_scalars share_from_scalars w) @
        csprng_to_scalars (recovery_stream w) @ csprng_to_scalars (share_stream w))"

definition compute_commitment_from_private ::
    "('s \<Rightarrow> scalar list) \<Rightarrow> scalar \<Rightarrow> ('v, 's) state_wrapper \<Rightarrow> scalar" where
  "compute_commitment_from_private share_to_scalars private_commitment w =
     (let public_scalars = share_to_scalars (public_share w);
          public_comm = foldl (\<lambda>comm share. compute_poseidon_hash [comm, share])
            (public_scalars ! 0) (drop 1 public_scalars)
      in compute_poseidon_hash [private_commitment, public_comm])"

definition compute_commitment ::
    "('v \<Rightarrow> scalar list) \<Rightarrow> ('s \<Rightarrow> scalar list) \<Rightarrow> (scalar list \<Rightarrow> 's) \<Rightarrow> ('v, 's) state_wrapper \<Rightarrow> scalar" where
  "compute_commitment to_scalars share_to_scalars share_from_scalars w =
     compute_commitment_from_private share_to_scalars
       (compute_private_commitment to_scalars share_to_scalars share_from_scalars w) w"

text \<open>
  The assertion on \<open>num_shares\<close> and the slice \<open>[1..num_shares]\<close> panic outside of
  \<open>1 <= num_shares <= NUM_SCALARS\<close>.
\<close>

definition compute_partial_public_commitment ::
    "('s \<Rightarrow> scalar list) \<Rightarrow> nat \<Rightarrow> ('v, 's) state_wrapper \<Rightarrow> scalar option" where
  "compute_partial_public_commitment share_to_scalars num_shares w =
     (let public_scalars = share_to_scalars (public_share w) in
      if num_shares < 1 \<or> length public_scalars < num_shares then None
      else Some (foldl (\<lambda>comm share. compute_poseidon_hash [comm, share])
             (public_scalars ! 0) (drop 1 (take num_shares public_scalars))))"

record partial_commitment =
  private_commitment :: scalar
  partial_public_commitment :: scalar

definition compute_partial_commitment ::
    "('v \<Rightarrow> scalar list) \<Rightarrow> ('s \<Rightarrow> scalar list) \<Rightarrow> (scalar list \<Rightarrow> 's) \<Rightarrow> nat \<Rightarrow>
     ('v, 's) state_wrapper \<Rightarrow> partial_commitment option" where
  "compute_partial_commitment to_scalars share_to_scalars share_from_scalars num_shares w =
     map_option
       (\<lambda>comm. \<lparr>private_commitment =
                  compute_private_commitment to_scalars share_to_scalars share_from_scalars w,
                partial_public_commitment = comm\<rparr>)
       (compute_partial_public_commitment share_to_scalars num_shares w)"

definition compute_nullifier :: "('v, 's) state_wrapper \<Rightarrow> scalar" where
  "compute_nullifier w =
     (let ix = index (recovery_stream w) - 1;
          recovery_id = get_ith (recovery_stream w) ix
      in compute_poseidon_hash [recovery_id, seed (recovery_stream w)])"

definition advance_recovery_stream :: "('v, 's) state_wrapper \<Rightarrow> ('v, 's) state_wrapper" where
  "advance_recovery_stream w =
     w\<lparr>recovery_stream := (recovery_stream w)\<lparr>index := index (recovery_stream w) + 1\<rparr>\<rparr>"

definition compute_recovery_id :: "('v, 's) state_wrapper \<Rightarrow> scalar \<times> ('v, 's) state_wrapper" where
  "compute_recovery_id w =
     (let rid = fst (csprng_next (recovery_stream w))
      in (rid, w\<lparr>recovery_stream := (recovery_stream w)\<lparr>index := index (recovery_stream w) + 1\<rparr>\<rparr>))"

definition peek_recovery_id :: "('v, 's) state_wrapper \<Rightarrow> scalar" where
  "peek_recovery_id w = get_ith (recovery_stream w) (index (recovery_stream w))"

definition wrapper_encrypt ::
    "('x \<Rightarrow> scalar list) \<Rightarrow> (scalar list \<Rightarrow> 'y) \<Rightarrow> 'x \<Rightarrow> ('v, 's) state_wrapper \<Rightarrow>
     'y \<times> ('v, 's) state_wrapper" where
  "wrapper_encrypt to_scalars share_from_scalars val w =
     (let (share, c) = stream_cipher_encrypt to_scalars share_from_scalars val (share_stream w)
      in (share, w\<lparr>share_stream := c\<rparr>))"

definition wrapper_peek_encrypt ::
    "('x \<Rightarrow> scalar list) \<Rightarrow> (scalar list \<Rightarrow> 'y) \<Rightarrow> 'x \<Rightarrow> ('v, 's) state_wrapper \<Rightarrow> 'y" where
  "wrapper_peek_encrypt to_scalars share_from_scalars val w =
     peek_stream_cipher_encrypt to_scalars share_from_scalars val (share_stream w)"

type_synonym state_intent = "(intent, intent_share) state_wrapper"
type_synonym state_balance = "(darkpool_balance, darkpool_balance_share) state_wrapper"

section \<open>Laws of the streams\<close>

lemma csprng_next_eq:
  "csprng_next c = (get_ith c (index c), c\<lparr>index := index c + 1\<rparr>)"
  by (simp add: csprng_next_def get_ith_def)

lemma get_ith_index_update [simp]: "get_ith (c\<lparr>index := i\<rparr>) = get_ith c"
  by (simp add: get_ith_def fun_eq_iff)

lemma csprng_take_eq:
  "csprng_take n c =
     (map (\<lambda>k. get_ith c (index c + of_nat k)) [0..<n], c\<lparr>index := index c + of_nat n\<rparr>)"
proof (induction n arbitrary: c)
  case 0
  then show ?case by simp
next
  case (Suc n)
  have "map (\<lambda>k. get_ith c (index c + of_nat k)) [0..<Suc n] =
      get_ith c (index c) # map (\<lambda>k. get_ith c (index c + 1 + of_nat k)) [0..<n]"
    by (simp only: upt_conv_Cons map_Suc_upt [symmetric] map_map) (simp add: comp_def add.assoc)
  then show ?case
    by (simp add: csprng_next_eq Suc.IH add.assoc del: upt_Suc)
qed

lemma u64_range_no_wrap:
  assumes "unat a + n < 2 ^ 64"
  shows "u64_range a (a + of_nat n) = map (\<lambda>k. a + of_nat k) [0..<n]"
proof -
  have "unat (of_nat n :: u64) = n"
    using assms by (simp add: unat_of_nat)
  then have "unat (a + of_nat n) = unat a + n"
    using assms by (simp add: unat_word_ariths)
  then show ?thesis by (simp add: u64_range_def)
qed

lemma sub_then_add: "length xs = length ys \<Longrightarrow> map2 (+) (map2 (-) xs ys) ys = xs" for xs :: "scalar list"
  by (induction xs ys rule: list_induct2) auto

lemma sub_sub: "length xs = length ys \<Longrightarrow> map2 (-) xs (map2 (-) xs ys) = ys" for xs :: "scalar list"
  by (induction xs ys rule: list_induct2) auto

section \<open>The secret sharing interface\<close>

text \<open>
  A wrapper opens to a value when the value is recovered from its public share and the pads
  at the start of its share stream, and from its public and private shares, and no further
  pad has been used.
\<close>

definition opens_to ::
    "('v \<Rightarrow> scalar list) \<Rightarrow> (scalar list \<Rightarrow> 'v) \<Rightarrow> ('s \<Rightarrow> scalar list) \<Rightarrow> (scalar list \<Rightarrow> 's) \<Rightarrow> nat \<Rightarrow>
     ('v, 's) state_wrapper \<Rightarrow> 'v \<Rightarrow> bool" where
  "opens_to to_scalars from_scalars share_to_scalars share_from_scalars n w v \<longleftrightarrow>
     from_scalars (map2 (+) (share_to_scalars (public_share w))
       (fst (csprng_take n (get_original_share_stream w)))) = v \<and>
     add_shares from_scalars share_to_scalars
       (private_shares to_scalars share_to_scalars share_from_scalars w) (public_share w) = v \<and>
     share_stream w = advance_by (of_nat n) (get_original_share_stream w)"

locale secret_share =
  fixes to_scalars :: "'v \<Rightarrow> scalar list" and from_scalars :: "scalar list \<Rightarrow> 'v"
    and share_to_scalars :: "'s \<Rightarrow> scalar list" and share_from_scalars :: "scalar list \<Rightarrow> 's"
    and num_scalars :: nat
  assumes length_to_scalars: "length (to_scalars v) = num_scalars"
    and length_share_to_scalars: "length (share_to_scalars s) = num_scalars"
    and from_to_scalars: "from_scalars (to_scalars v) = v"
    and share_from_to_scalars: "share_from_scalars (share_to_scalars s) = s"
    and share_to_from_scalars: "length xs = num_scalars \<Longrightarrow> share_to_scalars (share_from_scalars xs) = xs"
begin

lemma private_share_scalars:
  "share_to_scalars (private_shares to_scalars share_to_scalars share_from_scalars w) =
     map2 (-) (to_scalars (inner w)) (share_to_scalars (public_share w))"
  by (simp add: private_shares_def share_to_from_scalars length_to_scalars length_share_to_scalars)

lemma private_shares_cong:
  assumes "map2 (-) (to_scalars (inner w)) (share_to_scalars (public_share w)) =
           map2 (-) (to_scalars (inner w')) (share_to_scalars (public_share w'))"
  shows "private_shares to_scalars share_to_scalars share_from_scalars w =
         private_shares to_scalars share_to_scalars share_from_scalars w'"
  using assms by (simp add: private_shares_def)

lemma shares_recover:
  "add_shares from_scalars share_to_scalars
     (private_shares to_scalars share_to_scalars share_from_scalars w) (public_share w) = inner w"
  by (simp add: add_shares_def private_share_scalars sub_then_add length_to_scalars
      length_share_to_scalars from_to_scalars)

lemma encrypt_scalars:
  "share_to_scalars (fst (stream_cipher_encrypt to_scalars share_from_scalars v c)) =
     map2 (-) (to_scalars v) (map (\<lambda>k. get_ith c (index c + of_nat k)) [0..<num_scalars])"
  by (simp add: stream_cipher_encrypt_def csprng_take_eq share_to_from_scalars length_to_scalars)

lemma encrypt_stream:
  "snd (stream_cipher_encrypt to_scalars share_from_scalars v c) =
     c\<lparr>index := index c + of_nat num_scalars\<rparr>"
  by (simp add: stream_cipher_encrypt_def csprng_take_eq length_to_scalars)

lemma decrypt_encrypt:
  "from_scalars (map2 (+)
     (share_to_scalars (fst (stream_cipher_encrypt to_scalars share_from_scalars v c)))
     (fst (csprng_take num_scalars c))) = v"
  by (simp add: encrypt_scalars csprng_take_eq sub_then_add length_to_scalars from_to_scalars)

lemma peek_encrypt:
  assumes "unat (index c) + num_scalars < 2 ^ 64"
  shows "peek_stream_cipher_encrypt to_scalars share_from_scalars v c =
         fst (stream_cipher_encrypt to_scalars share_from_scalars v c)"
  using u64_range_no_wrap [OF assms]
  by (simp add: peek_stream_cipher_encrypt_def stream_cipher_encrypt_def csprng_take_eq
      length_to_scalars comp_def)

lemma new_wrapper_private_shares:
  "private_shares to_scalars share_to_scalars share_from_scalars
     (state_wrapper_new to_scalars share_from_scalars v ss rs) =
   share_from_scalars (fst (csprng_take num_scalars (csprng_new ss)))"
  by (simp add: private_shares_def state_wrapper_new_def split_beta encrypt_scalars csprng_take_eq
      sub_sub length_to_scalars)

lemma new_wrapper_streams:
  "share_stream (state_wrapper_new to_scalars share_from_scalars v ss rs) =
     \<lparr>seed = ss, index = of_nat num_scalars\<rparr>"
  "recovery_stream (state_wrapper_new to_scalars share_from_scalars v ss rs) = csprng_new rs"
  "inner (state_wrapper_new to_scalars share_from_scalars v ss rs) = v"
  by (simp_all add: state_wrapper_new_def split_beta encrypt_stream csprng_new_def)

lemma commitment_from_partial:
  assumes "1 \<le> n" and "n \<le> num_scalars"
  shows "\<exists>pc. compute_partial_commitment to_scalars share_to_scalars share_from_scalars n w = Some pc \<and>
     compute_commitment to_scalars share_to_scalars share_from_scalars w =
     compute_poseidon_hash [private_commitment pc,
       foldl (\<lambda>comm share. compute_poseidon_hash [comm, share]) (partial_public_commitment pc)
         (drop n (share_to_scalars (public_share w)))]"
proof -
  let ?p = "share_to_scalars (public_share w)"
  have "drop 1 ?p = drop 1 (take n ?p) @ drop n ?p"
    using assms by (metis append_take_drop_id drop_append drop_drop le_add_diff_inverse
        length_share_to_scalars length_take min.absorb2 diff_is_0_eq drop_0)
  then show ?thesis
    using assms
    by (simp add: compute_partial_commitment_def compute_partial_public_commitment_def
        compute_commitment_def compute_commitment_from_private_def length_share_to_scalars Let_def)
qed

end

context secret_share
begin

lemma new_wrapper_opens:
  "opens_to to_scalars from_scalars share_to_scalars share_from_scalars num_scalars
     (state_wrapper_new to_scalars share_from_scalars v ss rs) v"
proof -
  have "public_share (state_wrapper_new to_scalars share_from_scalars v ss rs) =
      fst (stream_cipher_encrypt to_scalars share_from_scalars v (csprng_new ss))"
    by (simp add: state_wrapper_new_def split_beta)
  then show ?thesis
    using decrypt_encrypt [of v "csprng_new ss"]
      shares_recover [of "state_wrapper_new to_scalars share_from_scalars v ss rs"]
    by (simp add: opens_to_def get_original_share_stream_def new_wrapper_streams advance_by_def
        csprng_new_def)
qed

end

text \<open>The types the relayer shares are instances of the interface.\<close>

interpretation intent_ss: secret_share intent_to_scalars intent_from_scalars
  intent_share_to_scalars intent_share_from_scalars 5
  by unfold_locales
    (auto simp: intent_to_scalars_def intent_from_scalars_def intent_share_to_scalars_def
      intent_share_from_scalars_def scalar_address_roundtrip numeral_eq_Suc length_Suc_conv)

interpretation balance_ss: secret_share balance_to_scalars balance_from_scalars
  balance_share_to_scalars balance_share_from_scalars 8
  by unfold_locales
    (auto simp: balance_to_scalars_def balance_from_scalars_def balance_share_to_scalars_def
      balance_share_from_scalars_def scalar_address_roundtrip numeral_eq_Suc length_Suc_conv)

interpretation post_match_ss: secret_share post_match_to_scalars post_match_from_scalars
  post_match_share_to_scalars post_match_share_from_scalars 3
  by unfold_locales
    (auto simp: post_match_to_scalars_def post_match_from_scalars_def post_match_share_to_scalars_def
      post_match_share_from_scalars_def numeral_eq_Suc length_Suc_conv)

interpretation amount_ss: secret_share amount_to_scalars amount_from_scalars
  scalar_to_scalars scalar_from_scalars 1
  by unfold_locales
    (auto simp: amount_to_scalars_def amount_from_scalars_def scalar_to_scalars_def
      scalar_from_scalars_def length_Suc_conv)

section \<open>Properties\<close>

text \<open>
  C30. A state wrapper built for an intent or a balance hides it behind one-time pads that
  its owner can recompute: adding the pads of the original share stream to the public share
  gives back the element, as does adding the private and the public shares, and the share
  stream has advanced by exactly the number of pads used.
\<close>

theorem new_wrapper_decrypts:
  "opens_to intent_to_scalars intent_from_scalars intent_share_to_scalars intent_share_from_scalars 5
     (state_wrapper_new intent_to_scalars intent_share_from_scalars i ss rs) i \<and>
   opens_to balance_to_scalars balance_from_scalars balance_share_to_scalars balance_share_from_scalars 8
     (state_wrapper_new balance_to_scalars balance_share_from_scalars b ss rs) b"
  using intent_ss.new_wrapper_opens [of i ss rs] balance_ss.new_wrapper_opens [of b ss rs] by simp

text \<open>
  Encrypting the fields of an intent, of a balance or of its post-match part without
  mutating the share stream gives the same shares as the mutating encryption, as long as the
  stream's index does not reach the end of the 64 bit range.
\<close>

theorem peek_matches_encrypt:
  assumes "unat (index (share_stream w)) + 8 < 2 ^ 64"
  shows "wrapper_peek_encrypt intent_to_scalars intent_share_from_scalars i w =
           fst (wrapper_encrypt intent_to_scalars intent_share_from_scalars i w) \<and>
         wrapper_peek_encrypt balance_to_scalars balance_share_from_scalars b w =
           fst (wrapper_encrypt balance_to_scalars balance_share_from_scalars b w) \<and>
         wrapper_peek_encrypt post_match_to_scalars post_match_share_from_scalars p w =
           fst (wrapper_encrypt post_match_to_scalars post_match_share_from_scalars p w)"
  using assms intent_ss.peek_encrypt [of "share_stream w" i]
    balance_ss.peek_encrypt [of "share_stream w" b] post_match_ss.peek_encrypt [of "share_stream w" p]
  by (simp add: wrapper_peek_encrypt_def wrapper_encrypt_def split_beta)

theorem peek_matches_encrypt_witness:
  "let w = \<lparr>recovery_stream = csprng_new 1, share_stream = \<lparr>seed = 2, index = 7\<rparr>,
            inner = (3 :: u128), public_share = (4 :: scalar)\<rparr>;
       p = \<lparr>pm_relayer_fee_balance = 1, pm_protocol_fee_balance = 2, pm_amount = 3\<rparr>
   in unat (index (share_stream w)) + 8 < 2 ^ 64 \<and>
      wrapper_peek_encrypt post_match_to_scalars post_match_share_from_scalars p w =
        fst (wrapper_encrypt post_match_to_scalars post_match_share_from_scalars p w)"
proof -
  let ?w = "\<lparr>recovery_stream = csprng_new 1, share_stream = \<lparr>seed = 2, index = 7\<rparr>,
            inner = (3 :: u128), public_share = (4 :: scalar)\<rparr>"
  have h: "unat (index (share_stream ?w)) + 8 < 2 ^ 64" by simp
  show ?thesis
    unfolding Let_def
    using h peek_matches_encrypt [OF h] by blast
qed

text \<open>
  The nullifier of an element is the hash of the recovery identifier its last version
  was given and of the seed of its recovery stream: after \<open>compute_recovery_id\<close> returns
  an identifier, which is the one \<open>peek_recovery_id\<close> announced, the nullifier commits to
  exactly that identifier, even when the stream's index wraps around.
\<close>

theorem nullifier_of_recovery_id:
  "compute_recovery_id w = (rid, w') \<longleftrightarrow>
     rid = peek_recovery_id w \<and> w' = advance_recovery_stream w \<and>
     compute_nullifier w' = compute_poseidon_hash [rid, seed (recovery_stream w)] \<and>
     inner w' = inner w \<and> public_share w' = public_share w \<and> share_stream w' = share_stream w"
  by (auto simp: compute_recovery_id_def csprng_next_eq peek_recovery_id_def
      advance_recovery_stream_def compute_nullifier_def)

text \<open>
  The commitment to a balance can be completed from any of its partial commitments by
  hashing in the remaining public shares, and a partial commitment exists exactly for
  prefixes of one to eight shares: otherwise the code panics.
\<close>

theorem partial_commitment_completes:
  "case compute_partial_commitment balance_to_scalars balance_share_to_scalars
          balance_share_from_scalars n w of
     None \<Rightarrow> n = 0 \<or> 8 < n
   | Some pc \<Rightarrow> 1 \<le> n \<and> n \<le> 8 \<and>
       compute_commitment balance_to_scalars balance_share_to_scalars balance_share_from_scalars w =
       compute_poseidon_hash [private_commitment pc,
         foldl (\<lambda>comm share. compute_poseidon_hash [comm, share]) (partial_public_commitment pc)
           (drop n (balance_share_to_scalars (public_share w)))]"
proof (cases "1 \<le> n \<and> n \<le> 8")
  case True
  then show ?thesis
    using balance_ss.commitment_from_partial [of n w] by auto
next
  case False
  then have "compute_partial_commitment balance_to_scalars balance_share_to_scalars
      balance_share_from_scalars n w = None"
    by (auto simp: compute_partial_commitment_def compute_partial_public_commitment_def
        balance_ss.length_share_to_scalars)
  with False show ?thesis by auto
qed

end
