(* ===== verification/Settlement.thy ===== *)
theory Settlement
  imports State_Wrapper
begin

text \<open>
  What a settlement does to state elements (\<open>darkpool-types/src\<close>): settlement
  obligations, fees, bounded match results, notes, and the updates of
  \<open>StateWrapper<Intent>\<close> and \<open>StateWrapper<DarkpoolBalance>\<close>. An update changes
  the element and its public share together; the lemmas show that the private shares, and
  with them the element's commitment to its hidden half, do not move.

  Random blinders are an argument of the operations that sample them. Unsigned arithmetic
  wraps, as in the release build.
\<close>

section \<open>Obligations and fees\<close>

record settlement_obligation =
  input_token :: address
  output_token :: address
  ob_amount_in :: amount
  ob_amount_out :: amount

record fee_take =
  relayer_fee :: amount
  protocol_fee :: amount

definition fee_total :: "fee_take \<Rightarrow> amount" where
  "fee_total f = relayer_fee f + protocol_fee f"

record fee_rates =
  relayer_fee_rate :: fixed_point
  protocol_fee_rate :: fixed_point

definition compute_fee_take :: "fee_rates \<Rightarrow> amount \<Rightarrow> fee_take" where
  "compute_fee_take r receive_amount =
     \<lparr>relayer_fee = scalar_to_u128 (floor_mul_int (relayer_fee_rate r) receive_amount),
      protocol_fee = scalar_to_u128 (floor_mul_int (protocol_fee_rate r) receive_amount)\<rparr>"

record fee_note =
  note_mint :: address
  note_amount :: amount
  note_receiver :: address
  note_blinder :: scalar

definition note_to_scalars :: "fee_note \<Rightarrow> scalar list" where
  "note_to_scalars n =
     [address_to_scalar (note_mint n), scalar_of_u128 (note_amount n),
      address_to_scalar (note_receiver n), note_blinder n]"

definition note_commitment :: "fee_note \<Rightarrow> scalar" where
  "note_commitment n = compute_poseidon_hash (note_to_scalars n)"

definition note_nullifier :: "fee_note \<Rightarrow> scalar" where
  "note_nullifier n = compute_poseidon_hash [note_commitment n, note_blinder n]"

definition plaintext_elements :: "fee_note \<Rightarrow> scalar list" where
  "plaintext_elements n =
     [address_to_scalar (note_mint n), scalar_of_u128 (note_amount n), note_blinder n]"

section \<open>Bounded match results\<close>

record bounded_match_result =
  internal_party_input_token :: address
  internal_party_output_token :: address
  min_internal_party_amount_in :: amount
  max_internal_party_amount_in :: amount
  bounded_price :: fixed_point
  block_deadline :: u64

definition to_internal_obligation :: "bounded_match_result \<Rightarrow> amount \<Rightarrow> settlement_obligation" where
  "to_internal_obligation m a =
     \<lparr>input_token = internal_party_input_token m, output_token = internal_party_output_token m,
      ob_amount_in = a, ob_amount_out = scalar_to_u128 (floor_mul_int (bounded_price m) a)\<rparr>"

text \<open>The \<open>expect\<close> on the inverse panics for a zero price.\<close>

definition to_external_obligation ::
    "bounded_match_result \<Rightarrow> amount \<Rightarrow> settlement_obligation option" where
  "to_external_obligation m a =
     (case fp_inverse (bounded_price m) of
        None \<Rightarrow> None
      | Some inverse_price \<Rightarrow>
          Some \<lparr>input_token = internal_party_output_token m,
                output_token = internal_party_input_token m,
                ob_amount_in = a, ob_amount_out = scalar_to_u128 (floor_mul_int inverse_price a)\<rparr>)"

section \<open>Intents\<close>

abbreviation intent_private_shares :: "state_intent \<Rightarrow> intent_share" where
  "intent_private_shares \<equiv>
     private_shares intent_to_scalars intent_share_to_scalars intent_share_from_scalars"

abbreviation balance_private_shares :: "state_balance \<Rightarrow> darkpool_balance_share" where
  "balance_private_shares \<equiv>
     private_shares balance_to_scalars balance_share_to_scalars balance_share_from_scalars"

definition reencrypt_amount_in :: "state_intent \<Rightarrow> scalar \<times> state_intent" where
  "reencrypt_amount_in w =
     (let (new_share, w) =
            wrapper_encrypt amount_to_scalars scalar_from_scalars (amount_in (inner w)) w
      in (new_share, w\<lparr>public_share := (public_share w)\<lparr>amount_in_share := new_share\<rparr>\<rparr>))"

definition intent_apply_settlement_obligation ::
    "settlement_obligation \<Rightarrow> state_intent \<Rightarrow> state_intent" where
  "intent_apply_settlement_obligation obligation w =
     w\<lparr>inner := (inner w)\<lparr>amount_in := amount_in (inner w) - ob_amount_in obligation\<rparr>,
       public_share := (public_share w)
         \<lparr>amount_in_share :=
            amount_in_share (public_share w) - scalar_of_u128 (ob_amount_in obligation)\<rparr>\<rparr>"

section \<open>Balances\<close>

definition apply_obligation_in_balance :: "settlement_obligation \<Rightarrow> state_balance \<Rightarrow> state_balance" where
  "apply_obligation_in_balance obligation w =
     w\<lparr>inner := (inner w)\<lparr>bal_amount := bal_amount (inner w) - ob_amount_in obligation\<rparr>,
       public_share := (public_share w)
         \<lparr>bal_amount_share :=
            bal_amount_share (public_share w) - scalar_of_u128 (ob_amount_in obligation)\<rparr>\<rparr>"

definition apply_obligation_out_balance_no_fees ::
    "settlement_obligation \<Rightarrow> fee_take \<Rightarrow> state_balance \<Rightarrow> state_balance" where
  "apply_obligation_out_balance_no_fees obligation fees w =
     (let receive_amt = ob_amount_out obligation - fee_total fees
      in w\<lparr>inner := (inner w)\<lparr>bal_amount := bal_amount (inner w) + receive_amt\<rparr>,
           public_share := (public_share w)
             \<lparr>bal_amount_share :=
                bal_amount_share (public_share w) + scalar_of_u128 receive_amt\<rparr>\<rparr>)"

definition add_fees :: "fee_take \<Rightarrow> state_balance \<Rightarrow> state_balance" where
  "add_fees fees w =
     w\<lparr>inner := (inner w)
         \<lparr>relayer_fee_balance := relayer_fee_balance (inner w) + relayer_fee fees,
          protocol_fee_balance := protocol_fee_balance (inner w) + protocol_fee fees\<rparr>,
       public_share := (public_share w)
         \<lparr>relayer_fee_balance_share :=
            relayer_fee_balance_share (public_share w) + scalar_of_u128 (relayer_fee fees),
          protocol_fee_balance_share :=
            protocol_fee_balance_share (public_share w) + scalar_of_u128 (protocol_fee fees)\<rparr>\<rparr>"

definition apply_obligation_out_balance ::
    "settlement_obligation \<Rightarrow> fee_take \<Rightarrow> state_balance \<Rightarrow> state_balance" where
  "apply_obligation_out_balance obligation fees w =
     add_fees fees (apply_obligation_out_balance_no_fees obligation fees w)"

definition post_match_share :: "state_balance \<Rightarrow> post_match_balance_share" where
  "post_match_share w = post_match_share_of_balance_share (public_share w)"

definition update_from_post_match :: "post_match_balance_share \<Rightarrow> state_balance \<Rightarrow> state_balance" where
  "update_from_post_match post w =
     w\<lparr>public_share := share_update_from_post_match post (public_share w)\<rparr>"

definition reencrypt_amount_share :: "state_balance \<Rightarrow> scalar \<times> state_balance" where
  "reencrypt_amount_share w =
     (let (new_share, w) =
            wrapper_encrypt amount_to_scalars scalar_from_scalars (bal_amount (inner w)) w
      in (new_share, w\<lparr>public_share := (public_share w)\<lparr>bal_amount_share := new_share\<rparr>\<rparr>))"

definition reencrypt_post_match_share :: "state_balance \<Rightarrow> post_match_balance_share \<times> state_balance" where
  "reencrypt_post_match_share w =
     (let (shares, w) =
            wrapper_encrypt post_match_to_scalars post_match_share_from_scalars
              (post_match_of_balance (inner w)) w
      in (shares, update_from_post_match shares w))"

definition pay_relayer_fee :: "scalar \<Rightarrow> state_balance \<Rightarrow> fee_note \<times> state_balance" where
  "pay_relayer_fee blinder w =
     (let nt = \<lparr>note_mint = mint (inner w), note_amount = relayer_fee_balance (inner w),
                note_receiver = relayer_fee_recipient (inner w), note_blinder = blinder\<rparr>
      in (nt, w\<lparr>inner := (inner w)\<lparr>relayer_fee_balance := 0\<rparr>,
                public_share := (public_share w)
                  \<lparr>relayer_fee_balance_share :=
                     relayer_fee_balance_share (public_share w) - scalar_of_u128 (note_amount nt)\<rparr>\<rparr>))"

definition reencrypt_relayer_fee :: "state_balance \<Rightarrow> scalar \<times> state_balance" where
  "reencrypt_relayer_fee w =
     (let (new_share, w) =
            wrapper_encrypt amount_to_scalars scalar_from_scalars (relayer_fee_balance (inner w)) w
      in (new_share, w\<lparr>public_share := (public_share w)\<lparr>relayer_fee_balance_share := new_share\<rparr>\<rparr>))"

definition pay_protocol_fee :: "address \<Rightarrow> scalar \<Rightarrow> state_balance \<Rightarrow> fee_note \<times> state_balance" where
  "pay_protocol_fee protocol_fee_receiver blinder w =
     (let nt = \<lparr>note_mint = mint (inner w), note_amount = protocol_fee_balance (inner w),
                note_receiver = protocol_fee_receiver, note_blinder = blinder\<rparr>
      in (nt, w\<lparr>inner := (inner w)\<lparr>protocol_fee_balance := 0\<rparr>,
                public_share := (public_share w)
                  \<lparr>protocol_fee_balance_share :=
                     protocol_fee_balance_share (public_share w) - scalar_of_u128 (note_amount nt)\<rparr>\<rparr>))"

definition reencrypt_protocol_fee :: "state_balance \<Rightarrow> scalar \<times> state_balance" where
  "reencrypt_protocol_fee w =
     (let (new_share, w) =
            wrapper_encrypt amount_to_scalars scalar_from_scalars (protocol_fee_balance (inner w)) w
      in (new_share, w\<lparr>public_share := (public_share w)\<lparr>protocol_fee_balance_share := new_share\<rparr>\<rparr>))"

section \<open>Private shares\<close>

lemma scalar_of_u128_add:
  assumes "unat x + unat y < 2 ^ 128"
  shows "scalar_of_u128 (x + y) = scalar_of_u128 x + scalar_of_u128 y"
  using assms by (simp add: scalar_of_u128_def biguint_to_scalar_add unat_word_ariths)

lemma scalar_of_u128_0 [simp]: "scalar_of_u128 0 = 0"
  by (simp add: scalar_eq_iff)

lemmas balance_share_defs = balance_to_scalars_def balance_share_to_scalars_def
lemmas intent_share_defs = intent_to_scalars_def intent_share_to_scalars_def

lemma intent_settle_private:
  assumes "ob_amount_in ob \<le> amount_in (inner w)"
  shows "intent_private_shares (intent_apply_settlement_obligation ob w) = intent_private_shares w"
  by (rule intent_ss.private_shares_cong)
    (simp add: intent_apply_settlement_obligation_def intent_share_defs scalar_of_u128_diff [OF assms])

lemma in_balance_private:
  assumes "ob_amount_in ob \<le> bal_amount (inner w)"
  shows "balance_private_shares (apply_obligation_in_balance ob w) = balance_private_shares w"
  by (rule balance_ss.private_shares_cong)
    (simp add: apply_obligation_in_balance_def balance_share_defs scalar_of_u128_diff [OF assms])

lemma out_balance_private:
  assumes "unat (bal_amount (inner w)) + unat (ob_amount_out ob - fee_total fees) < 2 ^ 128"
  shows "balance_private_shares (apply_obligation_out_balance_no_fees ob fees w) = balance_private_shares w"
  by (rule balance_ss.private_shares_cong)
    (simp add: apply_obligation_out_balance_no_fees_def balance_share_defs Let_def
      scalar_of_u128_add [OF assms])

lemma add_fees_private:
  assumes "unat (relayer_fee_balance (inner w)) + unat (relayer_fee fees) < 2 ^ 128"
    and "unat (protocol_fee_balance (inner w)) + unat (protocol_fee fees) < 2 ^ 128"
  shows "balance_private_shares (add_fees fees w) = balance_private_shares w"
  by (rule balance_ss.private_shares_cong)
    (simp add: add_fees_def balance_share_defs scalar_of_u128_add [OF assms(1)]
      scalar_of_u128_add [OF assms(2)])

lemma unat_plus_no_wrap: "unat x + unat y < 2 ^ 128 \<Longrightarrow> unat (x + y) = unat x + unat y" for x y :: u128
  by (simp add: unat_word_ariths)

lemma rate_no_wrap:
  assumes "scalar_to_biguint (repr r) \<le> 2 ^ 63" and "validate_amount_bitlength a"
  shows "unat (scalar_to_u128 (floor_mul_int r a)) = scalar_to_biguint (repr r) * unat a div 2 ^ 63"
    and "scalar_to_biguint (repr r) * unat a div 2 ^ 63 \<le> unat a"
proof -
  have le: "scalar_to_biguint (repr r) * unat a \<le> 2 ^ 63 * unat a"
    using assms(1) by simp
  then show d: "scalar_to_biguint (repr r) * unat a div 2 ^ 63 \<le> unat a"
    using div_le_mono [OF le, of "2 ^ 63"] by simp
  have a: "unat a < 2 ^ 100" using assms(2) by (simp add: validate_amount_iff)
  have "2 ^ 63 * unat a < 2 ^ 63 * 2 ^ 100" using a by simp
  also have "2 ^ 63 * 2 ^ 100 < scalar_modulus" by (simp add: scalar_modulus_def)
  finally have "scalar_to_biguint (repr r) * unat a < scalar_modulus"
    using le by (rule le_less_trans [rotated])
  then show "unat (scalar_to_u128 (floor_mul_int r a)) = scalar_to_biguint (repr r) * unat a div 2 ^ 63"
    using d a floor_mul_int_exact [of r a] by (simp add: unat_scalar_to_u128 fp_consts)
qed

lemma fee_take_values:
  fixes r :: fee_rates
  defines "x \<equiv> scalar_to_biguint (repr (relayer_fee_rate r))" and "y \<equiv> scalar_to_biguint (repr (protocol_fee_rate r))"
  assumes xy: "x + y \<le> 2 ^ 63" and a: "validate_amount_bitlength a"
  shows "unat (relayer_fee (compute_fee_take r a)) = x * unat a div 2 ^ 63"
    and "unat (protocol_fee (compute_fee_take r a)) = y * unat a div 2 ^ 63"
    and "unat (fee_total (compute_fee_take r a)) = x * unat a div 2 ^ 63 + y * unat a div 2 ^ 63"
    and "x * unat a div 2 ^ 63 + y * unat a div 2 ^ 63 \<le> unat a"
proof -
  show fx: "unat (relayer_fee (compute_fee_take r a)) = x * unat a div 2 ^ 63"
    and fy: "unat (protocol_fee (compute_fee_take r a)) = y * unat a div 2 ^ 63"
    using rate_no_wrap(1) [of "relayer_fee_rate r" a] rate_no_wrap(1) [of "protocol_fee_rate r" a]
      a xy by (simp_all add: compute_fee_take_def x_def y_def)
  have "(x + y) * unat a div 2 ^ 63 \<le> unat a"
    using div_le_mono [of "(x + y) * unat a" "2 ^ 63 * unat a" "2 ^ 63"] xy by simp
  moreover have "x * unat a div 2 ^ 63 + y * unat a div 2 ^ 63 \<le> (x + y) * unat a div 2 ^ 63"
    by (simp add: distrib_right div_add1_eq [of "x * unat a" "y * unat a"])
  ultimately show le: "x * unat a div 2 ^ 63 + y * unat a div 2 ^ 63 \<le> unat a" by linarith
  then show "unat (fee_total (compute_fee_take r a)) = x * unat a div 2 ^ 63 + y * unat a div 2 ^ 63"
    using fx fy unat_less_u128 [of a] by (simp add: fee_total_def unat_plus_no_wrap)
qed

text \<open>
  A fill of at most the price times \<open>a\<close>, converted back at the inverse price, is at most
  \<open>a\<close>, and the party that pays the converted amount is charged at most the price.
\<close>

lemma inverse_fill_le:
  assumes "fp_inverse x = Some y" and "validate_price_bitlength x" and "validate_amount_bitlength a"
    and le: "t \<le> scalar_to_u128 (floor_mul_int x a)"
  shows "scalar_to_u128 (floor_mul_int y t) \<le> a"
    and "scalar_to_biguint (repr x) * unat (scalar_to_u128 (floor_mul_int y t)) \<le> unat t * TWO_TO_M"
proof -
  define d where "d = scalar_to_biguint (repr x)"
  define v where "v = scalar_to_biguint (repr y)"
  define u where "u = unat (scalar_to_u128 (floor_mul_int y t))"
  have vd: "v * d \<le> 2 ^ 126"
    using inverse_repr [OF assms(1)] by (simp add: v_def d_def fp_consts)
  have "unat t \<le> d * unat a div 2 ^ 63"
    using floor_mul_int_exact [OF price_amount_no_wrap [OF assms(2,3)]] le
    by (simp add: word_le_nat_alt unat_scalar_to_u128 d_def fp_consts)
  then have td: "unat t * 2 ^ 63 \<le> d * unat a"
    by (simp add: less_eq_div_iff_mult_less_eq)
  have "v * (unat t * 2 ^ 63) \<le> v * (d * unat a)" using td by (rule mult_le_mono2)
  also have "\<dots> \<le> 2 ^ 126 * unat a"
    using mult_le_mono1 [OF vd, of "unat a"] by (simp add: mult.assoc)
  finally have vt: "v * unat t \<le> 2 ^ 63 * unat a" by simp
  have "2 ^ 63 * unat a < 2 ^ 63 * 2 ^ 100" using assms(3) by (simp add: validate_amount_iff)
  also have "2 ^ 63 * 2 ^ 100 < scalar_modulus" by (simp add: scalar_modulus_def)
  finally have nw: "v * unat t < scalar_modulus" using vt by linarith
  have "u = v * unat t div 2 ^ 63 mod 2 ^ 128"
    using floor_mul_int_exact [of y t] nw by (simp add: u_def unat_scalar_to_u128 v_def fp_consts)
  then have u: "u \<le> v * unat t div 2 ^ 63"
    by (metis mod_less_eq_dividend)
  have "v * unat t div 2 ^ 63 \<le> unat a" using div_le_mono [OF vt, of "2 ^ 63"] by simp
  then show "scalar_to_u128 (floor_mul_int y t) \<le> a"
    using u by (simp add: word_le_nat_alt u_def)
  have "u * 2 ^ 63 \<le> v * unat t" using u by (simp add: less_eq_div_iff_mult_less_eq)
  then have "d * (u * 2 ^ 63) \<le> d * (v * unat t)" by (rule mult_le_mono2)
  also have "\<dots> \<le> 2 ^ 126 * unat t"
    using mult_le_mono1 [OF vd, of "unat t"] by (simp add: ac_simps)
  finally show "scalar_to_biguint (repr x) * unat (scalar_to_u128 (floor_mul_int y t)) \<le> unat t * TWO_TO_M"
    by (simp add: d_def u_def fp_consts)
qed

text \<open>
  The converted amount is exact: neither the field nor the 128-bit truncation wraps around, so a
  party whose minimum price the inverse price meets is paid at least its minimum price's floor.
\<close>

lemma inverse_fill_exact:
  assumes "fp_inverse x = Some y" and "validate_price_bitlength x" and "validate_amount_bitlength a"
    and le: "t \<le> scalar_to_u128 (floor_mul_int x a)"
  shows "unat (scalar_to_u128 (floor_mul_int y t)) = scalar_to_biguint (repr y) * unat t div TWO_TO_M"
    and "q \<le> y \<Longrightarrow> validate_price_bitlength q \<Longrightarrow>
      scalar_to_biguint (floor_mul_int q t) \<le> unat (scalar_to_u128 (floor_mul_int y t))"
proof -
  define d where "d = scalar_to_biguint (repr x)"
  define v where "v = scalar_to_biguint (repr y)"
  have v: "v = 2 ^ 126 div d" using inverse_repr [OF assms(1)] by (simp add: v_def d_def fp_consts)
  have vd: "v * d \<le> 2 ^ 126" unfolding v by simp
  have "unat t \<le> d * unat a div 2 ^ 63"
    using floor_mul_int_exact [OF price_amount_no_wrap [OF assms(2,3)]] le
    by (simp add: word_le_nat_alt unat_scalar_to_u128 d_def fp_consts)
  then have td: "unat t * 2 ^ 63 \<le> d * unat a"
    by (simp add: less_eq_div_iff_mult_less_eq)
  have "v * (unat t * 2 ^ 63) \<le> v * (d * unat a)" using td by (rule mult_le_mono2)
  also have "\<dots> \<le> 2 ^ 126 * unat a"
    using mult_le_mono1 [OF vd, of "unat a"] by (simp add: mult.assoc)
  finally have vt: "v * unat t \<le> 2 ^ 63 * unat a" by simp
  have a: "2 ^ 63 * unat a < 2 ^ 63 * 2 ^ 100" using assms(3) by (simp add: validate_amount_iff)
  have nw: "v * unat t < scalar_modulus" using vt a by (simp add: scalar_modulus_def)
  have "v * unat t div 2 ^ 63 < 2 ^ 100" using vt a by (simp add: div_less_iff_less_mult)
  then show eq: "unat (scalar_to_u128 (floor_mul_int y t)) = scalar_to_biguint (repr y) * unat t div TWO_TO_M"
    using floor_mul_int_exact [of y t] nw by (simp add: unat_scalar_to_u128 v_def fp_consts)
  show "scalar_to_biguint (floor_mul_int q t) \<le> unat (scalar_to_u128 (floor_mul_int y t))"
    if q: "q \<le> y" "validate_price_bitlength q"
  proof -
    have "v \<le> 2 ^ 126" unfolding v by simp
    then have "\<not> is_negative y" "\<not> is_negative q"
      using q(2) by (simp_all add: is_negative_def v_def validate_price_iff scalar_modulus_def fp_consts)
    then have "scalar_to_biguint (repr q) \<le> v"
      using q(1) by (simp add: fp_le_rank fp_rank_def v_def)
    then have le: "scalar_to_biguint (repr q) * unat t \<le> v * unat t" by (rule mult_le_mono1)
    then have "scalar_to_biguint (repr q) * unat t < scalar_modulus" using nw by (rule le_less_trans)
    then show ?thesis
      using floor_mul_int_exact [of q t] div_le_mono [OF le, of TWO_TO_M] eq by (simp add: v_def)
  qed
qed

section \<open>Properties\<close>

text \<open>
  C4. Settling an obligation moves the amounts it names and nothing else: the intent and the
  input balance lose the input amount; the relayer and the protocol fee balance of the output
  balance each gain their fee, and its amount gains what is left of the output amount; no amount
  wraps around; and the private shares of all three elements are unchanged, so that the public
  shares alone carry the update.
\<close>

theorem settlement_conserves_amounts:
  assumes intent: "ob_amount_in ob \<le> amount_in (inner wi)"
    and balance: "ob_amount_in ob \<le> bal_amount (inner wb)"
    and fees: "unat (relayer_fee f) + unat (protocol_fee f) \<le> unat (ob_amount_out ob)"
    and room: "unat (bal_amount (inner wo)) + unat (relayer_fee_balance (inner wo)) +
       unat (protocol_fee_balance (inner wo)) + unat (ob_amount_out ob) < 2 ^ 128"
  shows "let wi' = intent_apply_settlement_obligation ob wi;
             wb' = apply_obligation_in_balance ob wb;
             wo' = apply_obligation_out_balance ob f wo
         in unat (amount_in (inner wi')) + unat (ob_amount_in ob) = unat (amount_in (inner wi)) \<and>
            unat (bal_amount (inner wb')) + unat (ob_amount_in ob) = unat (bal_amount (inner wb)) \<and>
            unat (relayer_fee_balance (inner wo')) = unat (relayer_fee_balance (inner wo)) + unat (relayer_fee f) \<and>
            unat (protocol_fee_balance (inner wo')) = unat (protocol_fee_balance (inner wo)) + unat (protocol_fee f) \<and>
            unat (bal_amount (inner wo')) + unat (relayer_fee f) + unat (protocol_fee f) =
              unat (bal_amount (inner wo)) + unat (ob_amount_out ob) \<and>
            intent_private_shares wi' = intent_private_shares wi \<and>
            balance_private_shares wb' = balance_private_shares wb \<and>
            balance_private_shares wo' = balance_private_shares wo"
proof -
  have ft: "unat (fee_total f) = unat (relayer_fee f) + unat (protocol_fee f)"
    using fees unat_less_u128 [of "ob_amount_out ob"]
    by (simp add: fee_total_def unat_plus_no_wrap)
  then have "fee_total f \<le> ob_amount_out ob"
    using fees by (simp add: word_le_nat_alt)
  then have rc: "unat (ob_amount_out ob - fee_total f) =
      unat (ob_amount_out ob) - (unat (relayer_fee f) + unat (protocol_fee f))"
    using ft by (simp add: unat_sub)
  let ?v = "apply_obligation_out_balance_no_fees ob f wo"
  have c1: "unat (bal_amount (inner wo)) + unat (ob_amount_out ob - fee_total f) < 2 ^ 128"
    and c2: "unat (relayer_fee_balance (inner wo)) + unat (relayer_fee f) < 2 ^ 128"
    and c3: "unat (protocol_fee_balance (inner wo)) + unat (protocol_fee f) < 2 ^ 128"
    using rc room fees by linarith+
  have v: "relayer_fee_balance (inner ?v) = relayer_fee_balance (inner wo)"
    "protocol_fee_balance (inner ?v) = protocol_fee_balance (inner wo)"
    by (simp_all add: apply_obligation_out_balance_no_fees_def Let_def)
  have p: "balance_private_shares (apply_obligation_out_balance ob f wo) = balance_private_shares wo"
    using add_fees_private [of ?v f] out_balance_private [OF c1] c2 c3 v
    by (simp add: apply_obligation_out_balance_def)
  have o: "unat (relayer_fee_balance (inner (apply_obligation_out_balance ob f wo))) =
        unat (relayer_fee_balance (inner wo)) + unat (relayer_fee f)"
      "unat (protocol_fee_balance (inner (apply_obligation_out_balance ob f wo))) =
        unat (protocol_fee_balance (inner wo)) + unat (protocol_fee f)"
      "unat (bal_amount (inner (apply_obligation_out_balance ob f wo))) + unat (relayer_fee f) + unat (protocol_fee f) =
        unat (bal_amount (inner wo)) + unat (ob_amount_out ob)"
    using unat_plus_no_wrap [OF c1] unat_plus_no_wrap [OF c2] unat_plus_no_wrap [OF c3] rc fees
    by (simp_all add: apply_obligation_out_balance_def add_fees_def
        apply_obligation_out_balance_no_fees_def Let_def)
  have i: "unat (amount_in (inner wi) - ob_amount_in ob) + unat (ob_amount_in ob) = unat (amount_in (inner wi))"
    "unat (bal_amount (inner wb) - ob_amount_in ob) + unat (ob_amount_in ob) = unat (bal_amount (inner wb))"
    using intent balance by (simp_all add: unat_sub word_le_nat_alt)
  show ?thesis
    unfolding Let_def
    using p o i intent_settle_private [OF intent] in_balance_private [OF balance]
    by (simp add: intent_apply_settlement_obligation_def apply_obligation_in_balance_def)
qed

text \<open>A concrete settlement: 40 units in, 70 units out, fees of 3 and 2.\<close>

definition example_obligation :: settlement_obligation where
  "example_obligation = \<lparr>input_token = 1, output_token = 2, ob_amount_in = 40, ob_amount_out = 70\<rparr>"

definition example_intent :: state_intent where
  "example_intent = state_wrapper_new intent_to_scalars intent_share_from_scalars
     \<lparr>in_token = 1, out_token = 2, owner = 3, min_price = fp_one, amount_in = 100\<rparr> 5 6"

definition example_balance :: "amount \<Rightarrow> state_balance" where
  "example_balance a = state_wrapper_new balance_to_scalars balance_share_from_scalars
     (with_amount a (darkpool_balance_new 1 3 4 \<lparr>point_x = 7, point_y = 8\<rparr>)) 9 10"

lemmas example_defs = example_obligation_def example_intent_def example_balance_def
  intent_ss.new_wrapper_streams balance_ss.new_wrapper_streams with_amount_def darkpool_balance_new_def

theorem settlement_conserves_amounts_witness:
  "let wo = example_balance 50;
       wo' = apply_obligation_out_balance example_obligation \<lparr>relayer_fee = 3, protocol_fee = 2\<rparr> wo
   in ob_amount_in example_obligation \<le> amount_in (inner example_intent) \<and>
      unat (relayer_fee_balance (inner wo')) = unat (relayer_fee_balance (inner wo)) + 3 \<and>
      unat (protocol_fee_balance (inner wo')) = unat (protocol_fee_balance (inner wo)) + 2 \<and>
      unat (bal_amount (inner wo')) = 115 \<and>
      balance_private_shares wo' = balance_private_shares wo"
proof -
  have h: "ob_amount_in example_obligation \<le> amount_in (inner example_intent)"
    "ob_amount_in example_obligation \<le> bal_amount (inner (example_balance 60))"
    "unat (relayer_fee \<lparr>relayer_fee = 3, protocol_fee = 2\<rparr>) +
      unat (protocol_fee \<lparr>relayer_fee = 3, protocol_fee = 2\<rparr>) \<le> unat (ob_amount_out example_obligation)"
    "unat (bal_amount (inner (example_balance 50))) + unat (relayer_fee_balance (inner (example_balance 50))) +
       unat (protocol_fee_balance (inner (example_balance 50))) + unat (ob_amount_out example_obligation) < 2 ^ 128"
    by (simp_all add: example_defs)
  have s: "unat (bal_amount (inner (example_balance 50))) + unat (ob_amount_out example_obligation) = 120"
    by (simp add: example_defs)
  show ?thesis
    using settlement_conserves_amounts [OF h] h(1) s by (simp add: Let_def)
qed

text \<open>
  C38. The fees taken from a fill never exceed it: when the two fee rates add up to at most
  one and the amount received is within its bit length, each fee is the exact floor of its
  share, and their total neither wraps around nor exceeds the amount received.
\<close>

theorem fees_within_fill:
  assumes "scalar_to_biguint (repr (relayer_fee_rate r)) +
             scalar_to_biguint (repr (protocol_fee_rate r)) \<le> TWO_TO_M"
    and "validate_amount_bitlength a"
  shows "unat (fee_total (compute_fee_take r a)) =
           unat (relayer_fee (compute_fee_take r a)) + unat (protocol_fee (compute_fee_take r a)) \<and>
         fee_total (compute_fee_take r a) \<le> a \<and>
         int (unat (relayer_fee (compute_fee_take r a))) = \<lfloor>fp_rat (relayer_fee_rate r) * of_nat (unat a)\<rfloor> \<and>
         int (unat (protocol_fee (compute_fee_take r a))) = \<lfloor>fp_rat (protocol_fee_rate r) * of_nat (unat a)\<rfloor>"
proof -
  let ?x = "scalar_to_biguint (repr (relayer_fee_rate r))" and ?y = "scalar_to_biguint (repr (protocol_fee_rate r))"
  note v = fee_take_values [of r a, OF _ assms(2)]
  have xy: "?x + ?y \<le> 2 ^ 63" using assms(1) by (simp add: fp_consts)
  have "fp_rat (relayer_fee_rate r) * of_nat (unat a) = (of_nat (?x * unat a) / of_nat (2 ^ 63) :: rat)"
    "fp_rat (protocol_fee_rate r) * of_nat (unat a) = (of_nat (?y * unat a) / of_nat (2 ^ 63) :: rat)"
    by (simp_all add: fp_rat_def fp_consts)
  then have "\<lfloor>fp_rat (relayer_fee_rate r) * of_nat (unat a)\<rfloor> = int (?x * unat a div 2 ^ 63)"
    "\<lfloor>fp_rat (protocol_fee_rate r) * of_nat (unat a)\<rfloor> = int (?y * unat a div 2 ^ 63)"
    by (simp_all only: floor_ratio)
  then show ?thesis
    using v [OF xy] by (simp add: word_le_nat_alt)
qed

theorem fees_within_fill_witness:
  "let r = \<lparr>relayer_fee_rate = from_repr (scalar_from (2 ^ 53)),
            protocol_fee_rate = from_repr (scalar_from (2 ^ 52))\<rparr>
   in scalar_to_biguint (repr (relayer_fee_rate r)) +
        scalar_to_biguint (repr (protocol_fee_rate r)) \<le> TWO_TO_M \<and>
      fee_total (compute_fee_take r 1000000) \<le> 1000000"
proof -
  let ?r = "\<lparr>relayer_fee_rate = from_repr (scalar_from (2 ^ 53)),
            protocol_fee_rate = from_repr (scalar_from (2 ^ 52))\<rparr>"
  have v: "validate_amount_bitlength (1000000 :: u128)"
    by (simp add: validate_amount_iff)
  have s: "scalar_to_biguint (repr (relayer_fee_rate ?r)) +
        scalar_to_biguint (repr (protocol_fee_rate ?r)) \<le> TWO_TO_M"
    by (simp add: from_repr_def scalar_to_biguint_def scalar_from.rep_eq scalar_modulus_def fp_consts)
  show ?thesis
    unfolding Let_def using s fees_within_fill [OF s v] by blast
qed

text \<open>
  Nobody gains from converting a bounded match forth and back: for a non-zero price
  within its bit length, the external obligation for the output of an internal obligation
  never pays out more than the internal party put in, and the external conversion panics
  exactly on a zero price.
\<close>

theorem bounded_match_no_gain:
  assumes "validate_price_bitlength (bounded_price m)" and "validate_amount_bitlength a"
  shows "case to_external_obligation m (ob_amount_out (to_internal_obligation m a)) of
           None \<Rightarrow> repr (bounded_price m) = 0
         | Some ob \<Rightarrow> ob_amount_out ob \<le> a \<and> input_token ob = output_token (to_internal_obligation m a) \<and>
             output_token ob = input_token (to_internal_obligation m a)"
proof (cases "fp_inverse (bounded_price m)")
  case None
  then show ?thesis by (simp add: to_external_obligation_def fp_inverse_def split: if_splits)
next
  case (Some y)
  show ?thesis
    using Some inverse_fill_le(1) [OF Some assms, of "ob_amount_out (to_internal_obligation m a)"]
    by (simp add: to_external_obligation_def to_internal_obligation_def)
qed

theorem bounded_match_no_gain_witness:
  "let m = \<lparr>internal_party_input_token = 1, internal_party_output_token = 2,
            min_internal_party_amount_in = 1, max_internal_party_amount_in = 1000,
            bounded_price = FixedPoint (scalar_from (3 * 2 ^ 60)), block_deadline = 9\<rparr>
   in validate_price_bitlength (bounded_price m) \<and>
      (\<exists>ob. to_external_obligation m (ob_amount_out (to_internal_obligation m 100)) = Some ob \<and>
            ob_amount_out ob \<le> 100)"
proof -
  let ?m = "\<lparr>internal_party_input_token = 1, internal_party_output_token = 2,
            min_internal_party_amount_in = 1, max_internal_party_amount_in = 1000,
            bounded_price = FixedPoint (scalar_from (3 * 2 ^ 60)), block_deadline = 9\<rparr>"
  have r: "scalar_to_biguint (scalar_from (3 * 2 ^ 60)) = 3 * 2 ^ 60"
    by (simp add: scalar_to_biguint_def scalar_from.rep_eq scalar_modulus_def)
  have p: "validate_price_bitlength (bounded_price ?m)"
    unfolding validate_price_iff using r by simp
  have a: "validate_amount_bitlength (100 :: u128)" by (simp add: validate_amount_iff)
  have nz: "repr (bounded_price ?m) \<noteq> 0" using r by (auto simp: scalar_eq_iff)
  show ?thesis
    unfolding Let_def using bounded_match_no_gain [OF p a] p nz
    by (cases "to_external_obligation ?m (ob_amount_out (to_internal_obligation ?m 100))") auto
qed

end
