(* ===== verification/Account_Types.thy ===== *)
theory Account_Types
  imports Settlement
begin

text \<open>
  The account model of \<open>relayer-types/types-account/src/account\<close>: trading pairs, privacy
  rings, orders with their metadata and authorizations, balances, key chains and accounts.
  Hash maps are partial maps; the USDC address, which the token configuration provides, is
  an argument of the definitions that use it.
\<close>

section \<open>Pairs\<close>

record pair =
  pair_in :: address
  pair_out :: address

definition pair_new :: "address \<Rightarrow> address \<Rightarrow> pair" where
  "pair_new i o' = \<lparr>pair_in = i, pair_out = o'\<rparr>"

definition pair_reverse :: "pair \<Rightarrow> pair" where
  "pair_reverse p = \<lparr>pair_in = pair_out p, pair_out = pair_in p\<rparr>"

definition pair_from_intent :: "intent \<Rightarrow> pair" where
  "pair_from_intent i = \<lparr>pair_in = in_token i, pair_out = out_token i\<rparr>"

definition pair_from_obligation :: "settlement_obligation \<Rightarrow> pair" where
  "pair_from_obligation ob = \<lparr>pair_in = input_token ob, pair_out = output_token ob\<rparr>"

definition is_input_quote :: "address \<Rightarrow> pair \<Rightarrow> bool" where
  "is_input_quote usdc p = (pair_in p = usdc)"

definition base_token :: "address \<Rightarrow> pair \<Rightarrow> address" where
  "base_token usdc p = (if pair_in p = usdc then pair_out p else pair_in p)"

definition quote_token :: "address \<Rightarrow> pair \<Rightarrow> address" where
  "quote_token usdc p = (if pair_in p = usdc then pair_in p else pair_out p)"

definition to_usdc_quoted :: "address \<Rightarrow> pair \<Rightarrow> string + pair" where
  "to_usdc_quoted usdc p =
     (if pair_in p = usdc then Inr (pair_reverse p)
      else if pair_out p = usdc then Inr p
      else Inl ''Pair does not contain USDC'')"

section \<open>Balance locations and privacy rings\<close>

datatype balance_location = EOA | Darkpool

definition is_darkpool :: "balance_location \<Rightarrow> bool" where
  "is_darkpool l = (l = Darkpool)"

definition is_eoa :: "balance_location \<Rightarrow> bool" where
  "is_eoa l = (l = EOA)"

datatype privacy_ring = Ring0 | Ring1 | Ring2 | Ring3

fun min_counterparty_ring :: "privacy_ring \<Rightarrow> privacy_ring" where
  "min_counterparty_ring Ring0 = Ring0"
| "min_counterparty_ring Ring1 = Ring0"
| "min_counterparty_ring Ring2 = Ring0"
| "min_counterparty_ring Ring3 = Ring2"

fun ring_rank :: "privacy_ring \<Rightarrow> u8" where
  "ring_rank Ring0 = 0"
| "ring_rank Ring1 = 1"
| "ring_rank Ring2 = 2"
| "ring_rank Ring3 = 3"

definition can_cross_with :: "privacy_ring \<Rightarrow> privacy_ring \<Rightarrow> bool" where
  "can_cross_with r counterparty =
     (ring_rank (min_counterparty_ring r) \<le> ring_rank counterparty \<and>
      ring_rank (min_counterparty_ring counterparty) \<le> ring_rank r)"

definition supports_private_settlement :: "privacy_ring \<Rightarrow> privacy_ring \<Rightarrow> bool" where
  "supports_private_settlement r0 r1 =
     ((r0 = Ring2 \<or> r0 = Ring3) \<and> (r1 = Ring2 \<or> r1 = Ring3))"

fun ring_balance_location :: "privacy_ring \<Rightarrow> balance_location" where
  "ring_balance_location Ring0 = EOA"
| "ring_balance_location Ring1 = EOA"
| "ring_balance_location Ring2 = Darkpool"
| "ring_balance_location Ring3 = Darkpool"

section \<open>Orders\<close>

type_synonym order_id = uuid
type_synonym account_id = uuid
type_synonym matching_pool_name = string

record order_metadata =
  min_fill_size :: amount
  allow_external_matches :: bool
  has_been_filled :: bool

definition order_metadata_new :: "amount \<Rightarrow> bool \<Rightarrow> order_metadata" where
  "order_metadata_new m ext =
     \<lparr>min_fill_size = m, allow_external_matches = ext, has_been_filled = False\<rparr>"

definition order_metadata_default :: order_metadata where
  "order_metadata_default =
     \<lparr>min_fill_size = 0, allow_external_matches = True, has_been_filled = False\<rparr>"

definition mark_filled :: "order_metadata \<Rightarrow> order_metadata" where
  "mark_filled m = m\<lparr>has_been_filled := True\<rparr>"

record order =
  order_uuid :: order_id
  order_intent :: state_intent
  ring :: privacy_ring
  metadata :: order_metadata

definition order_new_with_ring ::
    "order_id \<Rightarrow> state_intent \<Rightarrow> order_metadata \<Rightarrow> privacy_ring \<Rightarrow> order" where
  "order_new_with_ring oid i m r =
     \<lparr>order_uuid = oid, order_intent = i, ring = r, metadata = m\<rparr>"

definition order_input_token :: "order \<Rightarrow> address" where
  "order_input_token o' = in_token (inner (order_intent o'))"

definition order_output_token :: "order \<Rightarrow> address" where
  "order_output_token o' = out_token (inner (order_intent o'))"

definition order_amount_in :: "order \<Rightarrow> amount" where
  "order_amount_in o' = amount_in (inner (order_intent o'))"

definition order_min_price :: "order \<Rightarrow> fixed_point" where
  "order_min_price o' = min_price (inner (order_intent o'))"

definition order_min_fill_size :: "order \<Rightarrow> amount" where
  "order_min_fill_size o' = min_fill_size (metadata o')"

definition order_allow_external :: "order \<Rightarrow> bool" where
  "order_allow_external o' = allow_external_matches (metadata o')"

definition order_pair :: "order \<Rightarrow> pair" where
  "order_pair o' =
     pair_new (in_token (inner (order_intent o'))) (out_token (inner (order_intent o')))"

definition order_is_zero :: "order \<Rightarrow> bool" where
  "order_is_zero o' = (amount_in (inner (order_intent o')) = 0)"

text \<open>The debug assertion on an over-large amount is compiled out of the release build.\<close>

definition decrement_amount_in :: "amount \<Rightarrow> order \<Rightarrow> amount \<times> order" where
  "decrement_amount_in a o' =
     (let effective = min a (amount_in (inner (order_intent o')));
          w = order_intent o';
          w = w\<lparr>inner := (inner w)\<lparr>amount_in := amount_in (inner w) - effective\<rparr>\<rparr>;
          w = w\<lparr>public_share := (public_share w)
                 \<lparr>amount_in_share := amount_in_share (public_share w) - scalar_of_u128 effective\<rparr>\<rparr>
      in (effective, o'\<lparr>order_intent := w\<rparr>))"

text \<open>The ratio panics on a zero input amount.\<close>

definition validate_match_price :: "order \<Rightarrow> amount \<Rightarrow> amount \<Rightarrow> bool option" where
  "validate_match_price o' input_amount output_amount =
     map_option (\<lambda>implied_price. min_price (inner (order_intent o')) \<le> implied_price)
       (from_integer_ratio output_amount input_amount)"

text \<open>Signatures and permits are opaque to the relayer's state machine.\<close>

datatype order_auth =
    PublicOrder (permit: opaque) (public_signature: opaque)
  | NativelySettledPrivateOrder (native_signature: opaque)
  | RenegadeSettledOrder (intent_signature: opaque) (new_output_balance_signature: opaque)

text \<open>Extracting the wrong kind of authorization panics.\<close>

fun into_public :: "order_auth \<Rightarrow> (opaque \<times> opaque) option" where
  "into_public (PublicOrder p s) = Some (p, s)"
| "into_public _ = None"

fun into_natively_settled_private_order :: "order_auth \<Rightarrow> opaque option" where
  "into_natively_settled_private_order (NativelySettledPrivateOrder s) = Some s"
| "into_natively_settled_private_order _ = None"

fun into_renegade_settled_order :: "order_auth \<Rightarrow> (opaque \<times> opaque) option" where
  "into_renegade_settled_order (RenegadeSettledOrder i b) = Some (i, b)"
| "into_renegade_settled_order _ = None"

record order_refresh_data =
  refresh_order :: order
  refresh_pool :: matching_pool_name
  refresh_auth :: order_auth

section \<open>Balances\<close>

record balance =
  balance_wrapper :: state_balance
  location :: balance_location

definition balance_new :: "state_balance \<Rightarrow> balance_location \<Rightarrow> balance" where
  "balance_new w l = \<lparr>balance_wrapper = w, location = l\<rparr>"

definition new_eoa :: "state_balance \<Rightarrow> balance" where
  "new_eoa w = balance_new w EOA"

definition new_darkpool :: "state_balance \<Rightarrow> balance" where
  "new_darkpool w = balance_new w Darkpool"

definition balance_mint :: "balance \<Rightarrow> address" where
  "balance_mint b = mint (inner (balance_wrapper b))"

definition balance_amount :: "balance \<Rightarrow> amount" where
  "balance_amount b = bal_amount (inner (balance_wrapper b))"

definition balance_set_amount :: "amount \<Rightarrow> balance \<Rightarrow> balance" where
  "balance_set_amount a b =
     b\<lparr>balance_wrapper := (balance_wrapper b)
         \<lparr>inner := (inner (balance_wrapper b))\<lparr>bal_amount := a\<rparr>\<rparr>\<rparr>"

definition withdraw :: "amount \<Rightarrow> balance \<Rightarrow> balance" where
  "withdraw a b = balance_set_amount (balance_amount b - a) b"

section \<open>Key chains\<close>

record private_key_chain =
  symmetric_key :: opaque
  master_view_seed :: scalar
  master_share_seed_csprng :: csprng
  master_recovery_seed_csprng :: csprng

record keychain =
  secret_keys :: private_key_chain
  schnorr_key :: schnorr_public_key

definition sample_recovery_id_stream_seed :: "private_key_chain \<Rightarrow> csprng \<times> private_key_chain" where
  "sample_recovery_id_stream_seed k =
     (let (sd, c) = csprng_next (master_recovery_seed_csprng k)
      in (csprng_new sd, k\<lparr>master_recovery_seed_csprng := c\<rparr>))"

definition sample_share_stream_seed :: "private_key_chain \<Rightarrow> csprng \<times> private_key_chain" where
  "sample_share_stream_seed k =
     (let (sd, c) = csprng_next (master_share_seed_csprng k)
      in (csprng_new sd, k\<lparr>master_share_seed_csprng := c\<rparr>))"

section \<open>Accounts\<close>

type_synonym balance_map = "address \<rightharpoonup> (balance_location \<rightharpoonup> balance)"

record account =
  account_uuid :: account_id
  orders :: "order_id \<rightharpoonup> order"
  balances :: balance_map
  account_keychain :: keychain
  default_matching_pool :: "matching_pool_name option"

definition new_empty_account :: "account_id \<Rightarrow> keychain \<Rightarrow> account" where
  "new_empty_account aid k =
     \<lparr>account_uuid = aid, orders = Map.empty, balances = Map.empty, account_keychain = k,
      default_matching_pool = None\<rparr>"

text \<open>\<open>entry(mint).or_default()\<close> followed by an insertion into the inner map.\<close>

definition insert_balance :: "balance \<Rightarrow> balance_map \<Rightarrow> balance_map" where
  "insert_balance b m =
     m(balance_mint b \<mapsto> (unwrap_or Map.empty (m (balance_mint b)))(location b \<mapsto> b))"

definition account_new :: "account_id \<Rightarrow> order list \<Rightarrow> balance list \<Rightarrow> keychain \<Rightarrow> account" where
  "account_new aid os bs k =
     \<lparr>account_uuid = aid,
      orders = fold (\<lambda>o' m. m(order_uuid o' \<mapsto> o')) os Map.empty,
      balances = fold insert_balance bs Map.empty,
      account_keychain = k, default_matching_pool = None\<rparr>"

definition get_order :: "account \<Rightarrow> order_id \<Rightarrow> order option" where
  "get_order acct oid = orders acct oid"

definition has_balance :: "account \<Rightarrow> address \<Rightarrow> bool" where
  "has_balance acct m = (balances acct m \<noteq> None)"

definition get_balance :: "account \<Rightarrow> address \<Rightarrow> balance_location \<Rightarrow> balance option" where
  "get_balance acct m l = Option.bind (balances acct m) (\<lambda>b. b l)"

definition get_eoa_balance :: "account \<Rightarrow> address \<Rightarrow> balance option" where
  "get_eoa_balance acct m = Option.bind (balances acct m) (\<lambda>b. b EOA)"

definition get_darkpool_balance :: "account \<Rightarrow> address \<Rightarrow> balance option" where
  "get_darkpool_balance acct m = Option.bind (balances acct m) (\<lambda>b. b Darkpool)"

definition get_matchable_amount_for_order :: "account \<Rightarrow> order \<Rightarrow> amount" where
  "get_matchable_amount_for_order acct o' =
     (let token = order_input_token o';
          loc = ring_balance_location (ring o');
          bal = unwrap_or 0 (map_option balance_amount (get_balance acct token loc))
      in min bal (amount_in (inner (order_intent o'))))"

text \<open>Writing through the mutable reference that \<open>get_balance_mut\<close> returns.\<close>

definition set_balance :: "address \<Rightarrow> balance_location \<Rightarrow> balance \<Rightarrow> account \<Rightarrow> account" where
  "set_balance m l b acct =
     acct\<lparr>balances := (balances acct)(m \<mapsto> (unwrap_or Map.empty (balances acct m))(l \<mapsto> b))\<rparr>"

datatype account_error = BalanceError string | OrderError string

definition deposit_balance ::
    "address \<Rightarrow> amount \<Rightarrow> balance_location \<Rightarrow> account \<Rightarrow> account_error + account" where
  "deposit_balance m a l acct =
     (case (case l of EOA \<Rightarrow> get_eoa_balance acct m | Darkpool \<Rightarrow> get_darkpool_balance acct m) of
        None \<Rightarrow> Inl (BalanceError ''Balance not found for mint'')
      | Some bal \<Rightarrow>
          if max_amount < balance_amount bal + a
          then Inl (BalanceError ''Deposit would exceed max amount'')
          else Inr (set_balance m l (balance_set_amount (balance_amount bal + a) bal) acct))"

definition place_order ::
    "order_id \<Rightarrow> intent \<Rightarrow> privacy_ring \<Rightarrow> order_metadata \<Rightarrow> account \<Rightarrow> account" where
  "place_order oid i r m acct =
     (let (sh_stream, sk) = sample_share_stream_seed (secret_keys (account_keychain acct));
          (rec_stream, sk) = sample_recovery_id_stream_seed sk;
          wrapper = state_wrapper_new intent_to_scalars intent_share_from_scalars i
            (seed sh_stream) (seed rec_stream);
          o' = order_new_with_ring oid wrapper m r
      in acct\<lparr>account_keychain := (account_keychain acct)\<lparr>secret_keys := sk\<rparr>,
              orders := (orders acct)(order_uuid o' \<mapsto> o')\<rparr>)"

definition create_balance ::
    "address \<Rightarrow> address \<Rightarrow> address \<Rightarrow> schnorr_public_key \<Rightarrow> balance_location \<Rightarrow> account \<Rightarrow> account" where
  "create_balance token own fee_recipient auth l acct =
     (let (sh_stream, sk) = sample_share_stream_seed (secret_keys (account_keychain acct));
          (rec_stream, sk) = sample_recovery_id_stream_seed sk;
          bal_inner = darkpool_balance_new token own fee_recipient auth;
          wrapper = state_wrapper_new balance_to_scalars balance_share_from_scalars bal_inner
            (seed sh_stream) (seed rec_stream);
          bal = balance_new wrapper l
      in acct\<lparr>account_keychain := (account_keychain acct)\<lparr>secret_keys := sk\<rparr>,
              balances := (balances acct)
                (token \<mapsto> (unwrap_or Map.empty (balances acct token))(l \<mapsto> bal))\<rparr>)"

definition create_eoa_balance ::
    "address \<Rightarrow> address \<Rightarrow> address \<Rightarrow> schnorr_public_key \<Rightarrow> account \<Rightarrow> account" where
  "create_eoa_balance token own fee_recipient auth acct =
     create_balance token own fee_recipient auth EOA acct"

definition create_darkpool_balance ::
    "address \<Rightarrow> address \<Rightarrow> address \<Rightarrow> schnorr_public_key \<Rightarrow> account \<Rightarrow> account" where
  "create_darkpool_balance token own fee_recipient auth acct =
     create_balance token own fee_recipient auth Darkpool acct"

section \<open>Lemmas\<close>

lemma pair_reverse_reverse [simp]: "pair_reverse (pair_reverse p) = p"
  by (simp add: pair_reverse_def)

lemma can_cross_with_table:
  "can_cross_with r c \<longleftrightarrow> (r = Ring3 \<longrightarrow> c = Ring2 \<or> c = Ring3) \<and> (c = Ring3 \<longrightarrow> r = Ring2 \<or> r = Ring3)"
  by (cases r; cases c) (simp_all add: can_cross_with_def word_le_nat_alt)

lemma get_balance_set_balance:
  "get_balance (set_balance m l b acct) m' l' = (if m' = m \<and> l' = l then Some b else get_balance acct m' l')"
  by (simp add: get_balance_def set_balance_def unwrap_or_def split: option.splits)

lemma get_balance_location:
  "(case l of EOA \<Rightarrow> get_eoa_balance acct m | Darkpool \<Rightarrow> get_darkpool_balance acct m) = get_balance acct m l"
  by (simp add: get_eoa_balance_def get_darkpool_balance_def get_balance_def split: balance_location.splits)

lemma matchable_amount_le:
  "get_matchable_amount_for_order acct o' \<le> order_amount_in o'"
  by (simp add: get_matchable_amount_for_order_def Let_def order_amount_in_def)

lemma decrement_amount_in_eq:
  "decrement_amount_in a o' =
     (let e = min a (order_amount_in o')
      in (e, o'\<lparr>order_intent := intent_apply_settlement_obligation
               \<lparr>input_token = order_input_token o', output_token = order_output_token o',
                ob_amount_in = e, ob_amount_out = 0\<rparr> (order_intent o')\<rparr>))"
  by (simp add: decrement_amount_in_def order_amount_in_def Let_def
      intent_apply_settlement_obligation_def)

lemma ratio_not_negative:
  assumes "d \<noteq> 0"
  shows "\<exists>x. from_integer_ratio n d = Some x \<and> \<not> is_negative x \<and>
    scalar_to_biguint (repr x) = unat n * 2 ^ 63 div unat d"
proof -
  let ?q = "unat n * 2 ^ 63 div unat d"
  have "?q \<le> unat n * 2 ^ 63" by simp
  also have "\<dots> < 2 ^ 128 * 2 ^ 63" using unat_less_u128 [of n] by simp
  finally have q: "?q < 2 ^ 191" by simp
  then have "?q mod scalar_modulus = ?q" "?q \<le> (scalar_modulus - 1) div 2"
    by (simp_all add: scalar_modulus_def)
  then show ?thesis
    using assms
    by (simp add: from_integer_ratio_def push_bit_eq_mult fp_consts is_negative_def
        scalar_to_biguint_to_scalar)
qed

section \<open>Properties\<close>

text \<open>
  Decrementing an order never underflows: the amount taken is clamped to what remains,
  the remaining amount drops by exactly the amount returned, and the private shares of the
  intent are unchanged because its public share moves by the same amount.
\<close>

theorem decrement_clamps:
  "case decrement_amount_in a o' of (e, o'') \<Rightarrow>
     e = min a (order_amount_in o') \<and>
     unat (order_amount_in o'') + unat e = unat (order_amount_in o') \<and>
     intent_private_shares (order_intent o'') = intent_private_shares (order_intent o') \<and>
     order_uuid o'' = order_uuid o' \<and> order_pair o'' = order_pair o' \<and>
     order_min_price o'' = order_min_price o' \<and> ring o'' = ring o' \<and> metadata o'' = metadata o'"
proof -
  let ?e = "min a (order_amount_in o')"
  have le: "?e \<le> order_amount_in o'" by simp
  have "unat (order_amount_in o' - ?e) + unat ?e = unat (order_amount_in o')"
    using le by (simp add: unat_sub word_le_nat_alt)
  moreover have "intent_private_shares (intent_apply_settlement_obligation
      \<lparr>input_token = order_input_token o', output_token = order_output_token o',
       ob_amount_in = ?e, ob_amount_out = 0\<rparr> (order_intent o')) =
      intent_private_shares (order_intent o')"
    by (rule intent_settle_private) (simp add: order_amount_in_def)
  ultimately show ?thesis
    by (simp add: decrement_amount_in_eq Let_def order_amount_in_def order_pair_def order_min_price_def)
      (simp add: intent_apply_settlement_obligation_def)
qed

text \<open>
  The price check of a match is exact: for a non-zero input amount it accepts exactly
  when the output amount is at least the minimum price times the input amount, with no
  rounding slack (a negative minimum price accepts everything); a zero input amount panics.
\<close>

theorem validate_match_price_exact:
  "validate_match_price o' input output =
     (if input = 0 then None
      else Some (is_negative (order_min_price o') \<or>
        scalar_to_biguint (repr (order_min_price o')) * unat input \<le> unat output * TWO_TO_M))"
proof (cases "input = 0")
  case True
  then show ?thesis by (simp add: validate_match_price_def from_integer_ratio_def)
next
  case False
  obtain x where x: "from_integer_ratio output input = Some x" "\<not> is_negative x"
      "scalar_to_biguint (repr x) = unat output * 2 ^ 63 div unat input"
    using ratio_not_negative [OF False] by blast
  let ?m = "order_min_price o'"
  have "?m \<le> x \<longleftrightarrow> fp_value ?m \<le> fp_value x"
    using x(2) by (intro fp_le_value) simp
  also have "\<dots> \<longleftrightarrow> is_negative ?m \<or> scalar_to_biguint (repr ?m) \<le> unat output * 2 ^ 63 div unat input"
  proof (cases "is_negative ?m")
    case True
    then show ?thesis
      using fp_value_neg [of ?m] fp_value_nonneg [of x] x(2) by simp
  next
    case False
    then show ?thesis using x(2,3) by (simp add: fp_value_def)
  qed
  also have "\<dots> \<longleftrightarrow> is_negative ?m \<or> scalar_to_biguint (repr ?m) * unat input \<le> unat output * 2 ^ 63"
    using False by (simp add: less_eq_div_iff_mult_less_eq word_unat_eq_iff)
  finally show ?thesis
    using False x(1) by (simp add: validate_match_price_def order_min_price_def fp_consts)
qed

text \<open>
  A successful deposit of an amount within its bit length adds exactly that amount to
  the one balance it names and leaves every other balance alone, and the balance stays within
  the protocol's maximum; it fails exactly when there is no such balance or the sum would
  exceed the maximum.
\<close>

theorem deposit_balance_exact:
  assumes "validate_amount_bitlength a"
    and "\<And>b. get_balance acct m l = Some b \<Longrightarrow> validate_amount_bitlength (balance_amount b)"
  shows "case deposit_balance m a l acct of
     Inl _ \<Rightarrow> (case get_balance acct m l of None \<Rightarrow> True
        | Some b \<Rightarrow> unat max_amount < unat (balance_amount b) + unat a)
   | Inr acct' \<Rightarrow> \<exists>b b'. get_balance acct m l = Some b \<and> get_balance acct' m l = Some b' \<and>
        unat (balance_amount b') = unat (balance_amount b) + unat a \<and>
        validate_amount_bitlength (balance_amount b') \<and>
        (\<forall>m' l'. (m', l') \<noteq> (m, l) \<longrightarrow> get_balance acct' m' l' = get_balance acct m' l')"
proof (cases "get_balance acct m l")
  case None
  then show ?thesis by (simp add: deposit_balance_def get_balance_location)
next
  case (Some b)
  have "unat a < 2 ^ 100" "unat (balance_amount b) < 2 ^ 100"
    using assms Some by (simp_all add: validate_amount_iff)
  then have s: "unat (balance_amount b + a) = unat (balance_amount b) + unat a"
    by (simp add: unat_plus_no_wrap)
  show ?thesis
    using Some s max_amount_val
    by (auto simp: deposit_balance_def get_balance_location get_balance_set_balance word_less_nat_alt
        validate_amount_iff balance_set_amount_def balance_amount_def)
qed

definition example_account :: account where
  "example_account =
     account_new 11 [] [new_eoa (example_balance 50)]
       \<lparr>secret_keys = \<lparr>symmetric_key = [], master_view_seed = 1,
          master_share_seed_csprng = csprng_new 2, master_recovery_seed_csprng = csprng_new 3\<rparr>,
        schnorr_key = \<lparr>point_x = 7, point_y = 8\<rparr>\<rparr>"

definition example_order :: order where
  "example_order = order_new_with_ring 21 example_intent (order_metadata_new 10 True) Ring0"

lemma example_account_balance: "get_balance example_account 1 EOA = Some (new_eoa (example_balance 50))"
  by (simp add: example_account_def account_new_def insert_balance_def get_balance_def new_eoa_def
      balance_new_def balance_mint_def example_defs)

theorem deposit_balance_exact_witness:
  "validate_amount_bitlength (7 :: u128) \<and>
   (\<exists>acct' b'. deposit_balance 1 7 EOA example_account = Inr acct' \<and>
      get_balance acct' 1 EOA = Some b' \<and> unat (balance_amount b') = 57)"
proof -
  have b: "unat (balance_amount (new_eoa (example_balance 50))) = 50"
    by (simp add: balance_amount_def new_eoa_def balance_new_def example_defs)
  have h: "validate_amount_bitlength (7 :: u128)"
    "\<And>b. get_balance example_account 1 EOA = Some b \<Longrightarrow> validate_amount_bitlength (balance_amount b)"
    using b by (auto simp: validate_amount_iff example_account_balance)
  show ?thesis
    using deposit_balance_exact [of 7 example_account 1 EOA, OF h] h(1) b max_amount_val
    by (auto simp: example_account_balance split: sum.splits)
qed

text \<open>
  Two privacy rings may cross exactly when neither is ring 3 or both are in rings 2 and
  3; the relation is symmetric, every ring crosses with itself, and orders that support
  private settlement may always cross.
\<close>

theorem ring_crossing:
  "can_cross_with r c = can_cross_with c r \<and> can_cross_with r r \<and>
   (can_cross_with r c \<longleftrightarrow> (r \<noteq> Ring3 \<and> c \<noteq> Ring3) \<or> supports_private_settlement r c)"
  by (cases r; cases c) (simp_all add: can_cross_with_table supports_private_settlement_def)

end
