(* ===== verification/Ordered_Set.thy ===== *)
theory Ordered_Set
  imports Prelude
begin

text \<open>
  The part of \<open>std::collections::BTreeSet\<close> the sources use, as a strictly ascending
  list: insertion that keeps an equal element, removal, and iteration in ascending order.
  The locale states the contract of the standard library; the client proofs use only it.
\<close>

section \<open>Definitions\<close>

fun bset_insert :: "'a::linorder \<Rightarrow> 'a list \<Rightarrow> 'a list" where
  "bset_insert x [] = [x]"
| "bset_insert x (y # ys) =
     (if x < y then x # y # ys else if x = y then y # ys else y # bset_insert x ys)"

fun bset_remove :: "'a::linorder \<Rightarrow> 'a list \<Rightarrow> 'a list" where
  "bset_remove x [] = []"
| "bset_remove x (y # ys) =
     (if x < y then y # ys else if x = y then ys else y # bset_remove x ys)"

abbreviation bset_ok :: "'a::linorder list \<Rightarrow> bool" where
  "bset_ok \<equiv> sorted_wrt (<)"

section \<open>The contract\<close>

locale ordered_set =
  fixes ok :: "'s \<Rightarrow> bool" and empty :: 's
    and insert_elem :: "'a::linorder \<Rightarrow> 's \<Rightarrow> 's" and remove_elem :: "'a \<Rightarrow> 's \<Rightarrow> 's"
    and elems :: "'s \<Rightarrow> 'a list"
  assumes ok_empty: "ok empty" and elems_empty: "elems empty = []"
    and ok_insert: "ok s \<Longrightarrow> ok (insert_elem x s)"
    and ok_remove: "ok s \<Longrightarrow> ok (remove_elem x s)"
    and elems_insert: "ok s \<Longrightarrow> set (elems (insert_elem x s)) = insert x (set (elems s))"
    and elems_remove: "ok s \<Longrightarrow> set (elems (remove_elem x s)) = set (elems s) - {x}"
    and elems_sorted: "ok s \<Longrightarrow> sorted_wrt (<) (elems s)"
begin

text \<open>The elements of a set determine its iteration order.\<close>

lemma elems_eq_sorted_list: "ok s \<Longrightarrow> elems s = sorted_list_of_set (set (elems s))"
  by (metis elems_sorted sorted_list_of_set.idem_if_sorted_distinct strict_sorted_iff)

lemma rekey:
  "ok s \<Longrightarrow> x \<in> set (elems s) \<Longrightarrow>
   set (elems (insert_elem y (remove_elem x s))) = insert y (set (elems s) - {x})"
  by (simp add: elems_insert elems_remove ok_remove)

end

section \<open>The sorted list implements it\<close>

lemma set_bset_insert: "set (bset_insert x xs) = insert x (set xs)"
  by (induction xs) auto

lemma bset_ok_insert: "bset_ok xs \<Longrightarrow> bset_ok (bset_insert x xs)"
  by (induction xs) (auto simp: set_bset_insert)

lemma set_bset_remove: "bset_ok xs \<Longrightarrow> set (bset_remove x xs) = set xs - {x}"
  by (induction xs) auto

lemma bset_ok_remove: "bset_ok xs \<Longrightarrow> bset_ok (bset_remove x xs)"
  by (induction xs) (auto simp: set_bset_remove)

interpretation btree: ordered_set bset_ok "[]" bset_insert bset_remove "\<lambda>xs. xs"
  by unfold_locales (simp_all add: set_bset_insert bset_ok_insert set_bset_remove bset_ok_remove)

end
