(* ===== verification/Book.thy ===== *)
theory Book
  imports Account_Types Ordered_Set
begin

text \<open>
  The order book of \<open>matching-engine-core/src/book.rs\<close>: a map from order id to the
  order's details and a B-tree of the same orders keyed by decreasing matchable amount.

  The invariant \<open>book_ok\<close> says that the two structures describe the same orders; the
  iterator's \<open>unwrap\<close> panics only when it is broken. Every operation preserves it, and
  \<open>find_match\<close> is characterised as the first eligible order in the order of
  decreasing matchable amount. The locale \<open>order_book\<close> is the contract the matching
  engine relies on.
\<close>

section \<open>Keys\<close>

datatype reverse_amount_key = ReverseAmountKey (key_amount: amount) (key_order: order_id)

definition key_cmp :: "reverse_amount_key \<Rightarrow> reverse_amount_key \<Rightarrow> ordering" where
  "key_cmp x other =
     (case cmp (key_amount other) (key_amount x) of
        Equal \<Rightarrow> cmp (key_order x) (key_order other)
      | ord \<Rightarrow> ord)"

lemma key_cmp_Less:
  "key_cmp x y = Less \<longleftrightarrow>
     key_amount y < key_amount x \<or> key_amount x = key_amount y \<and> key_order x < key_order y"
  by (auto simp: key_cmp_def cmp_def)

lemma key_cmp_Equal: "key_cmp x y = Equal \<longleftrightarrow> x = y"
  by (cases x; cases y) (auto simp: key_cmp_def cmp_def)

instantiation reverse_amount_key :: linorder
begin

definition less_reverse_amount_key :: "reverse_amount_key \<Rightarrow> reverse_amount_key \<Rightarrow> bool" where
  "less_reverse_amount_key x y = (key_cmp x y = Less)"

definition less_eq_reverse_amount_key :: "reverse_amount_key \<Rightarrow> reverse_amount_key \<Rightarrow> bool" where
  "less_eq_reverse_amount_key x y = (key_cmp x y = Less \<or> key_cmp x y = Equal)"

instance
  by standard
    (auto simp: less_reverse_amount_key_def less_eq_reverse_amount_key_def key_cmp_Less key_cmp_Equal
      intro: reverse_amount_key.expand)

end

section \<open>The book\<close>

record book_order =
  bo_account :: account_id
  matchable_amount :: amount
  bo_min_price :: fixed_point
  bo_min_fill_size :: amount
  externally_matchable :: bool
  bo_ring :: privacy_ring

definition book_order_new :: "account_id \<Rightarrow> order \<Rightarrow> amount \<Rightarrow> book_order" where
  "book_order_new aid o' a =
     \<lparr>bo_account = aid, matchable_amount = a, bo_min_price = order_min_price o',
      bo_min_fill_size = order_min_fill_size o', externally_matchable = order_allow_external o',
      bo_ring = ring o'\<rparr>"

record book =
  order_map :: "order_id \<rightharpoonup> book_order"
  sorted_amounts :: "reverse_amount_key list"

definition book_new :: book where
  "book_new = \<lparr>order_map = Map.empty, sorted_amounts = []\<rparr>"

definition contains_order :: "order_id \<Rightarrow> book \<Rightarrow> bool" where
  "contains_order oid b = (order_map b oid \<noteq> None)"

definition get_matchable_amount :: "order_id \<Rightarrow> book \<Rightarrow> amount option" where
  "get_matchable_amount oid b = map_option matchable_amount (order_map b oid)"

text \<open>
  The hash map's values come in an unspecified order; the sum, which wraps, does not depend
  on it. They are listed by increasing order id here.
\<close>

definition total_matchable_amount :: "book \<Rightarrow> amount" where
  "total_matchable_amount b =
     sum_list (map matchable_amount
       (filter (\<lambda>o'. bo_min_fill_size o' \<le> matchable_amount o')
         (map (\<lambda>oid. the (order_map b oid)) (sorted_list_of_set (dom (order_map b))))))"

definition add_order :: "account_id \<Rightarrow> order \<Rightarrow> amount \<Rightarrow> book \<Rightarrow> book" where
  "add_order aid o' a b =
     (let bo = book_order_new aid o' a
      in b\<lparr>order_map := (order_map b)(order_uuid o' \<mapsto> bo),
           sorted_amounts := bset_insert (ReverseAmountKey a (order_uuid o')) (sorted_amounts b)\<rparr>)"

definition remove_order :: "order_id \<Rightarrow> book \<Rightarrow> book" where
  "remove_order oid b =
     (case order_map b oid of
        None \<Rightarrow> b
      | Some bo \<Rightarrow>
          b\<lparr>order_map := (order_map b)(oid := None),
            sorted_amounts :=
              bset_remove (ReverseAmountKey (matchable_amount bo) oid) (sorted_amounts b)\<rparr>)"

definition update_order :: "account_id \<Rightarrow> order \<Rightarrow> amount \<Rightarrow> book \<Rightarrow> book" where
  "update_order aid o' a b = add_order aid o' a (remove_order (order_uuid o') b)"

definition reserve :: "order_id \<Rightarrow> amount \<Rightarrow> book \<Rightarrow> amount \<times> book" where
  "reserve oid a b =
     (case order_map b oid of
        None \<Rightarrow> (0, b)
      | Some bo \<Rightarrow>
          (let reserved = min a (matchable_amount bo) in
           if reserved = 0 then (0, b)
           else
             (let old_amount = matchable_amount bo;
                  new_amount = old_amount - reserved;
                  b = b\<lparr>order_map := (order_map b)(oid \<mapsto> bo\<lparr>matchable_amount := new_amount\<rparr>)\<rparr>;
                  b = b\<lparr>sorted_amounts :=
                         bset_remove (ReverseAmountKey old_amount oid) (sorted_amounts b)\<rparr>;
                  b = b\<lparr>sorted_amounts :=
                         bset_insert (ReverseAmountKey new_amount oid) (sorted_amounts b)\<rparr>
              in (reserved, b))))"

text \<open>An inclusive range is the pair of its ends.\<close>

type_synonym amount_range = "amount \<times> amount"

definition ranges_intersect :: "amount_range \<Rightarrow> amount_range \<Rightarrow> bool" where
  "ranges_intersect range1 range2 =
     (let intersect_min = max (fst range1) (fst range2);
          intersect_max = min (snd range1) (snd range2)
      in intersect_min \<le> intersect_max)"

text \<open>
  One iteration of the loop of \<open>find_match\<close>: \<open>None\<close> when the order is skipped.
\<close>

definition try_match ::
    "account_id \<Rightarrow> privacy_ring \<Rightarrow> fixed_point \<Rightarrow> amount_range \<Rightarrow> bool \<Rightarrow> order_id \<Rightarrow> book_order \<Rightarrow>
     (order_id \<times> amount \<times> amount_range) option" where
  "try_match exclude_account_id input_ring price amount_range require_ext oid bo =
     (if exclude_account_id = bo_account bo then None
      else if \<not> can_cross_with input_ring (bo_ring bo) then None
      else
        (let order_range = (bo_min_fill_size bo, matchable_amount bo) in
         if price < bo_min_price bo \<or> \<not> ranges_intersect order_range amount_range then None
         else if require_ext \<and> \<not> externally_matchable bo then None
         else Some (oid, min (matchable_amount bo) (snd amount_range), order_range)))"

text \<open>
  The loop itself, over the keys of the B-tree. The lookup of the order behind a key is
  unwrapped: the outer \<open>None\<close> is the panic of a key without an order.
\<close>

fun find_match_keys ::
    "account_id \<Rightarrow> privacy_ring \<Rightarrow> fixed_point \<Rightarrow> amount_range \<Rightarrow> bool \<Rightarrow> (order_id \<rightharpoonup> book_order) \<Rightarrow>
     reverse_amount_key list \<Rightarrow> (order_id \<times> amount \<times> amount_range) option option" where
  "find_match_keys excl rg price rng ext m [] = Some None"
| "find_match_keys excl rg price rng ext m (k # ks) =
     (case m (key_order k) of
        None \<Rightarrow> None
      | Some bo \<Rightarrow>
          (case try_match excl rg price rng ext (key_order k) bo of
             None \<Rightarrow> find_match_keys excl rg price rng ext m ks
           | Some r \<Rightarrow> Some (Some r)))"

definition find_match ::
    "account_id \<Rightarrow> privacy_ring \<Rightarrow> fixed_point \<Rightarrow> amount_range \<Rightarrow> bool \<Rightarrow> book \<Rightarrow>
     (order_id \<times> amount \<times> amount_range) option option" where
  "find_match excl rg price rng ext b =
     find_match_keys excl rg price rng ext (order_map b) (sorted_amounts b)"

section \<open>The invariant\<close>

definition book_keys :: "(order_id \<rightharpoonup> book_order) \<Rightarrow> reverse_amount_key set" where
  "book_keys m = {ReverseAmountKey (matchable_amount bo) oid | oid bo. m oid = Some bo}"

definition book_ok :: "book \<Rightarrow> bool" where
  "book_ok b \<longleftrightarrow> bset_ok (sorted_amounts b) \<and> set (sorted_amounts b) = book_keys (order_map b)"

text \<open>The orders a query may match with, and the order in which they are preferred.\<close>

definition eligible ::
    "account_id \<Rightarrow> privacy_ring \<Rightarrow> fixed_point \<Rightarrow> amount_range \<Rightarrow> bool \<Rightarrow> book_order \<Rightarrow> bool" where
  "eligible excl rg price rng ext bo \<longleftrightarrow>
     bo_account bo \<noteq> excl \<and> can_cross_with rg (bo_ring bo) \<and> bo_min_price bo \<le> price \<and>
     bo_min_fill_size bo \<le> matchable_amount bo \<and> bo_min_fill_size bo \<le> snd rng \<and>
     fst rng \<le> matchable_amount bo \<and> fst rng \<le> snd rng \<and> (ext \<longrightarrow> externally_matchable bo)"

definition preferred :: "order_id \<Rightarrow> book_order \<Rightarrow> order_id \<Rightarrow> book_order \<Rightarrow> bool" where
  "preferred oid bo oid' bo' \<longleftrightarrow>
     matchable_amount bo' < matchable_amount bo \<or>
     matchable_amount bo' = matchable_amount bo \<and> oid \<le> oid'"

lemma book_keys_empty [simp]: "book_keys Map.empty = {}"
  by (simp add: book_keys_def)

lemma in_book_keys:
  "k \<in> book_keys m \<longleftrightarrow> (\<exists>bo. m (key_order k) = Some bo \<and> matchable_amount bo = key_amount k)"
  by (cases k) (auto simp: book_keys_def)

lemma book_keys_insert:
  assumes "m oid = None"
  shows "book_keys (m(oid \<mapsto> bo)) = insert (ReverseAmountKey (matchable_amount bo) oid) (book_keys m)"
proof (rule set_eqI)
  fix k
  show "k \<in> book_keys (m(oid \<mapsto> bo)) \<longleftrightarrow>
      k \<in> insert (ReverseAmountKey (matchable_amount bo) oid) (book_keys m)"
    using assms by (cases k) (auto simp: in_book_keys)
qed

lemma book_keys_remove:
  assumes "m oid = Some bo"
  shows "book_keys (m(oid := None)) = book_keys m - {ReverseAmountKey (matchable_amount bo) oid}"
proof (rule set_eqI)
  fix k
  show "k \<in> book_keys (m(oid := None)) \<longleftrightarrow>
      k \<in> book_keys m - {ReverseAmountKey (matchable_amount bo) oid}"
    using assms by (cases k) (auto simp: in_book_keys)
qed

lemma book_keys_replace:
  assumes "m oid = Some bo"
  shows "book_keys (m(oid \<mapsto> bo')) =
     insert (ReverseAmountKey (matchable_amount bo') oid)
       (book_keys m - {ReverseAmountKey (matchable_amount bo) oid})"
  using book_keys_insert [of "m(oid := None)" oid bo'] book_keys_remove [of m oid bo] assms by simp

lemma book_new_map: "order_map book_new = Map.empty"
  by (simp add: book_new_def)

lemma book_ok_new: "book_ok book_new"
  by (simp add: book_ok_def book_new_def)

lemma book_ok_add_fresh:
  "book_ok b \<Longrightarrow> order_map b (order_uuid o') = None \<Longrightarrow> book_ok (add_order aid o' a b)"
  by (simp add: book_ok_def add_order_def Let_def btree.ok_insert btree.elems_insert book_keys_insert
      book_order_new_def)

lemma remove_order_map: "order_map (remove_order oid b) = (order_map b)(oid := None)"
  by (auto simp: remove_order_def fun_eq_iff split: option.splits)

lemma book_ok_remove: "book_ok b \<Longrightarrow> book_ok (remove_order oid b)"
  by (simp add: book_ok_def remove_order_def btree.ok_remove btree.elems_remove book_keys_remove
      split: option.splits)

lemma book_ok_update: "book_ok b \<Longrightarrow> book_ok (update_order aid o' a b)"
  by (simp add: update_order_def book_ok_add_fresh book_ok_remove remove_order_map)

lemma add_order_map:
  "order_map (add_order aid o' a b) = (order_map b)(order_uuid o' \<mapsto> book_order_new aid o' a)"
  by (simp add: add_order_def Let_def)

lemma update_order_map:
  "order_map (update_order aid o' a b) = (order_map b)(order_uuid o' \<mapsto> book_order_new aid o' a)"
  by (simp add: update_order_def add_order_map remove_order_map)

lemma book_ok_reserve: "book_ok b \<Longrightarrow> book_ok (snd (reserve oid a b))"
  by (auto simp: book_ok_def reserve_def Let_def btree.ok_insert btree.ok_remove btree.elems_insert
      btree.elems_remove book_keys_replace split: option.splits)

lemma reserve_map:
  "order_map (snd (reserve oid a b)) =
     (case order_map b oid of
        None \<Rightarrow> order_map b
      | Some bo \<Rightarrow> (order_map b)
          (oid \<mapsto> bo\<lparr>matchable_amount := matchable_amount bo - min a (matchable_amount bo)\<rparr>))"
  by (auto simp: reserve_def Let_def fun_upd_idem_iff split: option.splits)

lemma reserve_amount:
  "fst (reserve oid a b) =
     (case order_map b oid of None \<Rightarrow> 0 | Some bo \<Rightarrow> min a (matchable_amount bo))"
  by (simp add: reserve_def Let_def split: option.splits)

section \<open>Matching\<close>

lemma ranges_intersect_iff:
  "ranges_intersect (a, b) (c, d) \<longleftrightarrow> a \<le> b \<and> a \<le> d \<and> c \<le> b \<and> c \<le> d"
  by (auto simp: ranges_intersect_def Let_def)

lemma try_match_eq:
  "try_match excl rg price rng ext oid bo =
     (if eligible excl rg price rng ext bo
      then Some (oid, min (matchable_amount bo) (snd rng), (bo_min_fill_size bo, matchable_amount bo))
      else None)"
  by (cases rng) (auto simp: try_match_def eligible_def Let_def ranges_intersect_iff)

text \<open>What a query must return, as a property of the orders on the book.\<close>

definition match_spec ::
    "account_id \<Rightarrow> privacy_ring \<Rightarrow> fixed_point \<Rightarrow> amount_range \<Rightarrow> bool \<Rightarrow> (order_id \<rightharpoonup> book_order) \<Rightarrow>
     (order_id \<times> amount \<times> amount_range) option \<Rightarrow> bool" where
  "match_spec excl rg price rng ext m res \<longleftrightarrow>
     (case res of
        None \<Rightarrow> \<forall>bo \<in> ran m. \<not> eligible excl rg price rng ext bo
      | Some (oid, a, bounds) \<Rightarrow>
          (\<exists>bo. m oid = Some bo \<and> eligible excl rg price rng ext bo \<and>
             a = min (matchable_amount bo) (snd rng) \<and>
             bounds = (bo_min_fill_size bo, matchable_amount bo) \<and>
             (\<forall>oid' bo'. m oid' = Some bo' \<and> eligible excl rg price rng ext bo' \<longrightarrow>
                preferred oid bo oid' bo')))"

lemma find_match_keys_find:
  assumes "\<And>k. k \<in> set ks \<Longrightarrow> m (key_order k) \<noteq> None"
  shows "find_match_keys excl rg price rng ext m ks =
     Some (map_option
       (\<lambda>k. let bo = the (m (key_order k))
            in (key_order k, min (matchable_amount bo) (snd rng), (bo_min_fill_size bo, matchable_amount bo)))
       (find (\<lambda>k. eligible excl rg price rng ext (the (m (key_order k)))) ks))"
  using assms
proof (induction ks)
  case Nil
  then show ?case by simp
next
  case (Cons k ks)
  then have "m (key_order k) \<noteq> None" by simp
  then obtain bo where "m (key_order k) = Some bo" by auto
  with Cons show ?case by (simp add: try_match_eq)
qed

lemma find_sorted_least:
  assumes "bset_ok ks" and "find p ks = Some k"
  shows "k \<in> set ks" and "p k" and "\<And>k'. k' \<in> set ks \<Longrightarrow> p k' \<Longrightarrow> k \<le> k'"
  using assms by (induction ks) (auto split: if_splits intro: less_imp_le)

lemma key_le_preferred:
  "m oid = Some bo \<Longrightarrow> m oid' = Some bo' \<Longrightarrow>
   ReverseAmountKey (matchable_amount bo) oid \<le> ReverseAmountKey (matchable_amount bo') oid' \<longleftrightarrow>
   preferred oid bo oid' bo'"
  by (auto simp: less_eq_reverse_amount_key_def key_cmp_Less key_cmp_Equal preferred_def)

lemma find_match_spec:
  assumes "book_ok b"
  shows "\<exists>res. find_match excl rg price rng ext b = Some res \<and>
     match_spec excl rg price rng ext (order_map b) res"
proof -
  let ?m = "order_map b" and ?el = "eligible excl rg price rng ext"
  let ?f = "find (\<lambda>k. ?el (the (?m (key_order k)))) (sorted_amounts b)"
  have ks: "bset_ok (sorted_amounts b)" "set (sorted_amounts b) = book_keys ?m"
    using assms by (simp_all add: book_ok_def)
  have pre: "\<And>k. k \<in> set (sorted_amounts b) \<Longrightarrow> ?m (key_order k) \<noteq> None"
    by (auto simp: ks(2) in_book_keys)
  have key: "ReverseAmountKey (matchable_amount bo) oid \<in> set (sorted_amounts b)"
    if "?m oid = Some bo" for oid bo
    using that by (simp add: ks(2) in_book_keys)
  show ?thesis
  proof (cases ?f)
    case None
    then have "\<not> ?el bo" if "?m oid = Some bo" for oid bo
      using key [OF that] that by (fastforce simp: find_None_iff)
    then have "match_spec excl rg price rng ext ?m None"
      by (auto simp: match_spec_def ran_def)
    then show ?thesis
      using None find_match_keys_find [of "sorted_amounts b" ?m, OF pre] by (simp add: find_match_def)
  next
    case (Some k)
    note k = find_sorted_least [OF ks(1) Some]
    obtain bo where bo: "?m (key_order k) = Some bo" "matchable_amount bo = key_amount k"
      using k(1) by (auto simp: ks(2) in_book_keys)
    have "preferred (key_order k) bo oid' bo'" if "?m oid' = Some bo'" "?el bo'" for oid' bo'
      using k(3) [OF key [OF that(1)]] that key_le_preferred [OF bo(1) that(1)] bo(2) by simp
    then have "match_spec excl rg price rng ext ?m (Some (key_order k,
        min (matchable_amount bo) (snd rng), (bo_min_fill_size bo, matchable_amount bo)))"
      using k(2) bo(1) by (simp add: match_spec_def)
    then show ?thesis
      using Some bo(1) find_match_keys_find [of "sorted_amounts b" ?m, OF pre] by (simp add: find_match_def)
  qed
qed

lemma match_spec_SomeE:
  assumes "match_spec excl rg price rng ext m (Some r)"
  obtains oid bo where "m oid = Some bo" "eligible excl rg price rng ext bo"
    "r = (oid, min (matchable_amount bo) (snd rng), (bo_min_fill_size bo, matchable_amount bo))"
    "\<And>oid' bo'. m oid' = Some bo' \<Longrightarrow> eligible excl rg price rng ext bo' \<Longrightarrow> preferred oid bo oid' bo'"
  using assms by (cases r) (auto simp: match_spec_def)

lemma match_spec_NoneD:
  "match_spec excl rg price rng ext m None \<Longrightarrow> m oid = Some bo \<Longrightarrow> \<not> eligible excl rg price rng ext bo"
  by (auto simp: match_spec_def ran_def)

lemma match_spec_unique:
  assumes "match_spec excl rg price rng ext m r" and "match_spec excl rg price rng ext m r'"
  shows "r = r'"
proof (cases r)
  case None
  then show ?thesis
    using assms by (cases r') (auto elim: match_spec_SomeE dest: match_spec_NoneD)
next
  case (Some x)
  obtain oid bo where x: "m oid = Some bo" "eligible excl rg price rng ext bo"
    "x = (oid, min (matchable_amount bo) (snd rng), (bo_min_fill_size bo, matchable_amount bo))"
    "\<And>oid' bo'. m oid' = Some bo' \<Longrightarrow> eligible excl rg price rng ext bo' \<Longrightarrow> preferred oid bo oid' bo'"
    using assms(1) Some by (auto elim: match_spec_SomeE)
  show ?thesis
  proof (cases r')
    case None
    then show ?thesis using assms(2) x match_spec_NoneD by blast
  next
    case r': (Some y)
    obtain oid' bo' where y: "m oid' = Some bo'" "eligible excl rg price rng ext bo'"
      "y = (oid', min (matchable_amount bo') (snd rng), (bo_min_fill_size bo', matchable_amount bo'))"
      "\<And>oid bo. m oid = Some bo \<Longrightarrow> eligible excl rg price rng ext bo \<Longrightarrow> preferred oid' bo' oid bo"
      using assms(2) r' by (auto elim: match_spec_SomeE)
    have "oid = oid'"
      using x(4) [OF y(1,2)] y(4) [OF x(1,2)] by (auto simp: preferred_def)
    then show ?thesis using x(1,3) y(1,3) Some r' by simp
  qed
qed

lemma unat_min_sub: "unat (min a m) + unat (m - min a m) = unat m" for a m :: amount
  by (cases "a \<le> m") (simp_all add: min_def unat_sub word_le_nat_alt)

section \<open>The contract of a book\<close>

locale order_book =
  fixes ok :: "'b \<Rightarrow> bool" and lookup :: "'b \<Rightarrow> order_id \<rightharpoonup> book_order" and empty :: 'b
    and add :: "account_id \<Rightarrow> order \<Rightarrow> amount \<Rightarrow> 'b \<Rightarrow> 'b"
    and remove :: "order_id \<Rightarrow> 'b \<Rightarrow> 'b"
    and update :: "account_id \<Rightarrow> order \<Rightarrow> amount \<Rightarrow> 'b \<Rightarrow> 'b"
    and reserve_in :: "order_id \<Rightarrow> amount \<Rightarrow> 'b \<Rightarrow> amount \<times> 'b"
    and find_in :: "account_id \<Rightarrow> privacy_ring \<Rightarrow> fixed_point \<Rightarrow> amount_range \<Rightarrow> bool \<Rightarrow> 'b \<Rightarrow>
      (order_id \<times> amount \<times> amount_range) option option"
  assumes ok_empty: "ok empty" and lookup_empty: "lookup empty = Map.empty"
    and ok_add: "ok b \<Longrightarrow> lookup b (order_uuid o') = None \<Longrightarrow> ok (add aid o' a b)"
    and lookup_add: "lookup (add aid o' a b) = (lookup b)(order_uuid o' \<mapsto> book_order_new aid o' a)"
    and ok_remove: "ok b \<Longrightarrow> ok (remove oid b)"
    and lookup_remove: "lookup (remove oid b) = (lookup b)(oid := None)"
    and ok_update: "ok b \<Longrightarrow> ok (update aid o' a b)"
    and lookup_update: "lookup (update aid o' a b) = (lookup b)(order_uuid o' \<mapsto> book_order_new aid o' a)"
    and ok_reserve: "ok b \<Longrightarrow> ok (snd (reserve_in oid a b))"
    and reserved: "fst (reserve_in oid a b) =
      (case lookup b oid of None \<Rightarrow> 0 | Some bo \<Rightarrow> min a (matchable_amount bo))"
    and lookup_reserve: "lookup (snd (reserve_in oid a b)) =
      (case lookup b oid of None \<Rightarrow> lookup b
       | Some bo \<Rightarrow> (lookup b)
           (oid \<mapsto> bo\<lparr>matchable_amount := matchable_amount bo - min a (matchable_amount bo)\<rparr>))"
    and find_total: "ok b \<Longrightarrow> \<exists>res. find_in excl rg price rng ext b = Some res \<and>
      match_spec excl rg price rng ext (lookup b) res"
begin

text \<open>The matchable amount of an order, zero when it is not on the book.\<close>

definition amount_of :: "order_id \<Rightarrow> 'b \<Rightarrow> nat" where
  "amount_of oid b = (case lookup b oid of None \<Rightarrow> 0 | Some bo \<Rightarrow> unat (matchable_amount bo))"

lemma find_matches:
  assumes "ok b" and "find_in excl rg price rng ext b = Some res"
  shows "match_spec excl rg price rng ext (lookup b) res"
  using find_total [OF assms(1)] assms(2) by (metis option.inject)

lemma find_None_iff:
  assumes "ok b"
  shows "find_in excl rg price rng ext b = Some None \<longleftrightarrow>
     (\<forall>bo \<in> ran (lookup b). \<not> eligible excl rg price rng ext bo)"
proof -
  obtain res where "find_in excl rg price rng ext b = Some res"
      "match_spec excl rg price rng ext (lookup b) res"
    using find_total [OF assms] by blast
  moreover have "match_spec excl rg price rng ext (lookup b) None \<longleftrightarrow>
      (\<forall>bo \<in> ran (lookup b). \<not> eligible excl rg price rng ext bo)"
    by (simp add: match_spec_def)
  ultimately show ?thesis
    using match_spec_unique [of excl rg price rng ext "lookup b" res None] by auto
qed

lemma reserve_conserves:
  "unat (fst (reserve_in oid a b)) + amount_of oid (snd (reserve_in oid a b)) = amount_of oid b"
  by (auto simp: reserved lookup_reserve amount_of_def unat_min_sub split: option.splits)

lemma reserve_other: "oid' \<noteq> oid \<Longrightarrow> amount_of oid' (snd (reserve_in oid a b)) = amount_of oid' b"
  by (simp add: lookup_reserve amount_of_def split: option.splits)

text \<open>Reserving what a query found takes exactly the matched amount off the book.\<close>

lemma match_reserve_exact:
  assumes "ok b" and "find_in excl rg price rng ext b = Some (Some (oid, a, bounds))"
  shows "fst (reserve_in oid a b) = a"
    and "amount_of oid (snd (reserve_in oid a b)) + unat a = amount_of oid b"
proof -
  have "match_spec excl rg price rng ext (lookup b) (Some (oid, a, bounds))"
    using find_matches [OF assms] .
  then obtain bo where "lookup b oid = Some bo" "a = min (matchable_amount bo) (snd rng)"
    by (elim match_spec_SomeE) simp
  then show r: "fst (reserve_in oid a b) = a"
    by (simp add: reserved)
  show "amount_of oid (snd (reserve_in oid a b)) + unat a = amount_of oid b"
    using reserve_conserves [of oid a b] r by simp
qed

end

interpretation bk: order_book book_ok order_map book_new add_order remove_order update_order reserve
  find_match
  by unfold_locales
    (assumption | rule book_ok_new book_new_map book_ok_add_fresh add_order_map book_ok_remove
      remove_order_map book_ok_update update_order_map book_ok_reserve reserve_amount reserve_map
      find_match_spec)+

section \<open>The book as a state machine\<close>

text \<open>
  The ways the engine changes a book: an order is added only when it is not on the book,
  updated, removed, or reserved. Beside the book the state records, for every order, the
  matchable amount of its last authoritative update and the liquidity that matches have
  reserved since.
\<close>

record book_state =
  st_book :: book
  authoritative :: "order_id \<Rightarrow> nat"
  committed :: "order_id \<Rightarrow> nat"

definition book_init :: "book_state \<Rightarrow> bool" where
  "book_init s \<longleftrightarrow> s = \<lparr>st_book = book_new, authoritative = \<lambda>_. 0, committed = \<lambda>_. 0\<rparr>"

inductive book_step :: "book_state \<Rightarrow> book_state \<Rightarrow> bool" where
  step_add:
    "\<not> contains_order (order_uuid o') (st_book s) \<Longrightarrow>
     book_step s (s\<lparr>st_book := add_order aid o' a (st_book s),
       authoritative := (authoritative s)(order_uuid o' := unat a),
       committed := (committed s)(order_uuid o' := 0)\<rparr>)"
| step_update:
    "book_step s (s\<lparr>st_book := update_order aid o' a (st_book s),
       authoritative := (authoritative s)(order_uuid o' := unat a),
       committed := (committed s)(order_uuid o' := 0)\<rparr>)"
| step_remove:
    "book_step s (s\<lparr>st_book := remove_order oid (st_book s),
       authoritative := (authoritative s)(oid := 0), committed := (committed s)(oid := 0)\<rparr>)"
| step_match:
    "find_match excl rg price rng ext (st_book s) = Some (Some (oid, a, bounds)) \<Longrightarrow>
     book_step s (s\<lparr>st_book := snd (reserve oid a (st_book s)),
       committed := (committed s)(oid := committed s oid + unat a)\<rparr>)"
| step_reserve_input:
    "reserve oid a (st_book s) = (r, b') \<Longrightarrow>
     book_step s (s\<lparr>st_book := b', committed := (committed s)(oid := committed s oid + unat r)\<rparr>)"

definition book_inv :: "book_state \<Rightarrow> bool" where
  "book_inv s \<longleftrightarrow>
     book_ok (st_book s) \<and>
     (\<forall>oid. committed s oid + bk.amount_of oid (st_book s) = authoritative s oid)"

lemma amount_of_map:
  "bk.amount_of oid b = (case order_map b oid of None \<Rightarrow> 0 | Some bo \<Rightarrow> unat (matchable_amount bo))"
  by (simp add: bk.amount_of_def)

lemma book_inv_step: "book_step s t \<Longrightarrow> book_inv s \<Longrightarrow> book_inv t"
proof (induction rule: book_step.induct)
  case (step_add o' s aid a)
  then show ?case
    by (auto simp: book_inv_def contains_order_def book_ok_add_fresh amount_of_map add_order_map
        book_order_new_def)
next
  case (step_update s aid o' a)
  then show ?case
    by (auto simp: book_inv_def book_ok_update amount_of_map update_order_map book_order_new_def)
next
  case (step_remove s oid)
  then show ?case
    by (auto simp: book_inv_def book_ok_remove amount_of_map remove_order_map)
next
  case (step_match excl rg price rng ext s oid a bounds)
  then have ok: "book_ok (st_book s)" by (simp add: book_inv_def)
  show ?case
    using step_match bk.match_reserve_exact(2) [OF ok step_match(1)] bk.reserve_other
    by (auto simp: book_inv_def book_ok_reserve) (metis add.assoc add.commute)
next
  case (step_reserve_input oid a s r b')
  then have "unat r + bk.amount_of oid b' = bk.amount_of oid (st_book s)"
    "\<And>oid'. oid' \<noteq> oid \<Longrightarrow> bk.amount_of oid' b' = bk.amount_of oid' (st_book s)"
    using bk.reserve_conserves [of oid a "st_book s"] bk.reserve_other [of _ oid a "st_book s"]
    by simp_all
  then show ?case
    using step_reserve_input book_ok_reserve [of "st_book s" oid a]
    by (auto simp: book_inv_def) (metis add.assoc)
qed

interpretation book_sys: invariant_system book_init book_step book_inv
proof unfold_locales
  show "book_inv s" if "book_init s" for s
    using that by (simp add: book_init_def book_inv_def book_ok_new amount_of_map book_new_map)
qed (rule book_inv_step)

section \<open>Properties\<close>

text \<open>
  In every state the engine can bring a book into, the hash map and the sorted set
  describe the same orders, so that no query ever panics on a key without an order.
\<close>

theorem book_never_panics:
  assumes "reachable book_init book_step s"
  shows "book_ok (st_book s) \<and> find_match excl rg price rng ext (st_book s) \<noteq> None"
proof -
  have "book_ok (st_book s)"
    using book_sys.reachable_inv [OF assms] by (simp add: book_inv_def)
  then show ?thesis using find_match_spec [of "st_book s" excl rg price rng ext] by auto
qed

text \<open>
  C8. On a consistent book \<open>find_match\<close> never panics; it returns nothing exactly when no
  order is eligible, and otherwise an order that satisfies every constraint of the query
  (another account, compatible rings, acceptable price, overlapping amount ranges, external
  flag), with the largest matchable amount among the eligible orders and ties broken by the
  smallest id, for the smaller of its matchable amount and the end of the query's range.
\<close>

theorem find_match_best:
  assumes "book_ok b"
  shows "\<exists>res. find_match excl rg price rng ext b = Some res \<and>
     (res = None \<longleftrightarrow> (\<forall>bo \<in> ran (order_map b). \<not> eligible excl rg price rng ext bo)) \<and>
     (\<forall>oid a bounds. res = Some (oid, a, bounds) \<longrightarrow>
        (\<exists>bo. order_map b oid = Some bo \<and> eligible excl rg price rng ext bo \<and>
           a = min (matchable_amount bo) (snd rng) \<and>
           bounds = (bo_min_fill_size bo, matchable_amount bo) \<and>
           (\<forall>oid' bo'. order_map b oid' = Some bo' \<and> eligible excl rg price rng ext bo' \<longrightarrow>
              preferred oid bo oid' bo')))"
proof -
  obtain res where res: "find_match excl rg price rng ext b = Some res"
    and spec: "match_spec excl rg price rng ext (order_map b) res"
    using find_match_spec [OF assms] by blast
  have "res = None \<longleftrightarrow> (\<forall>bo \<in> ran (order_map b). \<not> eligible excl rg price rng ext bo)"
    using bk.find_None_iff [OF assms, of excl rg price rng ext] res by simp
  then show ?thesis
    using res spec by (intro exI [of _ res]) (auto simp: match_spec_def)
qed

text \<open>A book with one order of 30 units at price one and a minimum fill of 10.\<close>

definition example_book :: book where
  "example_book = update_order 5 example_order 30 book_new"

lemmas example_book_defs = example_book_def update_order_def remove_order_def add_order_def
  book_new_def book_order_new_def example_order_def order_new_with_ring_def order_metadata_new_def
  order_min_price_def order_min_fill_size_def order_allow_external_def

lemma example_book_find:
  "find_match 6 Ring1 fp_one (1, 20) ext example_book = Some (Some (21, 20, (10, 30)))"
  by (simp add: find_match_def example_book_defs try_match_eq eligible_def can_cross_with_table
      example_defs)

theorem find_match_best_witness:
  "book_ok example_book \<and>
   (\<exists>res. find_match 6 Ring1 fp_one (1, 20) True example_book = Some res \<and>
      (res = None \<longleftrightarrow> (\<forall>bo \<in> ran (order_map example_book). \<not> eligible 6 Ring1 fp_one (1, 20) True bo)) \<and>
      res = Some (21, 20, (10, 30)))"
proof -
  have ok: "book_ok example_book"
    by (simp add: example_book_def book_ok_update book_ok_new)
  show ?thesis
    using find_match_best [OF ok, of 6 Ring1 fp_one "(1, 20)" True] ok example_book_find [of True]
    by simp
qed

definition example_state :: book_state where
  "example_state =
     \<lparr>st_book = example_book, authoritative = (\<lambda>_. 0)(21 := 30), committed = \<lambda>_. 0\<rparr>"

lemma example_order_uuid: "order_uuid example_order = 21"
  by (simp add: example_order_def order_new_with_ring_def)

lemma example_state_reachable: "reachable book_init book_step example_state"
proof (rule reach_step)
  let ?i = "\<lparr>st_book = book_new, authoritative = \<lambda>_. 0, committed = \<lambda>_. 0\<rparr>"
  show "reachable book_init book_step ?i"
    by (rule reach_init) (simp add: book_init_def)
  show "book_step ?i example_state"
    using step_update [where s = ?i and aid = 5 and o' = example_order and a = 30]
    by (simp add: example_state_def example_book_def example_order_uuid fun_upd_def)
qed

theorem book_never_panics_witness:
  "reachable book_init book_step example_state \<and>
   find_match 6 Ring1 fp_one (1, 20) True (st_book example_state) \<noteq> None"
  using book_never_panics [OF example_state_reachable] example_state_reachable by auto

text \<open>
  C14. Matches never commit more liquidity than an order has: whatever sequence of matches,
  input reservations, updates and cancellations a book goes through, the liquidity reserved
  from an order since its last authoritative update and the amount still matchable add up to
  the authoritative amount.
\<close>

theorem no_overcommit:
  assumes "reachable book_init book_step s"
  shows "committed s oid +
           unat (unwrap_or 0 (get_matchable_amount oid (st_book s))) = authoritative s oid \<and>
         committed s oid \<le> authoritative s oid"
proof -
  have "committed s oid + bk.amount_of oid (st_book s) = authoritative s oid"
    using book_sys.reachable_inv [OF assms] by (simp add: book_inv_def)
  then show ?thesis
    by (cases "order_map (st_book s) oid") (auto simp: amount_of_map get_matchable_amount_def)
qed

theorem no_overcommit_witness:
  "\<exists>s. reachable book_init book_step s \<and> committed s 21 = 20 \<and>
       committed s 21 + unat (unwrap_or 0 (get_matchable_amount 21 (st_book s))) = authoritative s 21"
proof -
  let ?t = "example_state\<lparr>st_book := snd (reserve 21 20 example_book), committed := (\<lambda>_. 0)(21 := 20)\<rparr>"
  have "order_map example_book 21 = Some (book_order_new 5 example_order 30)"
    by (simp add: example_book_def update_order_map example_order_uuid)
  then have "reserve 21 20 example_book = (20, snd (reserve 21 20 example_book))"
    using reserve_amount [of 21 20 example_book]
    by (simp add: prod_eq_iff book_order_new_def)
  then have "book_step example_state ?t"
    using step_reserve_input [where oid = 21 and a = 20 and s = example_state and r = 20
        and b' = "snd (reserve 21 20 example_book)"]
    by (simp add: example_state_def)
  then have t: "reachable book_init book_step ?t"
    by (rule reach_step [OF example_state_reachable])
  show ?thesis
    using no_overcommit [OF t, of 21] t by (intro exI [of _ ?t]) simp
qed

end
