(* ===== verification/Matching_Engine.thy ===== *)
theory Matching_Engine
  imports Book
begin

text \<open>
  The matching engine of \<open>matching-engine-core/src/engine.rs\<close>: one book per pair and
  matching pool, and for every pair a second book over all pools that external queries read.
  The concurrent maps are partial maps and an operation is one atomic step; the outer option
  of a query is the panic of a corrupted book.

  The invariant \<open>engine_ok\<close> says that all books are consistent and that the two views
  agree: an order is in the book of the pool it is assigned to exactly as it is in the book
  over all pools.
\<close>

section \<open>Definitions\<close>

record ts_price =
  ts_price_fp :: fixed_point
  ts_timestamp :: u64

record match_result =
  party0_obligation :: settlement_obligation
  party1_obligation :: settlement_obligation

definition match_result_new :: "settlement_obligation \<Rightarrow> settlement_obligation \<Rightarrow> match_result" where
  "match_result_new o0 o1 = \<lparr>party0_obligation = o0, party1_obligation = o1\<rparr>"

definition match_base_token :: "address \<Rightarrow> match_result \<Rightarrow> address" where
  "match_base_token usdc m =
     (if input_token (party0_obligation m) = usdc then output_token (party0_obligation m)
      else input_token (party0_obligation m))"

definition quote_token_volume :: "address \<Rightarrow> match_result \<Rightarrow> amount" where
  "quote_token_volume usdc m =
     (let obligation = party0_obligation m in
      if input_token obligation = usdc then ob_amount_in obligation else ob_amount_out obligation)"

record successful_match =
  other_order_id :: order_id
  match_price :: ts_price
  the_match_result :: match_result
  matchable_amount_bounds :: amount_range

record matching_engine =
  book_map :: "pair \<times> matching_pool_name \<rightharpoonup> book"
  all_pools_book :: "pair \<rightharpoonup> book"

definition engine_new :: matching_engine where
  "engine_new = \<lparr>book_map = Map.empty, all_pools_book = Map.empty\<rparr>"

definition engine_contains_order :: "order \<Rightarrow> matching_pool_name \<Rightarrow> matching_engine \<Rightarrow> bool" where
  "engine_contains_order o' pool e =
     (case book_map e (order_pair o', pool) of
        Some b \<Rightarrow> contains_order (order_uuid o') b
      | None \<Rightarrow> False)"

definition engine_get_matchable_amount ::
    "order \<Rightarrow> matching_pool_name \<Rightarrow> matching_engine \<Rightarrow> amount option" where
  "engine_get_matchable_amount o' pool e =
     (case book_map e (order_pair o', pool) of
        Some b \<Rightarrow> get_matchable_amount (order_uuid o') b
      | None \<Rightarrow> None)"

definition upsert_book :: "account_id \<Rightarrow> order \<Rightarrow> amount \<Rightarrow> book \<Rightarrow> book" where
  "upsert_book aid o' a b =
     (if contains_order (order_uuid o') b then update_order aid o' a b else add_order aid o' a b)"

definition upsert_order ::
    "account_id \<Rightarrow> order \<Rightarrow> amount \<Rightarrow> matching_pool_name \<Rightarrow> matching_engine \<Rightarrow> matching_engine" where
  "upsert_order aid o' a pool e =
     (let p = order_pair o';
          b = unwrap_or book_new (book_map e (p, pool));
          e = e\<lparr>book_map := (book_map e)((p, pool) \<mapsto> upsert_book aid o' a b)\<rparr>;
          all_b = unwrap_or book_new (all_pools_book e p)
      in e\<lparr>all_pools_book := (all_pools_book e)(p \<mapsto> upsert_book aid o' a all_b)\<rparr>)"

definition cancel_order :: "order \<Rightarrow> matching_pool_name \<Rightarrow> matching_engine \<Rightarrow> matching_engine" where
  "cancel_order o' pool e =
     (let p = order_pair o';
          e = (case book_map e (p, pool) of
                 Some b \<Rightarrow> e\<lparr>book_map := (book_map e)((p, pool) \<mapsto> remove_order (order_uuid o') b)\<rparr>
               | None \<Rightarrow> e)
      in (case all_pools_book e p of
            Some b \<Rightarrow> e\<lparr>all_pools_book := (all_pools_book e)(p \<mapsto> remove_order (order_uuid o') b)\<rparr>
          | None \<Rightarrow> e))"

definition engine_update_order ::
    "account_id \<Rightarrow> order \<Rightarrow> amount \<Rightarrow> matching_pool_name \<Rightarrow> matching_engine \<Rightarrow> matching_engine" where
  "engine_update_order aid o' a pool e =
     (let p = order_pair o';
          e = (case book_map e (p, pool) of
                 Some b \<Rightarrow> e\<lparr>book_map := (book_map e)((p, pool) \<mapsto> update_order aid o' a b)\<rparr>
               | None \<Rightarrow> e)
      in (case all_pools_book e p of
            Some b \<Rightarrow> e\<lparr>all_pools_book := (all_pools_book e)(p \<mapsto> update_order aid o' a b)\<rparr>
          | None \<Rightarrow> e))"

definition reserve_order ::
    "order \<Rightarrow> amount \<Rightarrow> matching_pool_name \<Rightarrow> matching_engine \<Rightarrow> matching_engine" where
  "reserve_order o' a pool e =
     (let p = order_pair o';
          e = (case book_map e (p, pool) of
                 Some b \<Rightarrow> e\<lparr>book_map := (book_map e)((p, pool) \<mapsto> snd (reserve (order_uuid o') a b))\<rparr>
               | None \<Rightarrow> e)
      in (case all_pools_book e p of
            Some b \<Rightarrow> e\<lparr>all_pools_book := (all_pools_book e)(p \<mapsto> snd (reserve (order_uuid o') a b))\<rparr>
          | None \<Rightarrow> e))"

definition get_liquidity_for_pair :: "pair \<Rightarrow> matching_engine \<Rightarrow> amount \<times> amount" where
  "get_liquidity_for_pair p e =
     (let sell_amount = unwrap_or 0 (map_option total_matchable_amount (all_pools_book e p));
          buy_pair = pair_reverse p;
          buy_amount = unwrap_or 0 (map_option total_matchable_amount (all_pools_book e buy_pair))
      in (buy_amount, sell_amount))"

definition input_range_to_output_range :: "amount_range \<Rightarrow> fixed_point \<Rightarrow> amount_range" where
  "input_range_to_output_range input_range price =
     (let start = floor_mul_int price (fst input_range);
          end' = floor_mul_int price (snd input_range)
      in (scalar_to_u128 start, scalar_to_u128 end'))"

definition build_match_result ::
    "pair \<Rightarrow> ts_price \<Rightarrow> order_id \<Rightarrow> amount \<Rightarrow> amount_range \<Rightarrow> successful_match option" where
  "build_match_result input_pair ts counterparty_oid counterparty_input_amount bounds =
     (case fp_inverse (ts_price_fp ts) of
        None \<Rightarrow> None
      | Some counterparty_price \<Rightarrow>
          (let input_amount =
                 scalar_to_u128 (floor_mul_int counterparty_price counterparty_input_amount);
               obligation1 =
                 \<lparr>input_token = pair_in input_pair, output_token = pair_out input_pair,
                  ob_amount_in = input_amount, ob_amount_out = counterparty_input_amount\<rparr>;
               obligation2 =
                 \<lparr>input_token = pair_out input_pair, output_token = pair_in input_pair,
                  ob_amount_in = counterparty_input_amount, ob_amount_out = input_amount\<rparr>
           in Some \<lparr>other_order_id = counterparty_oid, match_price = ts,
                    the_match_result = match_result_new obligation1 obligation2,
                    matchable_amount_bounds = bounds\<rparr>))"

text \<open>The reservation of a found match: first in the pool's book, then in the book over all pools.\<close>

definition reserve_match ::
    "pair \<Rightarrow> matching_pool_name \<Rightarrow> order_id \<Rightarrow> amount \<Rightarrow> book \<Rightarrow> matching_engine \<Rightarrow> matching_engine" where
  "reserve_match counterparty_pair pool oid a b e =
     (let e = e\<lparr>book_map := (book_map e)((counterparty_pair, pool) \<mapsto> snd (reserve oid a b))\<rparr>
      in (case all_pools_book e counterparty_pair of
            Some all_b \<Rightarrow>
              e\<lparr>all_pools_book := (all_pools_book e)(counterparty_pair \<mapsto> snd (reserve oid a all_b))\<rparr>
          | None \<Rightarrow> e))"

definition find_match_helper ::
    "account_id \<Rightarrow> privacy_ring \<Rightarrow> pair \<Rightarrow> amount_range \<Rightarrow> matching_pool_name \<Rightarrow> ts_price \<Rightarrow> bool \<Rightarrow>
     matching_engine \<Rightarrow> (successful_match option \<times> matching_engine) option" where
  "find_match_helper excl rg input_pair input_range pool ts require_ext e =
     (let price = ts_price_fp ts;
          counterparty_pair = pair_reverse input_pair
      in case fp_inverse price of
           None \<Rightarrow> Some (None, e)
         | Some counterparty_price \<Rightarrow>
             (let output_range = input_range_to_output_range input_range price in
              case book_map e (counterparty_pair, pool) of
                None \<Rightarrow> Some (None, e)
              | Some b \<Rightarrow>
                  (case find_match excl rg counterparty_price output_range require_ext b of
                     None \<Rightarrow> None
                   | Some None \<Rightarrow> Some (None, e)
                   | Some (Some (oid, a, bounds)) \<Rightarrow>
                       (let e = (if \<not> require_ext then reserve_match counterparty_pair pool oid a b e else e)
                        in Some (build_match_result input_pair ts oid a bounds, e)))))"

definition engine_find_match ::
    "account_id \<Rightarrow> privacy_ring \<Rightarrow> pair \<Rightarrow> amount_range \<Rightarrow> matching_pool_name \<Rightarrow> ts_price \<Rightarrow>
     matching_engine \<Rightarrow> (successful_match option \<times> matching_engine) option" where
  "engine_find_match excl rg input_pair input_range pool ts e =
     find_match_helper excl rg input_pair input_range pool ts False e"

definition find_match_external ::
    "privacy_ring \<Rightarrow> pair \<Rightarrow> amount_range \<Rightarrow> matching_pool_name \<Rightarrow> ts_price \<Rightarrow>
     matching_engine \<Rightarrow> (successful_match option \<times> matching_engine) option" where
  "find_match_external rg input_pair input_range pool ts e =
     find_match_helper 0 rg input_pair input_range pool ts True e"

definition find_match_external_all_pools ::
    "privacy_ring \<Rightarrow> pair \<Rightarrow> amount_range \<Rightarrow> ts_price \<Rightarrow> matching_engine \<Rightarrow>
     successful_match option option" where
  "find_match_external_all_pools rg input_pair input_range ts e =
     (let price = ts_price_fp ts;
          counterparty_pair = pair_reverse input_pair
      in case fp_inverse price of
           None \<Rightarrow> Some None
         | Some counterparty_price \<Rightarrow>
             (let output_range = input_range_to_output_range input_range price in
              case all_pools_book e counterparty_pair of
                None \<Rightarrow> Some None
              | Some b \<Rightarrow>
                  (case find_match 0 rg counterparty_price output_range True b of
                     None \<Rightarrow> None
                   | Some None \<Rightarrow> Some None
                   | Some (Some (oid, a, bounds)) \<Rightarrow>
                       Some (build_match_result input_pair ts oid a bounds))))"

section \<open>The two views\<close>

definition pool_lookup :: "matching_engine \<Rightarrow> pair \<Rightarrow> matching_pool_name \<Rightarrow> order_id \<rightharpoonup> book_order" where
  "pool_lookup e p pool oid = Option.bind (book_map e (p, pool)) (\<lambda>b. order_map b oid)"

definition all_lookup :: "matching_engine \<Rightarrow> pair \<Rightarrow> order_id \<rightharpoonup> book_order" where
  "all_lookup e p oid = Option.bind (all_pools_book e p) (\<lambda>b. order_map b oid)"

definition books_ok :: "matching_engine \<Rightarrow> bool" where
  "books_ok e \<longleftrightarrow>
     (\<forall>k b. book_map e k = Some b \<longrightarrow> book_ok b) \<and> (\<forall>p b. all_pools_book e p = Some b \<longrightarrow> book_ok b) \<and>
     (\<forall>p pool b. book_map e (p, pool) = Some b \<longrightarrow> all_pools_book e p \<noteq> None)"

definition views_agree :: "(order_id \<Rightarrow> matching_pool_name) \<Rightarrow> matching_engine \<Rightarrow> bool" where
  "views_agree pool_of e \<longleftrightarrow>
     (\<forall>p pool oid. pool_lookup e p pool oid =
        (if pool = pool_of oid then all_lookup e p oid else None))"

definition engine_ok :: "(order_id \<Rightarrow> matching_pool_name) \<Rightarrow> matching_engine \<Rightarrow> bool" where
  "engine_ok pool_of e \<longleftrightarrow> books_ok e \<and> views_agree pool_of e"

lemmas view_defs = pool_lookup_def all_lookup_def

lemma upsert_book_map:
  "order_map (upsert_book aid o' a b) = (order_map b)(order_uuid o' \<mapsto> book_order_new aid o' a)"
  by (simp add: upsert_book_def bk.lookup_add bk.lookup_update)

lemma upsert_book_ok: "book_ok b \<Longrightarrow> book_ok (upsert_book aid o' a b)"
  by (auto simp: upsert_book_def contains_order_def bk.ok_add bk.ok_update)

text \<open>What a reservation does to the details of the order it finds.\<close>

definition reserved_order :: "amount \<Rightarrow> book_order \<Rightarrow> book_order" where
  "reserved_order a bo = bo\<lparr>matchable_amount := matchable_amount bo - min a (matchable_amount bo)\<rparr>"

lemma reserve_lookup:
  "order_map (snd (reserve oid a b)) oid' =
     (if oid' = oid then map_option (reserved_order a) (order_map b oid) else order_map b oid')"
  by (simp add: bk.lookup_reserve reserved_order_def split: option.splits)

text \<open>An update of one order in both views, by the same function, keeps them in agreement.\<close>

definition updates_at ::
    "(book_order option \<Rightarrow> book_order option) \<Rightarrow> pair \<Rightarrow> matching_pool_name \<Rightarrow> order_id \<Rightarrow>
     matching_engine \<Rightarrow> matching_engine \<Rightarrow> bool" where
  "updates_at f p pool oid e e' \<longleftrightarrow>
     (\<forall>p' pl o'. pool_lookup e' p' pl o' =
        (if p' = p \<and> pl = pool \<and> o' = oid then f (pool_lookup e p pool oid) else pool_lookup e p' pl o')) \<and>
     (\<forall>p' o'. all_lookup e' p' o' =
        (if p' = p \<and> o' = oid then f (all_lookup e p oid) else all_lookup e p' o'))"

lemma updates_at_agree:
  assumes "updates_at f p pool oid e e'" and "pool = pf oid" and "views_agree pf e"
  shows "views_agree pf e'"
  using assms by (auto simp: updates_at_def views_agree_def)

lemma upsert_updates_at:
  "updates_at (\<lambda>_. Some (book_order_new aid o' a)) (order_pair o') pool (order_uuid o') e
     (upsert_order aid o' a pool e)"
  by (simp add: updates_at_def view_defs upsert_order_def Let_def upsert_book_map bk.lookup_empty
      unwrap_or_def split: option.splits)

lemma cancel_updates_at:
  "updates_at (\<lambda>_. None) (order_pair o') pool (order_uuid o') e (cancel_order o' pool e)"
  by (simp add: updates_at_def view_defs cancel_order_def Let_def bk.lookup_remove
      split: option.splits)

lemma update_updates_at:
  assumes "books_ok e" and "book_map e (order_pair o', pool) \<noteq> None"
  shows "updates_at (\<lambda>_. Some (book_order_new aid o' a)) (order_pair o') pool (order_uuid o') e
     (engine_update_order aid o' a pool e)"
proof -
  have "all_pools_book e (order_pair o') \<noteq> None" using assms unfolding books_ok_def by blast
  then show ?thesis
    using assms(2)
    by (auto simp: updates_at_def view_defs engine_update_order_def Let_def bk.lookup_update)
qed

lemma reserve_updates_at:
  "updates_at (map_option (reserved_order a)) (order_pair o') pool (order_uuid o') e
     (reserve_order o' a pool e)"
  by (simp add: updates_at_def view_defs reserve_order_def Let_def reserve_lookup
      split: option.splits)

lemma reserve_match_updates_at:
  assumes "book_map e (p, pool) = Some b"
  shows "updates_at (map_option (reserved_order a)) p pool oid e (reserve_match p pool oid a b e)"
  using assms
  by (simp add: updates_at_def view_defs reserve_match_def Let_def reserve_lookup
      split: option.splits)

text \<open>Every operation keeps the books themselves consistent.\<close>

lemma books_ok_book: "books_ok e \<Longrightarrow> book_map e k = Some b \<Longrightarrow> book_ok b"
  unfolding books_ok_def by blast

lemma books_ok_all: "books_ok e \<Longrightarrow> all_pools_book e p = Some b \<Longrightarrow> book_ok b"
  unfolding books_ok_def by blast

lemma books_ok_pool_all: "books_ok e \<Longrightarrow> book_map e (p, pool) = Some b \<Longrightarrow> all_pools_book e p \<noteq> None"
  unfolding books_ok_def by blast

text \<open>
  Cancellations, updates and reservations all modify the book of the pool and the book over
  all pools by the same function, where these books exist.
\<close>

definition modify_books :: "pair \<Rightarrow> matching_pool_name \<Rightarrow> (book \<Rightarrow> book) \<Rightarrow> matching_engine \<Rightarrow> matching_engine" where
  "modify_books p pool f e =
     e\<lparr>book_map := (book_map e)((p, pool) := map_option f (book_map e (p, pool))),
       all_pools_book := (all_pools_book e)(p := map_option f (all_pools_book e p))\<rparr>"

lemma books_ok_modify:
  assumes "books_ok e" and "\<And>b. book_ok b \<Longrightarrow> book_ok (f b)"
  shows "books_ok (modify_books p pool f e)"
  using assms by (simp add: books_ok_def modify_books_def del: not_None_eq) force

lemma modify_books_eq:
  "cancel_order o' pool e = modify_books (order_pair o') pool (remove_order (order_uuid o')) e"
  "engine_update_order aid o' a pool e = modify_books (order_pair o') pool (update_order aid o' a) e"
  "reserve_order o' a pool e =
     modify_books (order_pair o') pool (\<lambda>b. snd (reserve (order_uuid o') a b)) e"
  "book_map e (p, pool) = Some b \<Longrightarrow>
   reserve_match p pool oid a b e = modify_books p pool (\<lambda>b. snd (reserve oid a b)) e"
  by (cases "book_map e (order_pair o', pool)"; cases "all_pools_book e (order_pair o')";
      cases "all_pools_book e p";
      simp add: cancel_order_def engine_update_order_def reserve_order_def reserve_match_def
        modify_books_def Let_def fun_upd_idem)+

lemma books_ok_upsert: "books_ok e \<Longrightarrow> books_ok (upsert_order aid o' a pool e)"
proof -
  assume e: "books_ok e"
  let ?p = "order_pair o'"
  let ?b = "unwrap_or book_new (book_map e (?p, pool))" and ?ab = "unwrap_or book_new (all_pools_book e ?p)"
  have "book_ok ?b" "book_ok ?ab"
    using books_ok_book [OF e] books_ok_all [OF e] by (auto simp: unwrap_or_def bk.ok_empty split: option.splits)
  then have "book_ok (upsert_book aid o' a ?b)" "book_ok (upsert_book aid o' a ?ab)"
    by (simp_all add: upsert_book_ok)
  with e show ?thesis
    by (simp add: upsert_order_def Let_def books_ok_def del: not_None_eq)
qed

lemma books_ok_ops:
  assumes "books_ok e"
  shows "books_ok (cancel_order o' pool e)" and "books_ok (engine_update_order aid o' a pool e)"
    and "books_ok (reserve_order o' a pool e)"
  unfolding modify_books_eq
  by (rule books_ok_modify [OF assms], simp add: bk.ok_remove bk.ok_update bk.ok_reserve)+

lemma books_ok_reserve_match:
  "books_ok e \<Longrightarrow> book_map e (p, pool) = Some b \<Longrightarrow> books_ok (reserve_match p pool oid a b e)"
  by (simp add: modify_books_eq books_ok_modify bk.ok_reserve)

section \<open>Queries\<close>

text \<open>
  A query on consistent books either finds nothing and leaves the engine alone, or finds a
  counterparty, builds the match and, on the internal path, reserves the matched amount.
\<close>

lemma find_match_helper_cases:
  assumes "books_ok e"
  obtains
    (no_match) "find_match_helper excl rg ip rng pool ts ext e = Some (None, e)"
  | (found) cp b oid a bounds m where
      "fp_inverse (ts_price_fp ts) = Some cp"
      "book_map e (pair_reverse ip, pool) = Some b" "book_ok b"
      "find_match excl rg cp (input_range_to_output_range rng (ts_price_fp ts)) ext b =
         Some (Some (oid, a, bounds))"
      "build_match_result ip ts oid a bounds = Some m"
      "find_match_helper excl rg ip rng pool ts ext e =
         Some (Some m, if ext then e else reserve_match (pair_reverse ip) pool oid a b e)"
proof (cases "fp_inverse (ts_price_fp ts)")
  case None
  then show ?thesis using no_match by (simp add: find_match_helper_def)
next
  case cp: (Some cp)
  show ?thesis
  proof (cases "book_map e (pair_reverse ip, pool)")
    case None
    then show ?thesis using no_match cp by (simp add: find_match_helper_def)
  next
    case b: (Some b)
    have ok: "book_ok b" using books_ok_book [OF assms b] .
    obtain res where res: "find_match excl rg cp (input_range_to_output_range rng (ts_price_fp ts)) ext b = Some res"
      using bk.find_total [OF ok] by blast
    show ?thesis
    proof (cases res)
      case None
      then show ?thesis using no_match cp b res by (simp add: find_match_helper_def)
    next
      case (Some r)
      obtain oid a bounds where r: "r = (oid, a, bounds)" by (cases r) auto
      obtain m where "build_match_result ip ts oid a bounds = Some m"
        using cp by (simp add: build_match_result_def Let_def)
      then show ?thesis
        using found [OF cp b ok _ _ ] cp b res Some r by (simp add: find_match_helper_def Let_def)
    qed
  qed
qed

lemma all_pools_cases:
  assumes "books_ok e"
  obtains
    (no_match) "find_match_external_all_pools rg ip rng ts e = Some None"
      "fp_inverse (ts_price_fp ts) = None \<or>
       (\<exists>cp. fp_inverse (ts_price_fp ts) = Some cp \<and>
          (\<forall>bo \<in> ran (all_lookup e (pair_reverse ip)).
             \<not> eligible 0 rg cp (input_range_to_output_range rng (ts_price_fp ts)) True bo))"
  | (found) cp b oid a bounds m where
      "fp_inverse (ts_price_fp ts) = Some cp"
      "all_pools_book e (pair_reverse ip) = Some b" "book_ok b"
      "find_match 0 rg cp (input_range_to_output_range rng (ts_price_fp ts)) True b =
         Some (Some (oid, a, bounds))"
      "build_match_result ip ts oid a bounds = Some m"
      "find_match_external_all_pools rg ip rng ts e = Some (Some m)"
proof (cases "fp_inverse (ts_price_fp ts)")
  case None
  then show ?thesis using no_match by (simp add: find_match_external_all_pools_def)
next
  case cp: (Some cp)
  show ?thesis
  proof (cases "all_pools_book e (pair_reverse ip)")
    case None
    then show ?thesis
      using no_match cp by (simp add: find_match_external_all_pools_def all_lookup_def ran_def)
  next
    case b: (Some b)
    have ok: "book_ok b" using books_ok_all [OF assms b] .
    have l: "all_lookup e (pair_reverse ip) = order_map b" using b by (simp add: all_lookup_def fun_eq_iff)
    obtain res where res: "find_match 0 rg cp (input_range_to_output_range rng (ts_price_fp ts)) True b = Some res"
      using bk.find_total [OF ok] by blast
    show ?thesis
    proof (cases res)
      case None
      then show ?thesis
        using no_match cp b res bk.find_None_iff [OF ok] l
        by (simp add: find_match_external_all_pools_def)
    next
      case (Some r)
      obtain oid a bounds where r: "r = (oid, a, bounds)" by (cases r) auto
      obtain m where "build_match_result ip ts oid a bounds = Some m"
        using cp by (simp add: build_match_result_def Let_def)
      then show ?thesis
        using found [OF cp b ok] cp b res Some r
        by (simp add: find_match_external_all_pools_def Let_def)
    qed
  qed
qed

lemma match_found_lookup:
  assumes "book_ok b" and "find_match excl rg price rng ext b = Some (Some (oid, a, bounds))"
  obtains bo where "order_map b oid = Some bo" "eligible excl rg price rng ext bo"
    "a = min (matchable_amount bo) (snd rng)" "bounds = (bo_min_fill_size bo, matchable_amount bo)"
    "\<And>oid' bo'. order_map b oid' = Some bo' \<Longrightarrow> eligible excl rg price rng ext bo' \<Longrightarrow> preferred oid bo oid' bo'"
  using match_spec_SomeE [OF bk.find_matches [OF assms]] by (metis prod.inject)

section \<open>The engine as a state machine\<close>

text \<open>
  The calls on the engine, with any arguments: \<open>engine_exec\<close> is the engine after the call, and
  None where the call panics. The engine itself rejects none of them.
\<close>

datatype engine_action =
    EngUpsert account_id order amount matching_pool_name
  | EngCancel order matching_pool_name
  | EngUpdate account_id order amount matching_pool_name
  | EngReserve order amount matching_pool_name
  | EngFind account_id privacy_ring pair amount_range matching_pool_name ts_price bool

fun engine_exec :: "engine_action \<Rightarrow> matching_engine \<Rightarrow> matching_engine option" where
  "engine_exec (EngUpsert aid o' a pool) e = Some (upsert_order aid o' a pool e)"
| "engine_exec (EngCancel o' pool) e = Some (cancel_order o' pool e)"
| "engine_exec (EngUpdate aid o' a pool) e = Some (engine_update_order aid o' a pool e)"
| "engine_exec (EngReserve o' a pool) e = Some (reserve_order o' a pool e)"
| "engine_exec (EngFind excl rg ip rng pool ts ext) e =
     map_option snd (find_match_helper excl rg ip rng pool ts ext e)"

definition engine_call :: "matching_engine \<Rightarrow> matching_engine \<Rightarrow> bool" where
  "engine_call e e' \<longleftrightarrow> (\<exists>act. engine_exec act e = Some e')"

lemma books_ok_call: "engine_call e e' \<Longrightarrow> books_ok e \<Longrightarrow> books_ok e'"
proof -
  assume ok: "books_ok e" and "engine_call e e'"
  then obtain act where act: "engine_exec act e = Some e'" by (auto simp: engine_call_def)
  show "books_ok e'"
  proof (cases act)
    case (EngFind excl rg ip rng pool ts ext)
    from ok show ?thesis
      by (cases rule: find_match_helper_cases [where excl = excl and rg = rg and ip = ip and rng = rng
            and pool = pool and ts = ts and ext = ext])
        (use ok act EngFind in \<open>auto simp: books_ok_reserve_match split: if_splits\<close>)
  qed (use ok act books_ok_ops [OF ok] books_ok_upsert [OF ok] in auto)
qed

interpretation engine_calls: invariant_system "\<lambda>e. e = engine_new" engine_call books_ok
proof unfold_locales
  show "books_ok e" if "e = engine_new" for e
    using that by (simp add: engine_new_def books_ok_def)
qed (rule books_ok_call)

text \<open>
  The two views of an order agree only under a discipline the engine does not check, and which
  \<open>engine_orderly\<close> names: every call for an order gives the pool the order is assigned to, and an
  order is updated only where its pool already has a book for its pair (on a missing pool book
  \<open>engine_update_order\<close> still writes the book over all pools). The state adds the assignment of
  orders to pools. Moving an order to another pool cancels it in its old one, and the order must not
  be booked under another pair.
\<close>

record engine_state =
  eng :: matching_engine
  pool_of :: "order_id \<Rightarrow> matching_pool_name"

fun engine_orderly :: "(order_id \<Rightarrow> matching_pool_name) \<Rightarrow> engine_action \<Rightarrow> matching_engine \<Rightarrow> bool" where
  "engine_orderly pf (EngUpsert aid o' a pool) e = (pool = pf (order_uuid o'))"
| "engine_orderly pf (EngCancel o' pool) e = (pool = pf (order_uuid o'))"
| "engine_orderly pf (EngUpdate aid o' a pool) e =
     (pool = pf (order_uuid o') \<and> book_map e (order_pair o', pool) \<noteq> None)"
| "engine_orderly pf (EngReserve o' a pool) e = (pool = pf (order_uuid o'))"
| "engine_orderly pf (EngFind excl rg ip rng pool ts ext) e = True"

definition engine_init :: "engine_state \<Rightarrow> bool" where
  "engine_init s \<longleftrightarrow> eng s = engine_new"

inductive engine_step :: "engine_state \<Rightarrow> engine_state \<Rightarrow> bool" where
  eng_act:
    "engine_orderly (pool_of s) act (eng s) \<Longrightarrow> engine_exec act (eng s) = Some e' \<Longrightarrow>
     engine_step s (s\<lparr>eng := e'\<rparr>)"
| eng_move:
    "\<forall>p. p \<noteq> order_pair o' \<longrightarrow> all_lookup (eng s) p (order_uuid o') = None \<Longrightarrow>
     engine_step s (s\<lparr>eng := cancel_order o' (pool_of s (order_uuid o')) (eng s),
       pool_of := (pool_of s)(order_uuid o' := pool)\<rparr>)"

definition engine_inv :: "engine_state \<Rightarrow> bool" where
  "engine_inv s \<longleftrightarrow> engine_ok (pool_of s) (eng s)"

lemma engine_ok_ops:
  assumes "engine_ok pf e"
  shows "engine_ok pf (upsert_order aid o' a (pf (order_uuid o')) e)"
    and "engine_ok pf (cancel_order o' (pf (order_uuid o')) e)"
    and "book_map e (order_pair o', pf (order_uuid o')) \<noteq> None \<Longrightarrow>
      engine_ok pf (engine_update_order aid o' a (pf (order_uuid o')) e)"
    and "engine_ok pf (reserve_order o' a (pf (order_uuid o')) e)"
proof -
  have ok: "books_ok e" and agree: "views_agree pf e" using assms by (simp_all add: engine_ok_def)
  show "engine_ok pf (upsert_order aid o' a (pf (order_uuid o')) e)"
    using books_ok_upsert [OF ok] updates_at_agree [OF upsert_updates_at _ agree]
    by (simp add: engine_ok_def)
  show "engine_ok pf (cancel_order o' (pf (order_uuid o')) e)"
    using books_ok_ops(1) [OF ok] updates_at_agree [OF cancel_updates_at _ agree]
    by (simp add: engine_ok_def)
  show "engine_ok pf (engine_update_order aid o' a (pf (order_uuid o')) e)"
    if "book_map e (order_pair o', pf (order_uuid o')) \<noteq> None"
    using books_ok_ops(2) [OF ok] updates_at_agree [OF update_updates_at [OF ok that] _ agree]
    by (simp add: engine_ok_def)
  show "engine_ok pf (reserve_order o' a (pf (order_uuid o')) e)"
    using books_ok_ops(3) [OF ok] updates_at_agree [OF reserve_updates_at _ agree]
    by (simp add: engine_ok_def)
qed

lemma engine_ok_find:
  assumes "engine_ok pf e" and "find_match_helper excl rg ip rng pool ts ext e = Some (r, e')"
  shows "engine_ok pf e'"
proof -
  have ok: "books_ok e" and agree: "views_agree pf e" using assms(1) by (simp_all add: engine_ok_def)
  show ?thesis
    using ok
  proof (cases rule: find_match_helper_cases [where excl = excl and rg = rg and ip = ip and rng = rng
      and pool = pool and ts = ts and ext = ext])
    case no_match
    then show ?thesis using assms by simp
  next
    case (found cp b oid a bounds m)
    obtain bo where "order_map b oid = Some bo"
      using match_found_lookup [OF found(3,4)] by blast
    then have "pool_lookup e (pair_reverse ip) pool oid \<noteq> None"
      using found(2) by (simp add: pool_lookup_def)
    then have "pool = pf oid"
      using agree by (auto simp: views_agree_def split: if_splits)
    then have "engine_ok pf (reserve_match (pair_reverse ip) pool oid a b e)"
      using books_ok_reserve_match [OF ok found(2)]
        updates_at_agree [OF reserve_match_updates_at [OF found(2)] _ agree]
      by (simp add: engine_ok_def)
    then show ?thesis
      using assms found(6) by (cases ext) simp_all
  qed
qed

lemma engine_ok_move:
  assumes "engine_ok pf e" and "\<forall>p. p \<noteq> order_pair o' \<longrightarrow> all_lookup e p (order_uuid o') = None"
  shows "engine_ok (pf(order_uuid o' := pool)) (cancel_order o' (pf (order_uuid o')) e)"
proof -
  let ?e = "cancel_order o' (pf (order_uuid o')) e" and ?oid = "order_uuid o'"
  have u: "updates_at (\<lambda>_. None) (order_pair o') (pf ?oid) ?oid e ?e"
    by (rule cancel_updates_at)
  have a: "views_agree pf ?e"
    using assms(1) engine_ok_ops(2) by (simp add: engine_ok_def)
  have "all_lookup ?e p ?oid = None" for p
    using u assms(2) by (cases "p = order_pair o'") (auto simp: updates_at_def)
  then have "views_agree (pf(?oid := pool)) ?e"
    using a by (auto simp: views_agree_def)
  then show ?thesis
    using books_ok_ops(1) assms(1) by (auto simp: engine_ok_def)
qed

lemma engine_ok_exec:
  assumes "engine_ok pf e" and "engine_orderly pf act e" and "engine_exec act e = Some e'"
  shows "engine_ok pf e'"
  using assms by (cases act) (auto simp: engine_ok_ops engine_ok_find)

lemma engine_inv_step: "engine_step s t \<Longrightarrow> engine_inv s \<Longrightarrow> engine_inv t"
  by (induction rule: engine_step.induct)
    (simp_all add: engine_inv_def engine_ok_exec engine_ok_move)

interpretation engine_sys: invariant_system engine_init engine_step engine_inv
proof unfold_locales
  show "engine_inv s" if "engine_init s" for s
    using that
    by (simp add: engine_init_def engine_inv_def engine_ok_def engine_new_def books_ok_def
        views_agree_def pool_lookup_def all_lookup_def)
qed (rule engine_inv_step)

section \<open>Properties\<close>


text \<open>An engine with one order: 30 units of token 1 for token 2, in pool \<open>global\<close>.\<close>

definition example_engine :: matching_engine where
  "example_engine = upsert_order 5 example_order 30 ''global'' engine_new"

definition example_price :: ts_price where
  "example_price = \<lparr>ts_price_fp = fp_one, ts_timestamp = 0\<rparr>"

lemma example_engine_books:
  "book_map example_engine (pair_new 1 2, ''global'') = Some example_book"
  "all_pools_book example_engine (pair_new 1 2) = Some example_book"
  by (simp_all add: example_engine_def upsert_order_def Let_def engine_new_def upsert_book_def
      contains_order_def book_new_map order_pair_def example_order_def order_new_with_ring_def
      example_defs example_book_def update_order_def remove_order_def)

lemma example_engine_reachable:
  "reachable engine_init engine_step \<lparr>eng = example_engine, pool_of = \<lambda>_. ''global''\<rparr>"
proof (rule reach_step)
  let ?i = "\<lparr>eng = engine_new, pool_of = \<lambda>_. ''global''\<rparr>"
  show "reachable engine_init engine_step ?i"
    by (rule reach_init) (simp add: engine_init_def)
  show "engine_step ?i \<lparr>eng = example_engine, pool_of = \<lambda>_. ''global''\<rparr>"
    using eng_act [of ?i "EngUpsert 5 example_order 30 ''global''"]
    by (simp add: example_engine_def)
qed

lemma example_engine_called: "reachable (\<lambda>e. e = engine_new) engine_call example_engine"
proof (rule reach_step)
  show "reachable (\<lambda>e. e = engine_new) engine_call engine_new"
    by (rule reach_init) simp
  show "engine_call engine_new example_engine"
    unfolding engine_call_def example_engine_def
    by (rule exI [of _ "EngUpsert 5 example_order 30 ''global''"]) simp
qed

lemma example_range: "input_range_to_output_range rng fp_one = rng"
  by (simp add: input_range_to_output_range_def floor_mul_int_one)

lemma example_engine_find:
  "\<exists>m e'. find_match_helper 6 Ring1 (pair_new 2 1) (1, 20) ''global'' example_price ext example_engine =
     Some (Some m, e') \<and> build_match_result (pair_new 2 1) example_price 21 20 (10, 30) = Some m"
  using example_engine_books(1)
  by (simp add: find_match_helper_def example_price_def fp_inverse_one example_range example_book_find
      pair_reverse_def pair_new_def build_match_result_def Let_def)


lemma range_start_floor:
  assumes "validate_price_bitlength x" and "validate_amount_bitlength a"
    and "scalar_to_u128 (floor_mul_int x a) \<le> t"
    and "scalar_to_biguint (floor_mul_int x a) < 2 ^ 128"
  shows "scalar_to_biguint (repr x) * unat a < (unat t + 1) * TWO_TO_M"
proof -
  have "scalar_to_biguint (repr x) * unat a div TWO_TO_M \<le> unat t"
    using assms(3,4) floor_mul_int_exact [OF price_amount_no_wrap [OF assms(1,2)]]
    by (simp add: word_le_nat_alt unat_scalar_to_u128)
  then have "scalar_to_biguint (repr x) * unat a div TWO_TO_M < unat t + 1" by linarith
  then show ?thesis by (simp only: div_less_iff_less_mult TWO_TO_M_pos)
qed



text \<open>
  The conversions round down twice, so the input party may pay less than the start of its range:
  at a price of 3 the range 10 to 10 becomes 30 to 30, and a fill of 30 is charged 9.
\<close>

definition price_three :: ts_price where
  "price_three = \<lparr>ts_price_fp = FixedPoint (biguint_to_scalar (3 * 2 ^ 63)), ts_timestamp = 0\<rparr>"

lemma price_three_repr: "scalar_to_biguint (repr (ts_price_fp price_three)) = 3 * 2 ^ 63"
  by (simp add: price_three_def scalar_to_biguint_to_scalar scalar_modulus_def)

theorem match_below_range_start:
  "input_range_to_output_range (10, 10) (ts_price_fp price_three) = (30, 30) \<and>
   (\<exists>m. build_match_result ip price_three oid 30 bounds = Some m \<and>
      ob_amount_in (party0_obligation (the_match_result m)) = 9)"
proof -
  let ?x = "ts_price_fp price_three"
  have "scalar_to_biguint (floor_mul_int ?x 10) = 30"
    using floor_mul_int_exact [of ?x 10] by (simp add: price_three_repr scalar_modulus_def fp_consts)
  then have range: "input_range_to_output_range (10, 10) ?x = (30, 30)"
    by (simp add: input_range_to_output_range_def Let_def word_unat_eq_iff unat_scalar_to_u128)
  have "repr ?x \<noteq> 0" using price_three_repr by (auto simp: scalar_eq_iff)
  then obtain y where y: "fp_inverse ?x = Some y" by (simp add: fp_inverse_def)
  have "scalar_to_biguint (repr y) = 2 ^ 126 div (3 * 2 ^ 63)"
    using inverse_repr [OF y] by (simp add: price_three_repr fp_consts)
  then have "scalar_to_biguint (floor_mul_int y 30) = 9"
    using floor_mul_int_exact [of y 30] by (simp add: scalar_modulus_def fp_consts)
  then have "scalar_to_u128 (floor_mul_int y 30) = 9" by (simp add: word_unat_eq_iff unat_scalar_to_u128)
  then show ?thesis
    using range y by (simp add: build_match_result_def match_result_new_def Let_def)
qed

text \<open>
  Searching all pools is never worse than searching one: when an external query finds a
  match in some pool, the query over all pools finds one too, for at least the same amount
  and with a counterparty that has at least as much left to trade.
\<close>

theorem all_pools_at_least_as_good:
  assumes "engine_ok pf e" and "find_match_external rg ip rng pool ts e = Some (Some m, e')"
  shows "e' = e \<and> (\<exists>m'. find_match_external_all_pools rg ip rng ts e = Some (Some m') \<and>
     snd (matchable_amount_bounds m) \<le> snd (matchable_amount_bounds m') \<and>
     ob_amount_in (party1_obligation (the_match_result m)) \<le>
       ob_amount_in (party1_obligation (the_match_result m')))"
proof -
  have ok: "books_ok e" and agree: "views_agree pf e" using assms(1) by (simp_all add: engine_ok_def)
  have h: "find_match_helper 0 rg ip rng pool ts True e = Some (Some m, e')"
    using assms(2) by (simp add: find_match_external_def)
  let ?r = "input_range_to_output_range rng (ts_price_fp ts)"
  from ok obtain cp b oid a bounds where f: "fp_inverse (ts_price_fp ts) = Some cp"
      "book_map e (pair_reverse ip, pool) = Some b" "book_ok b"
      "find_match 0 rg cp ?r True b = Some (Some (oid, a, bounds))"
      "build_match_result ip ts oid a bounds = Some m" "e' = e"
    by (cases rule: find_match_helper_cases [where excl = 0 and rg = rg and ip = ip and rng = rng
          and pool = pool and ts = ts and ext = True]) (use h in auto)
  obtain bo where bo: "order_map b oid = Some bo" "eligible 0 rg cp ?r True bo"
      "a = min (matchable_amount bo) (snd ?r)" "bounds = (bo_min_fill_size bo, matchable_amount bo)"
    using match_found_lookup [OF f(3,4)] by blast
  have "pool_lookup e (pair_reverse ip) pool oid = Some bo"
    using f(2) bo(1) by (simp add: pool_lookup_def)
  then have al: "all_lookup e (pair_reverse ip) oid = Some bo"
    using agree by (auto simp: views_agree_def split: if_splits)
  from ok show ?thesis
  proof (cases rule: all_pools_cases [where rg = rg and ip = ip and rng = rng and ts = ts])
    case no_match
    then show ?thesis using f(1) al bo(2) by (auto simp: ran_def)
  next
    case (found cp' b' oid' a' bounds' m')
    obtain bo' where bo': "order_map b' oid' = Some bo'"
        "a' = min (matchable_amount bo') (snd ?r)" "bounds' = (bo_min_fill_size bo', matchable_amount bo')"
        "\<And>o'' b''. order_map b' o'' = Some b'' \<Longrightarrow> eligible 0 rg cp' ?r True b'' \<Longrightarrow> preferred oid' bo' o'' b''"
      using match_found_lookup [OF found(3,4)] by metis
    have "order_map b' oid = Some bo" using al found(2) by (simp add: all_lookup_def)
    then have "matchable_amount bo \<le> matchable_amount bo'"
      using bo'(4) [of oid bo] bo(2) f(1) found(1) by (auto simp: preferred_def)
    then show ?thesis
      using f(1,5,6) found(1,5,6) bo(3,4) bo'(2,3)
      by (auto simp: build_match_result_def match_result_new_def Let_def min_def)
  qed
qed

theorem all_pools_at_least_as_good_witness:
  "engine_ok (\<lambda>_. ''global'') example_engine \<and>
   (\<exists>m m'. find_match_external Ring1 (pair_new 2 1) (1, 20) ''global'' example_price example_engine =
        Some (Some m, example_engine) \<and>
      find_match_external_all_pools Ring1 (pair_new 2 1) (1, 20) example_price example_engine = Some (Some m'))"
proof -
  have ok: "engine_ok (\<lambda>_. ''global'') example_engine"
    using engine_sys.reachable_inv [OF example_engine_reachable] by (simp add: engine_inv_def)
  have "find_match 0 Ring1 fp_one (1, 20) True example_book = Some (Some (21, 20, (10, 30)))"
    by (simp add: find_match_def example_book_defs try_match_eq eligible_def can_cross_with_table
        example_defs)
  then have "\<exists>m e'. find_match_external Ring1 (pair_new 2 1) (1, 20) ''global'' example_price example_engine =
      Some (Some m, e')"
    using example_engine_books(1)
    by (simp add: find_match_external_def find_match_helper_def example_price_def fp_inverse_one example_range
        pair_reverse_def pair_new_def build_match_result_def Let_def)
  then show ?thesis
    using all_pools_at_least_as_good [OF ok] ok by blast
qed

end
