(* ===== verification/Task_Types.thy ===== *)
theory Task_Types
  imports Matching_Engine
begin

text \<open>
  Tasks of \<open>relayer-types/types-tasks/src\<close>: the descriptors, queued tasks and their
  states, and the historical record of a finished task. The validation of signatures and
  permits is code of the contract bindings; it is an argument of the constructors that call
  it, as is the chain id. The tracing context of a task, which is not stored, is left out.
\<close>

section \<open>Descriptors\<close>

type_synonym task_identifier = uuid
type_synonym task_queue_key = uuid

datatype task_error = DescriptorError string | ValidationError string

record new_account_descriptor =
  na_account_id :: account_id
  na_keychain :: keychain
  na_owner_address :: address

record node_startup_descriptor =
  ns_id :: task_identifier
  gossip_warmup_ms :: u64
  raft_seed :: bool

record deposit_descriptor =
  dep_account_id :: account_id
  dep_from_address :: address
  dep_token :: address
  dep_amount :: amount
  dep_auth :: opaque
  dep_authority :: schnorr_public_key

record create_balance_descriptor =
  cb_account_id :: account_id
  cb_from_address :: address
  cb_token :: address
  cb_amount :: amount
  cb_authority :: schnorr_public_key
  cb_auth :: opaque

record create_order_descriptor =
  co_account_id :: account_id
  co_order_id :: order_id
  co_intent :: intent
  co_ring :: privacy_ring
  co_metadata :: order_metadata
  co_auth :: order_auth
  co_matching_pool :: matching_pool_name

record cancel_order_descriptor =
  cn_account_id :: account_id
  cn_order_id :: order_id
  cn_order_auth :: order_auth
  cancel_signature :: opaque

record refresh_account_descriptor =
  ra_account_id :: account_id
  ra_keychain :: keychain
  additional_tokens :: "address list"

record settle_match_descriptor =
  sm_account_id :: account_id
  sm_other_account_id :: account_id
  sm_order_id :: order_id
  sm_other_order_id :: order_id
  execution_price :: ts_price
  sm_match_result :: match_result

record settle_external_descriptor =
  se_account_id :: account_id
  se_order_id :: order_id
  se_amount_in :: amount
  external_relayer_fee_rate :: fixed_point
  se_match_result :: bounded_match_result
  response_topic :: string
  validity_window_blocks :: u64

record withdraw_descriptor =
  wd_account_id :: account_id
  wd_token :: address
  wd_amount :: amount
  wd_signature :: opaque

datatype task_descriptor =
    NewAccount new_account_descriptor
  | NodeStartup node_startup_descriptor
  | Deposit deposit_descriptor
  | CreateBalance create_balance_descriptor
  | CreateOrder create_order_descriptor
  | CancelOrder cancel_order_descriptor
  | RefreshAccount refresh_account_descriptor
  | SettleInternalMatch settle_match_descriptor
  | SettleExternalMatch settle_external_descriptor
  | SettlePrivateMatch settle_match_descriptor
  | Withdraw withdraw_descriptor

fun queue_key :: "task_descriptor \<Rightarrow> task_queue_key" where
  "queue_key (NewAccount t) = na_account_id t"
| "queue_key (NodeStartup t) = ns_id t"
| "queue_key (Deposit t) = dep_account_id t"
| "queue_key (CreateBalance t) = cb_account_id t"
| "queue_key (CreateOrder t) = co_account_id t"
| "queue_key (CancelOrder t) = cn_account_id t"
| "queue_key (RefreshAccount t) = ra_account_id t"
| "queue_key (SettleInternalMatch t) = sm_account_id t"
| "queue_key (SettleExternalMatch t) = se_account_id t"
| "queue_key (SettlePrivateMatch t) = sm_account_id t"
| "queue_key (Withdraw t) = wd_account_id t"

fun is_yieldable :: "task_descriptor \<Rightarrow> bool" where
  "is_yieldable (CreateOrder _) = True"
| "is_yieldable (CancelOrder _) = True"
| "is_yieldable _ = False"

fun affected_accounts :: "task_descriptor \<Rightarrow> account_id list" where
  "affected_accounts (NewAccount t) = [na_account_id t]"
| "affected_accounts (NodeStartup t) = []"
| "affected_accounts (Deposit t) = [dep_account_id t]"
| "affected_accounts (CreateBalance t) = [cb_account_id t]"
| "affected_accounts (CreateOrder t) = [co_account_id t]"
| "affected_accounts (CancelOrder t) = [cn_account_id t]"
| "affected_accounts (RefreshAccount t) = [ra_account_id t]"
| "affected_accounts (SettleInternalMatch t) = [sm_account_id t, sm_other_account_id t]"
| "affected_accounts (SettleExternalMatch t) = [se_account_id t]"
| "affected_accounts (SettlePrivateMatch t) = [sm_account_id t, sm_other_account_id t]"
| "affected_accounts (Withdraw t) = [wd_account_id t]"

fun is_account_task :: "task_descriptor \<Rightarrow> bool" where
  "is_account_task (NodeStartup _) = False"
| "is_account_task _ = True"

section \<open>Authorizing orders\<close>

text \<open>Public permits, native signatures and Schnorr signatures are validated by other crates.\<close>

definition validate_public_order_auth ::
    "(u64 \<Rightarrow> opaque \<Rightarrow> opaque \<Rightarrow> address \<Rightarrow> string + bool) \<Rightarrow> u64 \<Rightarrow> address \<Rightarrow> opaque \<Rightarrow> opaque \<Rightarrow>
     task_error + unit" where
  "validate_public_order_auth permit_validate chain_id own permit' sig =
     and_then (map_err ValidationError (permit_validate chain_id permit' sig own))
       (\<lambda>valid. if \<not> valid then Inl (ValidationError ''invalid public order auth'') else Inr ())"

definition validate_natively_settled_private_order_auth ::
    "(u8 list \<Rightarrow> u64 \<Rightarrow> opaque \<Rightarrow> address \<Rightarrow> string + bool) \<Rightarrow> u64 \<Rightarrow> address \<Rightarrow> scalar \<Rightarrow> opaque \<Rightarrow>
     task_error + unit" where
  "validate_natively_settled_private_order_auth sig_validate chain_id own commitment sig =
     (let payload = to_be_bytes 32 (unat (scalar_to_u256 commitment)) in
      and_then (map_err ValidationError (sig_validate payload chain_id sig own))
        (\<lambda>valid. if \<not> valid then Inl (ValidationError ''invalid intent signature'') else Inr ()))"

definition validate_renegade_settled_order_auth ::
    "(schnorr_public_key \<Rightarrow> scalar \<Rightarrow> opaque \<Rightarrow> bool) \<Rightarrow> scalar \<Rightarrow> scalar option \<Rightarrow> opaque \<Rightarrow> opaque \<Rightarrow>
     schnorr_public_key \<Rightarrow> task_error + unit" where
  "validate_renegade_settled_order_auth verify commitment new_balance_commitment sig bal_sig auth =
     (if \<not> verify auth commitment sig then Inl (ValidationError ''invalid intent signature'')
      else (case new_balance_commitment of
              Some comm \<Rightarrow>
                if \<not> verify auth comm bal_sig
                then Inl (ValidationError ''invalid new output balance signature'') else Inr ()
            | None \<Rightarrow> Inr ()))"

text \<open>The outer \<open>None\<close> is the panic of an authorization of the wrong kind.\<close>

definition new_ring0 ::
    "(u64 \<Rightarrow> opaque \<Rightarrow> opaque \<Rightarrow> address \<Rightarrow> string + bool) \<Rightarrow> u64 \<Rightarrow> account_id \<Rightarrow> order_id \<Rightarrow> intent \<Rightarrow>
     order_metadata \<Rightarrow> order_auth \<Rightarrow> matching_pool_name \<Rightarrow> (task_error + create_order_descriptor) option" where
  "new_ring0 permit_validate chain_id aid oid i md auth pool =
     map_option (\<lambda>(permit', sig).
         and_then (validate_public_order_auth permit_validate chain_id (owner i) permit' sig)
           (\<lambda>_. Inr \<lparr>co_account_id = aid, co_order_id = oid, co_intent = i, co_ring = Ring0,
                     co_metadata = md, co_auth = auth, co_matching_pool = pool\<rparr>))
       (into_public auth)"

definition new_ring1 ::
    "(u8 list \<Rightarrow> u64 \<Rightarrow> opaque \<Rightarrow> address \<Rightarrow> string + bool) \<Rightarrow> u64 \<Rightarrow> account_id \<Rightarrow> order_id \<Rightarrow> intent \<Rightarrow> scalar \<Rightarrow>
     order_metadata \<Rightarrow> order_auth \<Rightarrow> matching_pool_name \<Rightarrow> (task_error + create_order_descriptor) option" where
  "new_ring1 sig_validate chain_id aid oid i commitment md auth pool =
     map_option (\<lambda>sig.
         and_then (validate_natively_settled_private_order_auth sig_validate chain_id (owner i) commitment sig)
           (\<lambda>_. Inr \<lparr>co_account_id = aid, co_order_id = oid, co_intent = i, co_ring = Ring1,
                     co_metadata = md, co_auth = auth, co_matching_pool = pool\<rparr>))
       (into_natively_settled_private_order auth)"

definition new_ring2 ::
    "(schnorr_public_key \<Rightarrow> scalar \<Rightarrow> opaque \<Rightarrow> bool) \<Rightarrow> account_id \<Rightarrow> order_id \<Rightarrow> intent \<Rightarrow> scalar \<Rightarrow> scalar option \<Rightarrow>
     schnorr_public_key \<Rightarrow> order_metadata \<Rightarrow> order_auth \<Rightarrow> matching_pool_name \<Rightarrow>
     (task_error + create_order_descriptor) option" where
  "new_ring2 verify aid oid i commitment new_balance_commitment key md auth pool =
     map_option (\<lambda>(sig, bal_sig).
         and_then (validate_renegade_settled_order_auth verify commitment new_balance_commitment sig bal_sig key)
           (\<lambda>_. Inr \<lparr>co_account_id = aid, co_order_id = oid, co_intent = i, co_ring = Ring2,
                     co_metadata = md, co_auth = auth, co_matching_pool = pool\<rparr>))
       (into_renegade_settled_order auth)"

definition new_ring3 ::
    "(schnorr_public_key \<Rightarrow> scalar \<Rightarrow> opaque \<Rightarrow> bool) \<Rightarrow> account_id \<Rightarrow> order_id \<Rightarrow> intent \<Rightarrow> scalar \<Rightarrow> scalar option \<Rightarrow>
     schnorr_public_key \<Rightarrow> order_metadata \<Rightarrow> order_auth \<Rightarrow> matching_pool_name \<Rightarrow>
     (task_error + create_order_descriptor) option" where
  "new_ring3 verify aid oid i commitment new_balance_commitment key md auth pool =
     map_option (\<lambda>(sig, bal_sig).
         and_then (validate_renegade_settled_order_auth verify commitment new_balance_commitment sig bal_sig key)
           (\<lambda>_. Inr \<lparr>co_account_id = aid, co_order_id = oid, co_intent = i, co_ring = Ring3,
                     co_metadata = md, co_auth = auth, co_matching_pool = pool\<rparr>))
       (into_renegade_settled_order auth)"

section \<open>Queued and historical tasks\<close>

datatype queued_task_state =
    Queued
  | Preemptive
  | Running (run_state: string) (run_committed: bool)
  | Completed
  | Failed

definition is_running :: "queued_task_state \<Rightarrow> bool" where
  "is_running st = (case st of Running _ _ \<Rightarrow> True | Preemptive \<Rightarrow> True | _ \<Rightarrow> False)"

definition is_committed :: "queued_task_state \<Rightarrow> bool" where
  "is_committed st = (case st of Running _ c \<Rightarrow> c | _ \<Rightarrow> False)"

record queued_task =
  task_id :: task_identifier
  task_state :: queued_task_state
  descriptor :: task_descriptor
  created_at :: u64

definition queued_task_new :: "task_identifier \<Rightarrow> u64 \<Rightarrow> task_descriptor \<Rightarrow> queued_task" where
  "queued_task_new tid now desc =
     \<lparr>task_id = tid, task_state = Queued, descriptor = desc, created_at = now\<rparr>"

datatype historical_task_description =
    HistNewAccount
  | HistDeposit account_id address amount
  | HistCreateBalance account_id address amount
  | HistCreateOrder account_id address amount
  | HistRefreshAccount account_id

fun from_task_descriptor :: "task_queue_key \<Rightarrow> task_descriptor \<Rightarrow> historical_task_description option" where
  "from_task_descriptor _ (NewAccount _) = Some HistNewAccount"
| "from_task_descriptor _ (CreateOrder d) =
     Some (HistCreateOrder (co_account_id d) (in_token (co_intent d)) (amount_in (co_intent d)))"
| "from_task_descriptor _ (Deposit d) =
     Some (HistDeposit (dep_account_id d) (dep_token d) (dep_amount d))"
| "from_task_descriptor _ (CreateBalance d) =
     Some (HistCreateBalance (cb_account_id d) (cb_token d) (cb_amount d))"
| "from_task_descriptor _ (RefreshAccount d) = Some (HistRefreshAccount (ra_account_id d))"
| "from_task_descriptor _ (CancelOrder _) = None"
| "from_task_descriptor _ (SettleInternalMatch _) = None"
| "from_task_descriptor _ (SettleExternalMatch _) = None"
| "from_task_descriptor _ (SettlePrivateMatch _) = None"
| "from_task_descriptor _ (NodeStartup _) = None"
| "from_task_descriptor _ (Withdraw _) = None"

record historical_task =
  hist_id :: task_identifier
  hist_state :: queued_task_state
  hist_created_at :: u64
  task_info :: historical_task_description

definition from_queued_task :: "task_queue_key \<Rightarrow> queued_task \<Rightarrow> historical_task option" where
  "from_queued_task key t =
     map_option (\<lambda>info. \<lparr>hist_id = task_id t, hist_state = task_state t,
                         hist_created_at = created_at t, task_info = info\<rparr>)
       (from_task_descriptor key (descriptor t))"

section \<open>Lemmas\<close>

lemma queue_key_affected: "is_account_task d \<Longrightarrow> queue_key d \<in> set (affected_accounts d)"
  by (cases d) auto

lemma yieldable_account_task: "is_yieldable d \<Longrightarrow> is_account_task d"
  by (cases d) auto

end
