(* ===== verification/Task_Queue.thy ===== *)
theory Task_Queue
  imports Task_Types
begin

text \<open>
  The task queue of \<open>state/src/storage/tx/task_queue/queue_type.rs\<close>: a list of serial
  tasks, of which only the first may run, a list of concurrent preemptive tasks, and a
  preemption state. The mutating methods return the flag of the source and the new queue.

  The invariant \<open>queue_ok\<close> strengthens the check the storage layer performs on every
  write; it is kept by every operation and rules out the two inconsistent states whose pops
  the source rejects.
\<close>

section \<open>Storage errors\<close>

datatype storage_error =
    NotFound string
  | Rejected string
  | InvalidKey string
  | TableDisabled string
  | Other string

definition ERR_MAX_CONCURRENCY :: string where
  "ERR_MAX_CONCURRENCY = ''max concurrency reached for task queue''"

definition ERR_INVALID_PREEMPTION_STATE :: string where
  "ERR_INVALID_PREEMPTION_STATE = ''invalid preemption state for task queue''"

definition MAX_CONCURRENT_TASKS :: nat where
  "MAX_CONCURRENT_TASKS = 20"

section \<open>The queue\<close>

datatype preemption_state = NotPreempted | SerialPreemptionQueued | ConcurrentPreemptionsQueued

record task_queue =
  concurrent_tasks :: "task_identifier list"
  serial_tasks :: "task_identifier list"
  preemption :: preemption_state

definition task_queue_default :: task_queue where
  "task_queue_default =
     \<lparr>concurrent_tasks = [], serial_tasks = [], preemption = NotPreempted\<rparr>"

definition check_preemption_state :: "task_queue \<Rightarrow> bool" where
  "check_preemption_state q =
     (case preemption q of
        NotPreempted \<Rightarrow> concurrent_tasks q = []
      | ConcurrentPreemptionsQueued \<Rightarrow> concurrent_tasks q \<noteq> []
      | SerialPreemptionQueued \<Rightarrow> True)"

definition check_invariants :: "task_queue \<Rightarrow> storage_error + unit" where
  "check_invariants q =
     (if MAX_CONCURRENT_TASKS < length (concurrent_tasks q)
      then Inl (Rejected ERR_MAX_CONCURRENCY)
      else if \<not> check_preemption_state q then Inl (Rejected ERR_INVALID_PREEMPTION_STATE)
      else Inr ())"

definition can_preempt_serial :: "task_queue \<Rightarrow> bool" where
  "can_preempt_serial q = (preemption q \<noteq> SerialPreemptionQueued)"

definition can_preempt_concurrent :: "task_queue \<Rightarrow> bool" where
  "can_preempt_concurrent q = (serial_tasks q = [])"

definition q_enqueue_serial_task :: "task_identifier \<Rightarrow> task_queue \<Rightarrow> task_queue" where
  "q_enqueue_serial_task t q = q\<lparr>serial_tasks := serial_tasks q @ [t]\<rparr>"

definition preempt_with_serial_task :: "task_identifier \<Rightarrow> task_queue \<Rightarrow> bool \<times> task_queue" where
  "preempt_with_serial_task t q =
     (if \<not> can_preempt_serial q then (False, q)
      else (True, q\<lparr>serial_tasks := t # serial_tasks q, preemption := SerialPreemptionQueued\<rparr>))"

definition preempt_with_concurrent_task :: "task_identifier \<Rightarrow> task_queue \<Rightarrow> bool \<times> task_queue" where
  "preempt_with_concurrent_task t q =
     (if \<not> can_preempt_concurrent q then (False, q)
      else (True, q\<lparr>concurrent_tasks := concurrent_tasks q @ [t],
                     preemption := ConcurrentPreemptionsQueued\<rparr>))"

definition pop_serial_task :: "task_queue \<Rightarrow> bool \<times> task_queue" where
  "pop_serial_task q =
     (case preemption q of
        ConcurrentPreemptionsQueued \<Rightarrow> (False, q)
      | SerialPreemptionQueued \<Rightarrow>
          (True, q\<lparr>serial_tasks := remove_at 0 (serial_tasks q), preemption := NotPreempted\<rparr>)
      | NotPreempted \<Rightarrow> (True, q\<lparr>serial_tasks := remove_at 0 (serial_tasks q)\<rparr>))"

definition pop_concurrent_task :: "nat \<Rightarrow> task_queue \<Rightarrow> bool \<times> task_queue" where
  "pop_concurrent_task idx q =
     (case preemption q of
        NotPreempted \<Rightarrow> (False, q)
      | SerialPreemptionQueued \<Rightarrow>
          (True, q\<lparr>concurrent_tasks := remove_at idx (concurrent_tasks q)\<rparr>)
      | ConcurrentPreemptionsQueued \<Rightarrow>
          (let q = q\<lparr>concurrent_tasks := remove_at idx (concurrent_tasks q)\<rparr>
           in (True, if concurrent_tasks q = [] then q\<lparr>preemption := NotPreempted\<rparr> else q)))"

definition q_pop_task :: "task_identifier \<Rightarrow> task_queue \<Rightarrow> bool \<times> task_queue" where
  "q_pop_task tid q =
     (if first (serial_tasks q) = Some tid then pop_serial_task q
      else (case position (\<lambda>t. t = tid) (concurrent_tasks q) of
              Some idx \<Rightarrow> pop_concurrent_task idx q
            | None \<Rightarrow> (False, q)))"

subsection \<open>Archived queues\<close>

definition q_is_empty :: "task_queue \<Rightarrow> bool" where
  "q_is_empty q = (concurrent_tasks q = [] \<and> serial_tasks q = [])"

definition all_tasks :: "task_queue \<Rightarrow> task_identifier list" where
  "all_tasks q = concurrent_tasks q @ serial_tasks q"

definition can_task_run :: "task_identifier \<Rightarrow> task_queue \<Rightarrow> bool" where
  "can_task_run t q =
     (let is_first_serial = (serial_tasks q \<noteq> [] \<and> first (serial_tasks q) = Some t) in
      if is_first_serial \<and> concurrent_tasks q = [] then True
      else if t \<in> set (concurrent_tasks q) then True
      else False)"

definition next_serial_task :: "task_queue \<Rightarrow> task_identifier option" where
  "next_serial_task q =
     (case first (serial_tasks q) of
        Some t \<Rightarrow> if can_task_run t q then Some t else None
      | None \<Rightarrow> None)"

section \<open>The invariant\<close>

text \<open>
  Without a preemption there are no concurrent tasks, a concurrent preemption has at least
  one, and a queue that records a serial preemption has a serial task at its front.
\<close>

definition queue_ok :: "task_queue \<Rightarrow> bool" where
  "queue_ok q \<longleftrightarrow>
     check_preemption_state q \<and> (preemption q = SerialPreemptionQueued \<longrightarrow> serial_tasks q \<noteq> [])"

lemma queue_ok_default: "queue_ok task_queue_default"
  by (simp add: queue_ok_def check_preemption_state_def task_queue_default_def)

lemma queue_ok_enqueue: "queue_ok q \<Longrightarrow> queue_ok (q_enqueue_serial_task t q)"
  by (simp add: queue_ok_def check_preemption_state_def q_enqueue_serial_task_def
      split: preemption_state.splits)

lemma queue_ok_preempt_serial: "queue_ok q \<Longrightarrow> queue_ok (snd (preempt_with_serial_task t q))"
  by (simp add: queue_ok_def check_preemption_state_def preempt_with_serial_task_def
      split: preemption_state.splits)

lemma queue_ok_preempt_concurrent:
  "queue_ok q \<Longrightarrow> queue_ok (snd (preempt_with_concurrent_task t q))"
  by (auto simp: queue_ok_def check_preemption_state_def preempt_with_concurrent_task_def
      split: preemption_state.splits)

lemma position_remove:
  "position (\<lambda>t. t = a) xs = Some i \<Longrightarrow> a \<in> set xs \<and> remove_at i xs = remove1 a xs"
  using position_SomeD [of "\<lambda>t. t = a" xs i] by (auto simp: remove_at_position)

lemma position_mem: "a \<in> set xs \<Longrightarrow> \<exists>i. position (\<lambda>t. t = a) xs = Some i"
  using position_None_iff [of "\<lambda>t. t = a" xs] by (cases "position (\<lambda>t. t = a) xs") auto

text \<open>What a pop does to a consistent queue, on every branch.\<close>

lemma pop_task_cases:
  assumes "queue_ok q"
  shows "q_pop_task t q =
     (if first (serial_tasks q) = Some t \<and> preemption q \<noteq> ConcurrentPreemptionsQueued
      then (True, q\<lparr>serial_tasks := tl (serial_tasks q), preemption := NotPreempted\<rparr>)
      else if first (serial_tasks q) \<noteq> Some t \<and> t \<in> set (concurrent_tasks q)
      then (True, q\<lparr>concurrent_tasks := remove1 t (concurrent_tasks q),
              preemption := (if preemption q = ConcurrentPreemptionsQueued \<and> remove1 t (concurrent_tasks q) = []
                             then NotPreempted else preemption q)\<rparr>)
      else (False, q))"
proof (cases "first (serial_tasks q) = Some t")
  case True
  then obtain ts where "serial_tasks q = t # ts" by (auto simp: first_eq_Some)
  then show ?thesis
    by (cases "preemption q") (simp_all add: q_pop_task_def pop_serial_task_def)
next
  case False
  show ?thesis
  proof (cases "t \<in> set (concurrent_tasks q)")
    case True
    obtain i where i: "position (\<lambda>x. x = t) (concurrent_tasks q) = Some i"
      using position_mem [OF True] by blast
    have "preemption q \<noteq> NotPreempted"
      using assms True by (auto simp: queue_ok_def check_preemption_state_def)
    then show ?thesis
      using False True i position_remove [OF i]
      by (cases "preemption q") (simp_all add: q_pop_task_def pop_concurrent_task_def Let_def)
  next
    case no: False
    then have "position (\<lambda>x. x = t) (concurrent_tasks q) = None"
      by (auto simp: position_None_iff)
    then show ?thesis using False no by (simp add: q_pop_task_def)
  qed
qed

text \<open>
  Popping a task that may run keeps the invariant. Popping the serial preemption of a queue
  whose concurrent tasks have not finished would not; the result then fails the check that
  guards every write.
\<close>

lemma queue_ok_pop: "queue_ok q \<Longrightarrow> check_preemption_state (snd (q_pop_task t q)) \<Longrightarrow> queue_ok (snd (q_pop_task t q))"
  by (simp add: pop_task_cases) (auto simp: queue_ok_def)

lemma check_invariants_ok:
  "check_invariants q = Inr () \<longleftrightarrow>
     length (concurrent_tasks q) \<le> MAX_CONCURRENT_TASKS \<and> check_preemption_state q"
  by (simp add: check_invariants_def)

section \<open>The queue as a state machine\<close>

text \<open>
  A queue changes only through the storage layer, which writes the result of an operation
  when it passes \<open>check_invariants\<close>. Tasks have fresh identifiers.
\<close>

inductive queue_step :: "task_queue \<Rightarrow> task_queue \<Rightarrow> bool" where
  q_enqueue:
    "t \<notin> set (all_tasks q) \<Longrightarrow> check_invariants (q_enqueue_serial_task t q) = Inr () \<Longrightarrow>
     queue_step q (q_enqueue_serial_task t q)"
| q_preempt_serial:
    "t \<notin> set (all_tasks q) \<Longrightarrow> preempt_with_serial_task t q = (True, q') \<Longrightarrow>
     check_invariants q' = Inr () \<Longrightarrow> queue_step q q'"
| q_preempt_concurrent:
    "t \<notin> set (all_tasks q) \<Longrightarrow> preempt_with_concurrent_task t q = (True, q') \<Longrightarrow>
     check_invariants q' = Inr () \<Longrightarrow> queue_step q q'"
| q_pop:
    "q_pop_task t q = (True, q') \<Longrightarrow> check_invariants q' = Inr () \<Longrightarrow> queue_step q q'"

inductive_cases queue_stepE: "queue_step q q'"

definition queue_inv :: "task_queue \<Rightarrow> bool" where
  "queue_inv q \<longleftrightarrow>
     queue_ok q \<and> distinct (all_tasks q) \<and> length (concurrent_tasks q) \<le> MAX_CONCURRENT_TASKS"

lemma pop_all_tasks:
  assumes "queue_ok q" and "distinct (all_tasks q)" and "fst (q_pop_task t q)"
  shows "all_tasks (snd (q_pop_task t q)) = remove1 t (all_tasks q)"
proof (cases "first (serial_tasks q) = Some t")
  case True
  then obtain ts where ts: "serial_tasks q = t # ts" by (auto simp: first_eq_Some)
  then have "t \<notin> set (concurrent_tasks q)" using assms(2) by (auto simp: all_tasks_def)
  then show ?thesis
    using True ts assms(3)
    by (auto simp: pop_task_cases [OF assms(1)] all_tasks_def remove1_append split: if_splits)
next
  case False
  then show ?thesis
    using assms(3)
    by (auto simp: pop_task_cases [OF assms(1)] all_tasks_def remove1_append split: if_splits)
qed

lemma distinct_pop:
  assumes "queue_ok q" and "distinct (all_tasks q)"
  shows "distinct (all_tasks (snd (q_pop_task t q)))"
proof (cases "fst (q_pop_task t q)")
  case True
  then show ?thesis using assms by (simp add: pop_all_tasks distinct_remove1)
next
  case False
  then have "q_pop_task t q = (False, q)" by (auto simp: pop_task_cases [OF assms(1)] split: if_splits)
  then show ?thesis using assms(2) by simp
qed

lemma queue_inv_step: "queue_step q q' \<Longrightarrow> queue_inv q \<Longrightarrow> queue_inv q'"
proof (induction rule: queue_step.induct)
  case (q_enqueue t q)
  then show ?case
    by (auto simp: queue_inv_def queue_ok_enqueue check_invariants_ok)
      (auto simp: all_tasks_def q_enqueue_serial_task_def)
next
  case (q_preempt_serial t q q')
  then show ?case
    using queue_ok_preempt_serial [of q t]
    by (auto simp: queue_inv_def check_invariants_ok)
      (auto simp: all_tasks_def preempt_with_serial_task_def split: if_splits)
next
  case (q_preempt_concurrent t q q')
  then show ?case
    using queue_ok_preempt_concurrent [of q t]
    by (auto simp: queue_inv_def check_invariants_ok)
      (auto simp: all_tasks_def preempt_with_concurrent_task_def can_preempt_concurrent_def split: if_splits)
next
  case (q_pop t q q')
  then show ?case
    using queue_ok_pop [of q t] distinct_pop [of q t] by (simp add: queue_inv_def check_invariants_ok)
qed

interpretation queue_sys: invariant_system "\<lambda>q. q = task_queue_default" queue_step queue_inv
proof unfold_locales
  show "queue_inv q" if "q = task_queue_default" for q
    using that queue_ok_default by (simp add: queue_inv_def all_tasks_def task_queue_default_def)
qed (rule queue_inv_step)

lemma pop_runnable:
  assumes "queue_ok q" and "distinct (all_tasks q)"
  shows "fst (q_pop_task t q) \<and> check_preemption_state (snd (q_pop_task t q)) \<longleftrightarrow> can_task_run t q"
proof (cases "first (serial_tasks q) = Some t")
  case True
  then have "t \<in> set (serial_tasks q)" by (auto simp: first_eq_Some)
  then have "t \<notin> set (concurrent_tasks q)" using assms(2) by (auto simp: all_tasks_def)
  then show ?thesis
    using True assms(1)
    by (cases "preemption q")
      (auto simp: pop_task_cases can_task_run_def queue_ok_def check_preemption_state_def)
next
  case False
  then show ?thesis
    using assms(1)
    by (cases "preemption q")
      (auto simp: pop_task_cases can_task_run_def Let_def queue_ok_def check_preemption_state_def)
qed

lemma can_task_run_iff:
  "can_task_run t q \<longleftrightarrow>
     (if concurrent_tasks q = [] then first (serial_tasks q) = Some t else t \<in> set (concurrent_tasks q))"
  by (auto simp: can_task_run_def Let_def)

lemma runnable_tasks:
  "{t. can_task_run t q} =
     (if concurrent_tasks q = [] then set (take 1 (serial_tasks q)) else set (concurrent_tasks q))"
  by (cases "serial_tasks q") (simp_all add: can_task_run_iff)

lemma reachable_singleton_queue:
  "reachable (\<lambda>q. q = task_queue_default) queue_step (q_enqueue_serial_task t task_queue_default)"
proof (rule reach_step [where s = task_queue_default])
  show "reachable (\<lambda>q. q = task_queue_default) queue_step task_queue_default"
    by (rule reach_init) simp
  show "queue_step task_queue_default (q_enqueue_serial_task t task_queue_default)"
    by (rule q_enqueue)
      (simp_all add: all_tasks_def task_queue_default_def check_invariants_ok q_enqueue_serial_task_def
        check_preemption_state_def)
qed

section \<open>Properties\<close>

text \<open>
  C13. A queue is a readers-writer lock. In every reachable queue the tasks that may run are
  either the concurrent tasks, at most twenty of them, or else at most one serial task, the
  first; no task is queued twice. A concurrent task is admitted exactly when no serial task is
  queued; it then joins the tasks that may run and takes the lock from none of them. A serial
  preemption is admitted exactly when none is pending; it displaces the first serial task, but it
  waits for the concurrent tasks. A serial task that is queued runs at once only on an empty queue.
\<close>

theorem queue_mutual_exclusion:
  assumes "reachable (\<lambda>q. q = task_queue_default) queue_step q"
  shows "{t. can_task_run t q} =
           (if concurrent_tasks q = [] then set (take 1 (serial_tasks q)) else set (concurrent_tasks q)) \<and>
         length (concurrent_tasks q) \<le> 20 \<and> distinct (all_tasks q) \<and>
         (next_serial_task q \<noteq> None \<longleftrightarrow> concurrent_tasks q = [] \<and> serial_tasks q \<noteq> []) \<and>
         (fst (preempt_with_concurrent_task n q) \<longleftrightarrow> serial_tasks q = []) \<and>
         {t. can_task_run t (snd (preempt_with_concurrent_task n q))} =
           (if serial_tasks q = [] then {n} else {}) \<union> {t. can_task_run t q} \<and>
         (fst (preempt_with_serial_task n q) \<longleftrightarrow> preemption q \<noteq> SerialPreemptionQueued) \<and>
         {t. can_task_run t (snd (preempt_with_serial_task n q))} =
           (if preemption q \<noteq> SerialPreemptionQueued \<and> concurrent_tasks q = [] then {n} else {t. can_task_run t q}) \<and>
         {t. can_task_run t (q_enqueue_serial_task n q)} = (if all_tasks q = [] then {n} else {t. can_task_run t q})"
proof -
  have inv: "queue_inv q" by (rule queue_sys.reachable_inv [OF assms])
  then have "\<not> (concurrent_tasks q \<noteq> [] \<and> first (serial_tasks q) = Some t \<and> t \<in> set (concurrent_tasks q))" for t
    by (cases "serial_tasks q") (auto simp: queue_inv_def all_tasks_def)
  then have next_task: "next_serial_task q \<noteq> None \<longleftrightarrow> concurrent_tasks q = [] \<and> serial_tasks q \<noteq> []"
    by (cases "serial_tasks q") (auto simp: next_serial_task_def can_task_run_iff)
  have concurrent: "fst (preempt_with_concurrent_task n q) \<longleftrightarrow> serial_tasks q = []"
    "{t. can_task_run t (snd (preempt_with_concurrent_task n q))} =
       (if serial_tasks q = [] then {n} else {}) \<union> {t. can_task_run t q}"
    by (simp_all add: preempt_with_concurrent_task_def can_preempt_concurrent_def runnable_tasks)
  have serial: "fst (preempt_with_serial_task n q) \<longleftrightarrow> preemption q \<noteq> SerialPreemptionQueued"
    "{t. can_task_run t (snd (preempt_with_serial_task n q))} =
       (if preemption q \<noteq> SerialPreemptionQueued \<and> concurrent_tasks q = [] then {n} else {t. can_task_run t q})"
    by (simp_all add: preempt_with_serial_task_def can_preempt_serial_def runnable_tasks)
  have "{t. can_task_run t (q_enqueue_serial_task n q)} = (if all_tasks q = [] then {n} else {t. can_task_run t q})"
    by (cases "serial_tasks q") (simp_all add: runnable_tasks q_enqueue_serial_task_def all_tasks_def)
  then show ?thesis
    using inv next_task concurrent serial runnable_tasks [of q] by (simp add: queue_inv_def MAX_CONCURRENT_TASKS_def)
qed

theorem queue_mutual_exclusion_witness:
  "reachable (\<lambda>q. q = task_queue_default) queue_step (q_enqueue_serial_task 7 task_queue_default) \<and>
   {t. can_task_run t (q_enqueue_serial_task 7 task_queue_default)} = {7} \<and>
   \<not> fst (preempt_with_concurrent_task 8 (q_enqueue_serial_task 7 task_queue_default)) \<and>
   {t. can_task_run t (snd (preempt_with_serial_task 8 (q_enqueue_serial_task 7 task_queue_default)))} = {8}"
  using queue_mutual_exclusion [OF reachable_singleton_queue [of 7], of 8] reachable_singleton_queue [of 7]
  by (simp add: q_enqueue_serial_task_def task_queue_default_def)

text \<open>
  C28. In every reachable queue the storage layer accepts the pop of a task exactly when that
  task may run, and an accepted pop removes that task and nothing else.
\<close>

theorem pop_accepted_iff_runnable:
  assumes "reachable (\<lambda>q. q = task_queue_default) queue_step q"
  shows "((\<exists>q'. q_pop_task t q = (True, q') \<and> check_invariants q' = Inr ()) \<longleftrightarrow> can_task_run t q) \<and>
         (fst (q_pop_task t q) \<longrightarrow> all_tasks (snd (q_pop_task t q)) = remove1 t (all_tasks q))"
proof -
  have inv: "queue_ok q" "distinct (all_tasks q)" "length (concurrent_tasks q) \<le> MAX_CONCURRENT_TASKS"
    using queue_sys.reachable_inv [OF assms] by (simp_all add: queue_inv_def)
  have "length (concurrent_tasks (snd (q_pop_task t q))) \<le> length (concurrent_tasks q)"
    by (simp add: pop_task_cases [OF inv(1)] length_remove1)
  then have "(\<exists>q'. q_pop_task t q = (True, q') \<and> check_invariants q' = Inr ()) \<longleftrightarrow> can_task_run t q"
    using pop_runnable [OF inv(1,2), of t] inv(3)
    by (cases "q_pop_task t q") (auto simp: check_invariants_ok)
  then show ?thesis
    using pop_all_tasks [OF inv(1,2)] by simp
qed

theorem pop_accepted_iff_runnable_witness:
  "reachable (\<lambda>q. q = task_queue_default) queue_step (q_enqueue_serial_task 7 task_queue_default) \<and>
   (\<exists>q'. q_pop_task 7 (q_enqueue_serial_task 7 task_queue_default) = (True, q') \<and>
         check_invariants q' = Inr ())"
  using pop_accepted_iff_runnable [OF reachable_singleton_queue [of 7], of 7] reachable_singleton_queue [of 7]
  by (simp add: can_task_run_iff q_enqueue_serial_task_def task_queue_default_def)

end
