(* ===== verification/Task_Storage.thy ===== *)
theory Task_Storage
  imports Task_Queue
begin

text \<open>
  The tables behind the task queues, \<open>state/src/storage/tx/task_queue/storage.rs\<close>,
  \<open>task_assignments.rs\<close> and \<open>task_history.rs\<close>.

  A transaction reads and writes the record \<open>task_db\<close>, one map per family of storage
  keys. An operation that fails returns its error and no database: the transaction is
  dropped. Failures of the storage engine itself and of the serialization are not modelled.
  The keys of the peer to task index are scanned in the order of the task identifiers, which
  is the order of their fixed width printed form.

  The operations keep the invariant \<open>db_ok\<close>: queues are consistent, every stored task
  is in each of the queues it is indexed under, a task that is marked as running may run, and
  the deferred preemptions form coherent queues ordered by one global sequence.
\<close>

section \<open>Tables\<close>

type_synonym wrapped_peer_id = opaque

record pending_entry =
  pe_task :: queued_task
  target_keys :: "task_queue_key list"
  pe_seq :: u64

record task_db =
  tdb_queues :: "task_queue_key \<Rightarrow> task_queue option"
  tdb_tasks :: "task_identifier \<Rightarrow> queued_task option"
  tdb_task_keys :: "task_identifier \<Rightarrow> task_queue_key list option"
  tdb_pending :: "task_queue_key \<Rightarrow> pending_entry list option"
  tdb_pending_seq :: "u64 option"
  tdb_yields :: "task_queue_key \<Rightarrow> u32 option"
  tdb_assigned :: "wrapped_peer_id \<Rightarrow> task_identifier list"
  tdb_assignment :: "task_identifier \<Rightarrow> wrapped_peer_id option"
  tdb_history_ids :: "task_queue_key \<Rightarrow> task_identifier list option"
  tdb_history :: "task_queue_key \<times> task_identifier \<Rightarrow> historical_task option"
  tdb_history_enabled :: "bool option"
  tdb_peer_id :: "wrapped_peer_id option"

datatype preempt_outcome = Preempted | Deferred

definition ERR_TASK_NOT_FOUND :: string where
  "ERR_TASK_NOT_FOUND = ''task not found''"

definition ERR_TASK_NOT_POPPED :: string where
  "ERR_TASK_NOT_POPPED = ''task not popped from queue''"

definition ERR_CANNOT_SERIALLY_PREEMPT :: string where
  "ERR_CANNOT_SERIALLY_PREEMPT = ''serial preemption not allowed''"

definition ERR_PENDING_QUEUE_FULL :: string where
  "ERR_PENDING_QUEUE_FULL = ''serial preemption deferred-queue full''"

definition ERR_CANNOT_CONCURRENTLY_PREEMPT :: string where
  "ERR_CANNOT_CONCURRENTLY_PREEMPT = ''concurrent preemption not allowed''"

definition ENABLE_SETTLE_DEFER :: bool where
  "ENABLE_SETTLE_DEFER = True"

definition ENABLE_ORDER_YIELD :: bool where
  "ENABLE_ORDER_YIELD = True"

definition ENABLE_SETTLE_FAIRNESS :: bool where
  "ENABLE_SETTLE_FAIRNESS = False"

definition MAX_CONSECUTIVE_YIELDS :: u32 where
  "MAX_CONSECUTIVE_YIELDS = 3"

definition MAX_PENDING_PER_QUEUE :: nat where
  "MAX_PENDING_PER_QUEUE = 64"

section \<open>Queries\<close>

definition is_queue_empty :: "task_queue_key \<Rightarrow> task_db \<Rightarrow> bool" where
  "is_queue_empty k db = (case tdb_queues db k of Some q \<Rightarrow> q_is_empty q | None \<Rightarrow> True)"

definition concurrent_tasks_active :: "task_queue_key \<Rightarrow> task_db \<Rightarrow> bool" where
  "concurrent_tasks_active k db =
     (case tdb_queues db k of Some q \<Rightarrow> concurrent_tasks q \<noteq> [] | None \<Rightarrow> False)"

definition serial_tasks_active :: "task_queue_key \<Rightarrow> task_db \<Rightarrow> bool" where
  "serial_tasks_active k db =
     (case tdb_queues db k of Some q \<Rightarrow> serial_tasks q \<noteq> [] | None \<Rightarrow> False)"

definition next_runnable_task :: "task_queue_key \<Rightarrow> task_db \<Rightarrow> queued_task option" where
  "next_runnable_task k db =
     (case tdb_queues db k of
        None \<Rightarrow> None
      | Some q \<Rightarrow> (case next_serial_task q of None \<Rightarrow> None | Some t \<Rightarrow> tdb_tasks db t))"

definition get_queue_keys_for_task :: "task_identifier \<Rightarrow> task_db \<Rightarrow> task_queue_key list" where
  "get_queue_keys_for_task t db = unwrap_or [] (tdb_task_keys db t)"

definition is_queue_preemptable :: "task_queue_key \<Rightarrow> bool \<Rightarrow> task_db \<Rightarrow> bool" where
  "is_queue_preemptable k serial db =
     (case tdb_queues db k of
        None \<Rightarrow> True
      | Some q \<Rightarrow> if serial then can_preempt_serial q else can_preempt_concurrent q)"

definition tx_can_task_run :: "task_identifier \<Rightarrow> task_db \<Rightarrow> bool" where
  "tx_can_task_run t db =
     list_all (\<lambda>k. case tdb_queues db k of None \<Rightarrow> False | Some q \<Rightarrow> can_task_run t q)
       (get_queue_keys_for_task t db)"

definition get_queued_tasks :: "task_queue_key \<Rightarrow> task_db \<Rightarrow> queued_task list" where
  "get_queued_tasks k db =
     (case tdb_queues db k of
        None \<Rightarrow> []
      | Some q \<Rightarrow> List.map_filter (tdb_tasks db) (all_tasks q))"

definition get_task_queue_deserialized :: "task_queue_key \<Rightarrow> task_db \<Rightarrow> task_queue" where
  "get_task_queue_deserialized k db = unwrap_or task_queue_default (tdb_queues db k)"

definition is_serial_preemption_safe :: "task_queue_key \<Rightarrow> task_db \<Rightarrow> storage_error + bool" where
  "is_serial_preemption_safe k db =
     (case tdb_queues db k of
        None \<Rightarrow> Inr True
      | Some q \<Rightarrow>
          (case first (serial_tasks q) of
             None \<Rightarrow> Inr (can_preempt_serial q)
           | Some t \<Rightarrow>
               and_then (ok_or (Rejected ERR_TASK_NOT_FOUND) (tdb_tasks db t))
                 (\<lambda>task. Inr (can_preempt_serial q \<and> \<not> is_committed (task_state task)))))"

definition orphaned_preempt_head :: "task_queue_key \<Rightarrow> task_db \<Rightarrow> task_identifier option" where
  "orphaned_preempt_head k db =
     (let q = get_task_queue_deserialized k db in
      if preemption q \<noteq> SerialPreemptionQueued then None
      else (case first (serial_tasks q) of
              None \<Rightarrow> None
            | Some head_id \<Rightarrow>
                (case tdb_tasks db head_id of
                   None \<Rightarrow> None
                 | Some task \<Rightarrow> if is_committed (task_state task) then Some head_id else None)))"

definition head_is_yieldable :: "task_queue_key \<Rightarrow> task_db \<Rightarrow> storage_error + bool" where
  "head_is_yieldable k db =
     (case tdb_queues db k of
        None \<Rightarrow> Inr False
      | Some q \<Rightarrow>
          (case first (serial_tasks q) of
             None \<Rightarrow> Inr False
           | Some t \<Rightarrow>
               and_then (ok_or (Rejected ERR_TASK_NOT_FOUND) (tdb_tasks db t))
                 (\<lambda>task. Inr (is_committed (task_state task) \<and> is_yieldable (descriptor task)))))"

definition yield_count :: "task_queue_key \<Rightarrow> task_db \<Rightarrow> u32" where
  "yield_count k db = unwrap_or 0 (tdb_yields db k)"

definition get_pending_preempt_list :: "task_queue_key \<Rightarrow> task_db \<Rightarrow> pending_entry list" where
  "get_pending_preempt_list k db = unwrap_or [] (tdb_pending db k)"

definition pending_preempt_head :: "task_queue_key \<Rightarrow> task_db \<Rightarrow> pending_entry option" where
  "pending_preempt_head k db = min_by_key pe_seq (get_pending_preempt_list k db)"

definition is_pending_head :: "pending_entry \<Rightarrow> task_queue_key \<Rightarrow> task_db \<Rightarrow> bool" where
  "is_pending_head entry k db =
     (case pending_preempt_head k db of Some head \<Rightarrow> pe_seq head = pe_seq entry | None \<Rightarrow> False)"

section \<open>Mutations\<close>

subsection \<open>Helpers\<close>

definition write_task_queue :: "task_queue_key \<Rightarrow> task_queue \<Rightarrow> task_db \<Rightarrow> storage_error + task_db" where
  "write_task_queue k q db =
     and_then (check_invariants q) (\<lambda>_. Inr (db\<lparr>tdb_queues := (tdb_queues db)(k \<mapsto> q)\<rparr>))"

definition update_task :: "task_identifier \<Rightarrow> queued_task \<Rightarrow> task_db \<Rightarrow> task_db" where
  "update_task t task db = db\<lparr>tdb_tasks := (tdb_tasks db)(t \<mapsto> task)\<rparr>"

definition update_task_to_queues :: "task_identifier \<Rightarrow> task_queue_key list \<Rightarrow> task_db \<Rightarrow> task_db" where
  "update_task_to_queues t ks db = db\<lparr>tdb_task_keys := (tdb_task_keys db)(t \<mapsto> ks)\<rparr>"

definition write_task :: "task_identifier \<Rightarrow> task_queue_key list \<Rightarrow> queued_task \<Rightarrow> task_db \<Rightarrow> task_db" where
  "write_task t ks task db = update_task_to_queues t ks (update_task t task db)"

definition delete_task :: "task_identifier \<Rightarrow> task_db \<Rightarrow> queued_task option \<times> task_db" where
  "delete_task t db =
     (tdb_tasks db t,
      db\<lparr>tdb_tasks := (tdb_tasks db)(t := None), tdb_task_keys := (tdb_task_keys db)(t := None)\<rparr>)"

definition requeue_task :: "task_identifier \<Rightarrow> task_db \<Rightarrow> task_db" where
  "requeue_task t db =
     (case tdb_tasks db t of
        Some task \<Rightarrow> update_task t (task\<lparr>task_state := Queued\<rparr>) db
      | None \<Rightarrow> db)"

definition next_pending_seq :: "task_db \<Rightarrow> u64 \<times> task_db" where
  "next_pending_seq db =
     (let next = unwrap_or 0 (tdb_pending_seq db) + 1
      in (next, db\<lparr>tdb_pending_seq := Some next\<rparr>))"

definition append_pending_preemption :: "task_queue_key \<Rightarrow> pending_entry \<Rightarrow> task_db \<Rightarrow> task_db" where
  "append_pending_preemption k entry db =
     db\<lparr>tdb_pending := (tdb_pending db)(k \<mapsto> get_pending_preempt_list k db @ [entry])\<rparr>"

definition remove_pending_from :: "u64 \<Rightarrow> task_queue_key \<Rightarrow> task_db \<Rightarrow> task_db" where
  "remove_pending_from seq k db =
     (let list = filter (\<lambda>e. pe_seq e \<noteq> seq) (get_pending_preempt_list k db)
      in db\<lparr>tdb_pending := (tdb_pending db)(k := (if list = [] then None else Some list))\<rparr>)"

definition remove_pending_preemption_entry :: "pending_entry \<Rightarrow> task_db \<Rightarrow> task_db" where
  "remove_pending_preemption_entry entry db =
     fold (remove_pending_from (pe_seq entry)) (target_keys entry) db"

definition delete_pending_preemption :: "task_queue_key \<Rightarrow> task_db \<Rightarrow> task_db" where
  "delete_pending_preemption k db =
     (let db = fold remove_pending_preemption_entry (get_pending_preempt_list k db) db
      in db\<lparr>tdb_pending := (tdb_pending db)(k := None)\<rparr>)"

definition bump_yield_count :: "task_queue_key \<Rightarrow> task_db \<Rightarrow> task_db" where
  "bump_yield_count k db = db\<lparr>tdb_yields := (tdb_yields db)(k \<mapsto> yield_count k db + 1)\<rparr>"

definition reset_yield_count :: "task_queue_key \<Rightarrow> task_db \<Rightarrow> task_db" where
  "reset_yield_count k db = db\<lparr>tdb_yields := (tdb_yields db)(k := None)\<rparr>"

subsection \<open>Enqueueing and preempting\<close>

definition enqueue_serial_task :: "task_queue_key \<Rightarrow> queued_task \<Rightarrow> task_db \<Rightarrow> storage_error + task_db" where
  "enqueue_serial_task k task db =
     (let q = q_enqueue_serial_task (task_id task) (get_task_queue_deserialized k db) in
      and_then (write_task_queue k q db) (\<lambda>db. Inr (write_task (task_id task) [k] task db)))"

text \<open>One iteration of the loop over the target queues.\<close>

definition preempt_one_serial ::
    "queued_task \<Rightarrow> bool \<Rightarrow> task_queue_key \<Rightarrow> task_db \<Rightarrow> storage_error + task_db" where
  "preempt_one_serial task allow_yield k db =
     and_then (is_serial_preemption_safe k db) (\<lambda>safe.
     and_then (if safe \<or> \<not> allow_yield then Inr safe else head_is_yieldable k db) (\<lambda>ok.
       if \<not> ok then Inl (Rejected ERR_CANNOT_SERIALLY_PREEMPT)
       else
         (let q = get_task_queue_deserialized k db;
              db = (case first (serial_tasks q) of Some t \<Rightarrow> requeue_task t db | None \<Rightarrow> db);
              (done, q) = preempt_with_serial_task (task_id task) q
          in if \<not> done then Inl (Rejected ERR_CANNOT_SERIALLY_PREEMPT)
             else write_task_queue k q db)))"

definition do_preempt_serial_inner ::
    "task_queue_key list \<Rightarrow> queued_task \<Rightarrow> bool \<Rightarrow> task_db \<Rightarrow> storage_error + task_db" where
  "do_preempt_serial_inner ks task allow_yield db =
     and_then (try_fold (preempt_one_serial task allow_yield) ks db)
       (\<lambda>db. Inr (write_task (task_id task) ks task db))"

definition do_preempt_serial ::
    "task_queue_key list \<Rightarrow> queued_task \<Rightarrow> task_db \<Rightarrow> storage_error + task_db" where
  "do_preempt_serial ks task db = do_preempt_serial_inner ks task False db"

text \<open>The first pass over the target queues: is any of them blocked by a committed head?\<close>

fun hard_blocked :: "task_queue_key list \<Rightarrow> task_db \<Rightarrow> storage_error + bool" where
  "hard_blocked [] db = Inr False"
| "hard_blocked (k # ks) db =
     and_then (is_serial_preemption_safe k db) (\<lambda>safe.
       if safe then hard_blocked ks db
       else
         and_then (if ENABLE_ORDER_YIELD then head_is_yieldable k db else Inr False) (\<lambda>yieldable.
           if yieldable \<and> yield_count k db < MAX_CONSECUTIVE_YIELDS then hard_blocked ks db
           else Inr True))"

definition bump_if_yieldable :: "task_queue_key \<Rightarrow> task_db \<Rightarrow> storage_error + task_db" where
  "bump_if_yieldable k db =
     and_then (head_is_yieldable k db) (\<lambda>y. Inr (if y then bump_yield_count k db else db))"

definition reset_if_exhausted :: "task_queue_key \<Rightarrow> task_db \<Rightarrow> storage_error + task_db" where
  "reset_if_exhausted k db =
     and_then (head_is_yieldable k db) (\<lambda>y.
       Inr (if y \<and> MAX_CONSECUTIVE_YIELDS \<le> yield_count k db then reset_yield_count k db else db))"

definition preempt_queue_with_serial ::
    "task_queue_key list \<Rightarrow> queued_task \<Rightarrow> task_db \<Rightarrow> storage_error + preempt_outcome \<times> task_db" where
  "preempt_queue_with_serial ks task db =
     and_then (hard_blocked ks db) (\<lambda>blocked.
     let fairness_defer =
           (ENABLE_SETTLE_FAIRNESS \<and> ENABLE_SETTLE_DEFER \<and>
            list_ex (\<lambda>k. get_pending_preempt_list k db \<noteq> []) ks)
     in if \<not> blocked \<and> \<not> fairness_defer then
          and_then (if ENABLE_ORDER_YIELD then try_fold bump_if_yieldable ks db else Inr db) (\<lambda>db.
          and_then (do_preempt_serial_inner ks task ENABLE_ORDER_YIELD db) (\<lambda>db.
            Inr (Preempted, db)))
        else
          and_then (if ENABLE_ORDER_YIELD then try_fold reset_if_exhausted ks db else Inr db) (\<lambda>db.
            if \<not> ENABLE_SETTLE_DEFER then Inl (Rejected ERR_CANNOT_SERIALLY_PREEMPT)
            else if list_ex (\<lambda>k. MAX_PENDING_PER_QUEUE \<le> length (get_pending_preempt_list k db)) ks
            then Inl (Rejected ERR_PENDING_QUEUE_FULL)
            else
              (let (seq, db) = next_pending_seq db;
                   entry = \<lparr>pe_task = task, target_keys = ks, pe_seq = seq\<rparr>
               in Inr (Deferred, fold (\<lambda>k. append_pending_preemption k entry) ks db))))"

definition preempt_one_concurrent ::
    "queued_task \<Rightarrow> task_queue_key \<Rightarrow> task_db \<Rightarrow> storage_error + task_db" where
  "preempt_one_concurrent task k db =
     (let (done, q) = preempt_with_concurrent_task (task_id task) (get_task_queue_deserialized k db)
      in if \<not> done then Inl (Rejected ERR_CANNOT_CONCURRENTLY_PREEMPT)
         else write_task_queue k q db)"

definition preempt_queue_with_concurrent ::
    "task_queue_key list \<Rightarrow> queued_task \<Rightarrow> task_db \<Rightarrow> storage_error + task_db" where
  "preempt_queue_with_concurrent ks task db =
     and_then (try_fold (preempt_one_concurrent task) ks db)
       (\<lambda>db. Inr (write_task (task_id task) ks task db))"

subsection \<open>Popping, clearing and transitions\<close>

definition pop_from_queue ::
    "task_identifier \<Rightarrow> task_queue_key \<Rightarrow> task_db \<Rightarrow> storage_error + task_db" where
  "pop_from_queue t k db =
     (let (done, q) = q_pop_task t (get_task_queue_deserialized k db)
      in if \<not> done then Inl (Rejected ERR_TASK_NOT_POPPED) else write_task_queue k q db)"

definition pop_task :: "task_identifier \<Rightarrow> task_db \<Rightarrow> storage_error + queued_task option \<times> task_db" where
  "pop_task t db =
     and_then (try_fold (pop_from_queue t) (get_queue_keys_for_task t db) db)
       (\<lambda>db. Inr (delete_task t db))"

text \<open>The tasks of the list that are stored, and the database without them.\<close>

fun delete_tasks :: "task_identifier list \<Rightarrow> task_db \<Rightarrow> queued_task list \<times> task_db" where
  "delete_tasks [] db = ([], db)"
| "delete_tasks (t # ts) db =
     (let (task, db) = delete_task t db; (rest, db) = delete_tasks ts db
      in (case task of Some task \<Rightarrow> (task # rest, db) | None \<Rightarrow> (rest, db)))"

definition clear_task_queue ::
    "task_queue_key \<Rightarrow> task_db \<Rightarrow> storage_error + queued_task list \<times> task_db" where
  "clear_task_queue k db =
     (let ids = (case tdb_queues db k of Some q \<Rightarrow> all_tasks q | None \<Rightarrow> []);
          (cleared, db) = delete_tasks ids db;
          db = delete_pending_preemption k db
      in and_then (write_task_queue k task_queue_default db) (\<lambda>db. Inr (cleared, db)))"

definition transition_task ::
    "task_identifier \<Rightarrow> queued_task_state \<Rightarrow> task_db \<Rightarrow> storage_error + task_db" where
  "transition_task t new_state db =
     and_then (ok_or (Rejected ERR_TASK_NOT_FOUND) (tdb_tasks db t))
       (\<lambda>task. Inr (update_task t (task\<lparr>task_state := new_state\<rparr>) db))"

section \<open>Assignments\<close>

definition get_assigned_tasks :: "wrapped_peer_id \<Rightarrow> task_db \<Rightarrow> task_identifier list" where
  "get_assigned_tasks p db = tdb_assigned db p"

definition get_task_assignment :: "task_identifier \<Rightarrow> task_db \<Rightarrow> wrapped_peer_id option" where
  "get_task_assignment t db = tdb_assignment db t"

definition write_task_assignment :: "task_identifier \<Rightarrow> wrapped_peer_id \<Rightarrow> task_db \<Rightarrow> task_db" where
  "write_task_assignment t p db = db\<lparr>tdb_assignment := (tdb_assignment db)(t \<mapsto> p)\<rparr>"

definition add_assigned_task :: "wrapped_peer_id \<Rightarrow> task_identifier \<Rightarrow> task_db \<Rightarrow> task_db" where
  "add_assigned_task p t db =
     write_task_assignment t p
       (db\<lparr>tdb_assigned := (tdb_assigned db)(p := bset_insert t (tdb_assigned db p))\<rparr>)"

definition remove_assigned_task :: "wrapped_peer_id \<Rightarrow> task_identifier \<Rightarrow> task_db \<Rightarrow> task_db" where
  "remove_assigned_task p t db =
     db\<lparr>tdb_assigned := (tdb_assigned db)(p := bset_remove t (tdb_assigned db p)),
        tdb_assignment := (tdb_assignment db)(t := None)\<rparr>"

definition reassign_task ::
    "wrapped_peer_id \<Rightarrow> wrapped_peer_id \<Rightarrow> task_identifier \<Rightarrow> task_db \<Rightarrow> task_db" where
  "reassign_task from_peer to_peer t db =
     (let db = db\<lparr>tdb_assigned := (tdb_assigned db)(from_peer := bset_remove t (tdb_assigned db from_peer))\<rparr>;
          db = db\<lparr>tdb_assigned := (tdb_assigned db)(to_peer := bset_insert t (tdb_assigned db to_peer))\<rparr>
      in write_task_assignment t to_peer db)"

definition reassign_tasks ::
    "wrapped_peer_id \<Rightarrow> wrapped_peer_id \<Rightarrow> task_db \<Rightarrow> task_identifier list \<times> task_db" where
  "reassign_tasks from_peer to_peer db =
     (let ts = get_assigned_tasks from_peer db
      in (ts, fold (reassign_task from_peer to_peer) ts db))"

section \<open>History\<close>

definition check_task_history_enabled :: "task_db \<Rightarrow> storage_error + unit" where
  "check_task_history_enabled db =
     (if tdb_history_enabled db = Some True then Inr () else Inl (TableDisabled ''task-history''))"

definition get_task_ids_in_history ::
    "task_queue_key \<Rightarrow> task_db \<Rightarrow> storage_error + task_identifier list option" where
  "get_task_ids_in_history k db =
     and_then (check_task_history_enabled db) (\<lambda>_. Inr (tdb_history_ids db k))"

definition get_task_history :: "task_queue_key \<Rightarrow> task_db \<Rightarrow> storage_error + historical_task list" where
  "get_task_history k db =
     and_then (get_task_ids_in_history k db) (\<lambda>ids.
       case ids of
         None \<Rightarrow> Inr []
       | Some ids \<Rightarrow>
           Inr (sort_key (\<lambda>t. Reverse (hist_created_at t))
                 (List.map_filter (\<lambda>t. tdb_history db (k, t)) ids)))"

definition get_truncated_task_history ::
    "nat \<Rightarrow> task_queue_key \<Rightarrow> task_db \<Rightarrow> storage_error + historical_task list" where
  "get_truncated_task_history n k db = and_then (get_task_history k db) (\<lambda>ts. Inr (take n ts))"

definition append_task_to_history ::
    "task_queue_key \<Rightarrow> historical_task \<Rightarrow> task_db \<Rightarrow> storage_error + task_db" where
  "append_task_to_history k task db =
     and_then (check_task_history_enabled db) (\<lambda>_.
     let db = db\<lparr>tdb_history := (tdb_history db)((k, hist_id task) \<mapsto> task)\<rparr>
     in and_then (get_task_ids_in_history k db) (\<lambda>ids.
          Inr (db\<lparr>tdb_history_ids := (tdb_history_ids db)(k \<mapsto> hist_id task # unwrap_or [] ids)\<rparr>)))"

definition purge_task_history :: "task_queue_key \<Rightarrow> task_db \<Rightarrow> storage_error + task_db" where
  "purge_task_history k db =
     and_then (get_task_ids_in_history k db) (\<lambda>ids.
     let db = fold (\<lambda>t db. db\<lparr>tdb_history := (tdb_history db)((k, t) := None)\<rparr>) (unwrap_or [] ids) db
     in Inr (db\<lparr>tdb_history_ids := (tdb_history_ids db)(k := None)\<rparr>))"

section \<open>Effect of the loops over queues\<close>

abbreviation queue_of :: "task_db \<Rightarrow> task_queue_key \<Rightarrow> task_queue" where
  "queue_of db k \<equiv> get_task_queue_deserialized k db"

definition serial_preempted :: "task_identifier \<Rightarrow> task_queue \<Rightarrow> task_queue" where
  "serial_preempted t q = q\<lparr>serial_tasks := t # serial_tasks q, preemption := SerialPreemptionQueued\<rparr>"

definition serial_heads :: "task_queue_key list \<Rightarrow> task_db \<Rightarrow> task_identifier set" where
  "serial_heads ks db = {h. \<exists>k \<in> set ks. first (serial_tasks (queue_of db k)) = Some h}"

definition requeued :: "task_identifier set \<Rightarrow> task_db \<Rightarrow> task_identifier \<Rightarrow> queued_task option" where
  "requeued hs db t =
     (if t \<in> hs then map_option (\<lambda>x. x\<lparr>task_state := Queued\<rparr>) (tdb_tasks db t) else tdb_tasks db t)"

definition upd_queues ::
    "task_queue_key list \<Rightarrow> (task_queue \<Rightarrow> task_queue) \<Rightarrow> task_db \<Rightarrow> task_queue_key \<Rightarrow> task_queue option" where
  "upd_queues ks g db k = (if k \<in> set ks then Some (g (queue_of db k)) else tdb_queues db k)"

lemma write_task_queue_eq [res_simps]:
  "write_task_queue k q db = Inr db' \<longleftrightarrow>
     check_invariants q = Inr () \<and> db' = db\<lparr>tdb_queues := (tdb_queues db)(k \<mapsto> q)\<rparr>"
  by (auto simp: write_task_queue_def res_simps)

lemma queue_of_simps [simp]:
  "queue_of (db\<lparr>tdb_queues := Q\<rparr>) k = unwrap_or task_queue_default (Q k)"
  "queue_of (db\<lparr>tdb_tasks := T\<rparr>) k = queue_of db k"
  "queue_of (db\<lparr>tdb_task_keys := K\<rparr>) k = queue_of db k"
  "queue_of (db\<lparr>tdb_pending := P\<rparr>) k = queue_of db k"
  "queue_of (db\<lparr>tdb_pending_seq := n\<rparr>) k = queue_of db k"
  "queue_of (db\<lparr>tdb_yields := Y\<rparr>) k = queue_of db k"
  by (simp_all add: get_task_queue_deserialized_def)

text \<open>A loop that rewrites one queue per iteration, over distinct queues, rewrites them all.\<close>

lemma try_fold_queues:
  assumes "distinct ks"
    and f: "\<And>k db db'. f k db = Inr db' \<longleftrightarrow>
              ok (queue_of db k) \<and> db' = db\<lparr>tdb_queues := (tdb_queues db)(k \<mapsto> g (queue_of db k))\<rparr>"
  shows "try_fold f ks db = Inr db' \<longleftrightarrow>
           (\<forall>k \<in> set ks. ok (queue_of db k)) \<and> db' = db\<lparr>tdb_queues := upd_queues ks g db\<rparr>"
  using assms(1)
proof (induction ks arbitrary: db)
  case Nil
  then show ?case by (auto simp: upd_queues_def)
next
  case (Cons k ks)
  let ?db = "db\<lparr>tdb_queues := (tdb_queues db)(k \<mapsto> g (queue_of db k))\<rparr>"
  have same: "queue_of ?db k' = queue_of db k'" if "k' \<in> set ks" for k'
    using Cons.prems that by (auto simp: get_task_queue_deserialized_def)
  have "upd_queues ks g ?db = upd_queues (k # ks) g db"
    using same Cons.prems by (auto simp: upd_queues_def fun_eq_iff)
  then show ?case
    using same Cons.IH [of ?db] Cons.prems by (auto simp: res_simps f)
qed

lemma pop_from_queue_eq:
  "pop_from_queue t k db = Inr db' \<longleftrightarrow>
     (fst (q_pop_task t (queue_of db k)) \<and> check_invariants (snd (q_pop_task t (queue_of db k))) = Inr ()) \<and>
     db' = db\<lparr>tdb_queues := (tdb_queues db)(k \<mapsto> snd (q_pop_task t (queue_of db k)))\<rparr>"
  by (cases "q_pop_task t (queue_of db k)") (auto simp: pop_from_queue_def res_simps)

definition concurrent_preempted :: "task_identifier \<Rightarrow> task_queue \<Rightarrow> task_queue" where
  "concurrent_preempted t q =
     q\<lparr>concurrent_tasks := concurrent_tasks q @ [t], preemption := ConcurrentPreemptionsQueued\<rparr>"

lemma preempt_one_concurrent_eq:
  "preempt_one_concurrent task k db = Inr db' \<longleftrightarrow>
     (serial_tasks (queue_of db k) = [] \<and>
      check_invariants (concurrent_preempted (task_id task) (queue_of db k)) = Inr ()) \<and>
     db' = db\<lparr>tdb_queues := (tdb_queues db)(k \<mapsto> concurrent_preempted (task_id task) (queue_of db k))\<rparr>"
  by (auto simp: preempt_one_concurrent_def preempt_with_concurrent_task_def can_preempt_concurrent_def
      concurrent_preempted_def res_simps)

lemmas pop_loop = try_fold_queues [OF _ pop_from_queue_eq]
lemmas preempt_concurrent_loop = try_fold_queues [OF _ preempt_one_concurrent_eq]

text \<open>
  A queue may be preempted by a serial task when no serial preemption is queued and its head
  is stored and not committed, or committed but allowed to yield.
\<close>

definition preempt_ready :: "bool \<Rightarrow> task_db \<Rightarrow> task_queue_key \<Rightarrow> bool" where
  "preempt_ready allow_yield db k \<longleftrightarrow>
     can_preempt_serial (queue_of db k) \<and>
     (\<forall>h. first (serial_tasks (queue_of db k)) = Some h \<longrightarrow>
        (\<exists>task. tdb_tasks db h = Some task \<and>
           (is_committed (task_state task) \<longrightarrow> allow_yield \<and> is_yieldable (descriptor task))))"

lemma default_queue_simps [simp]:
  "concurrent_tasks task_queue_default = []" "serial_tasks task_queue_default = []"
  "preemption task_queue_default = NotPreempted"
  by (simp_all add: task_queue_default_def)

lemma is_serial_preemption_safe_eq:
  "is_serial_preemption_safe k db =
     (case first (serial_tasks (queue_of db k)) of
        None \<Rightarrow> Inr (can_preempt_serial (queue_of db k))
      | Some t \<Rightarrow>
          and_then (ok_or (Rejected ERR_TASK_NOT_FOUND) (tdb_tasks db t))
            (\<lambda>task. Inr (can_preempt_serial (queue_of db k) \<and> \<not> is_committed (task_state task))))"
  by (cases "tdb_queues db k")
    (simp_all add: is_serial_preemption_safe_def get_task_queue_deserialized_def can_preempt_serial_def
      split: option.split)

lemma head_is_yieldable_eq:
  "head_is_yieldable k db =
     (case first (serial_tasks (queue_of db k)) of
        None \<Rightarrow> Inr False
      | Some t \<Rightarrow>
          and_then (ok_or (Rejected ERR_TASK_NOT_FOUND) (tdb_tasks db t))
            (\<lambda>task. Inr (is_committed (task_state task) \<and> is_yieldable (descriptor task))))"
  by (cases "tdb_queues db k") (simp_all add: head_is_yieldable_def get_task_queue_deserialized_def
      split: option.split)

lemma preempt_one_serial_eq:
  "preempt_one_serial task ay k db = Inr db' \<longleftrightarrow>
     preempt_ready ay db k \<and> check_invariants (serial_preempted (task_id task) (queue_of db k)) = Inr () \<and>
     db' = db\<lparr>tdb_queues := (tdb_queues db)(k \<mapsto> serial_preempted (task_id task) (queue_of db k)),
              tdb_tasks := requeued (serial_heads [k] db) db\<rparr>"
proof (cases "serial_tasks (queue_of db k)")
  case Nil
  then have "requeued (serial_heads [k] db) db = tdb_tasks db"
    by (simp add: fun_eq_iff requeued_def serial_heads_def)
  then show ?thesis
    using Nil
    by (auto simp: preempt_one_serial_def is_serial_preemption_safe_eq head_is_yieldable_eq preempt_ready_def
        preempt_with_serial_task_def serial_preempted_def res_simps)
next
  case (Cons h hs)
  then have heads: "serial_heads [k] db = {h}" by (simp add: serial_heads_def)
  show ?thesis
  proof (cases "tdb_tasks db h")
    case None
    then show ?thesis
      using Cons by (simp add: preempt_one_serial_def is_serial_preemption_safe_eq preempt_ready_def)
  next
    case (Some x)
    then have "(tdb_tasks db)(h \<mapsto> x\<lparr>task_state := Queued\<rparr>) = requeued {h} db"
      by (auto simp: requeued_def fun_eq_iff)
    then show ?thesis
      using Cons Some heads
      by (auto simp: preempt_one_serial_def is_serial_preemption_safe_eq head_is_yieldable_eq preempt_ready_def
          preempt_with_serial_task_def serial_preempted_def requeue_task_def update_task_def res_simps Let_def
          split: if_splits)
  qed
qed

lemma requeued_requeued:
  "requeued hs' (db\<lparr>tdb_queues := Q, tdb_tasks := requeued hs db\<rparr>) = requeued (hs \<union> hs') db"
  by (auto simp: requeued_def fun_eq_iff option.map_comp o_def)

lemma requeued_Some:
  "requeued hs db t = Some x \<longleftrightarrow>
     (\<exists>y. tdb_tasks db t = Some y \<and> x = (if t \<in> hs then y\<lparr>task_state := Queued\<rparr> else y))"
  by (auto simp: requeued_def)

lemma is_committed_Queued [simp]: "\<not> is_committed Queued" and is_running_Queued [simp]: "\<not> is_running Queued"
  by (simp_all add: is_committed_def is_running_def)

definition preempted_db :: "task_queue_key list \<Rightarrow> task_identifier \<Rightarrow> task_db \<Rightarrow> task_db" where
  "preempted_db ks t db =
     db\<lparr>tdb_queues := upd_queues ks (serial_preempted t) db,
        tdb_tasks := requeued (serial_heads ks db) db\<rparr>"

lemma preempted_db_Nil [simp]: "preempted_db [] t db = db"
proof -
  have "upd_queues [] g db = tdb_queues db" for g by (simp add: upd_queues_def fun_eq_iff)
  moreover have "requeued {} db = tdb_tasks db" by (simp add: requeued_def fun_eq_iff)
  ultimately show ?thesis by (simp add: preempted_db_def serial_heads_def)
qed

lemma preempted_db_Cons:
  assumes "distinct (k # ks)"
  shows "preempted_db (k # ks) t db = preempted_db ks t (preempted_db [k] t db)"
    and "\<forall>k' \<in> set ks. queue_of (preempted_db [k] t db) k' = queue_of db k'"
proof -
  let ?db = "preempted_db [k] t db"
  have same: "queue_of ?db k' = queue_of db k'" if "k' \<noteq> k" for k'
    using that by (simp add: preempted_db_def upd_queues_def get_task_queue_deserialized_def)
  then show all: "\<forall>k' \<in> set ks. queue_of ?db k' = queue_of db k'" using assms by fastforce
  have "upd_queues ks (serial_preempted t) ?db = upd_queues (k # ks) (serial_preempted t) db"
    using same assms by (auto simp: fun_eq_iff upd_queues_def preempted_db_def)
  moreover have "serial_heads [k] db \<union> serial_heads ks ?db = serial_heads (k # ks) db"
    using all by (auto simp: serial_heads_def)
  then have "requeued (serial_heads ks ?db) ?db = requeued (serial_heads (k # ks) db) db"
    by (simp add: preempted_db_def requeued_requeued)
  ultimately show "preempted_db (k # ks) t db = preempted_db ks t ?db"
    by (simp add: preempted_db_def)
qed

lemma preempt_one_serial_eq':
  "preempt_one_serial task ay k db = Inr db' \<longleftrightarrow>
     preempt_ready ay db k \<and> check_invariants (serial_preempted (task_id task) (queue_of db k)) = Inr () \<and>
     db' = preempted_db [k] (task_id task) db"
proof -
  have "upd_queues [k] g db = (tdb_queues db)(k \<mapsto> g (queue_of db k))" for g
    by (auto simp: upd_queues_def)
  then show ?thesis by (simp add: preempt_one_serial_eq preempted_db_def)
qed

lemma preempt_serial_loop:
  assumes "distinct ks" and "try_fold (preempt_one_serial task ay) ks db = Inr db'"
  shows "(\<forall>k \<in> set ks. can_preempt_serial (queue_of db k) \<and>
            check_invariants (serial_preempted (task_id task) (queue_of db k)) = Inr ()) \<and>
         db' = preempted_db ks (task_id task) db"
  using assms
proof (induction ks arbitrary: db)
  case Nil
  then show ?case by simp
next
  case (Cons k ks)
  then have "preempt_ready ay db k" "check_invariants (serial_preempted (task_id task) (queue_of db k)) = Inr ()"
    and "try_fold (preempt_one_serial task ay) ks (preempted_db [k] (task_id task) db) = Inr db'"
    by (auto simp: res_simps preempt_one_serial_eq')
  with Cons.IH [of "preempted_db [k] (task_id task) db"] Cons.prems(1) preempted_db_Cons [OF Cons.prems(1)]
  show ?case by (auto simp: preempt_ready_def)
qed

lemma preempt_serial_loop_succeeds:
  assumes "distinct ks"
    and "\<forall>k \<in> set ks. preempt_ready ay db k \<and>
           check_invariants (serial_preempted (task_id task) (queue_of db k)) = Inr ()"
  shows "try_fold (preempt_one_serial task ay) ks db = Inr (preempted_db ks (task_id task) db)"
  using assms
proof (induction ks arbitrary: db)
  case Nil
  then show ?case by simp
next
  case (Cons k ks)
  let ?db = "preempted_db [k] (task_id task) db"
  have one: "preempt_one_serial task ay k db = Inr ?db"
    using Cons.prems(2) by (simp add: preempt_one_serial_eq')
  have same: "\<forall>k' \<in> set ks. queue_of ?db k' = queue_of db k'"
    by (rule preempted_db_Cons [OF Cons.prems(1)])
  have "preempt_ready ay ?db k'" if k': "k' \<in> set ks" for k'
  proof -
    have r: "preempt_ready ay db k'" using Cons.prems(2) k' by simp
    have "\<exists>y. requeued (serial_heads [k] db) db h = Some y \<and>
            (is_committed (task_state y) \<longrightarrow> ay \<and> is_yieldable (descriptor y))"
      if "first (serial_tasks (queue_of db k')) = Some h" for h
    proof -
      from r that obtain x where "tdb_tasks db h = Some x"
        "is_committed (task_state x) \<longrightarrow> ay \<and> is_yieldable (descriptor x)"
        by (auto simp: preempt_ready_def)
      then show ?thesis by (auto simp: requeued_def)
    qed
    then show ?thesis
      using r same k' by (simp add: preempt_ready_def) (simp add: preempted_db_def)
  qed
  then have "try_fold (preempt_one_serial task ay) ks ?db = Inr (preempted_db ks (task_id task) ?db)"
    using Cons.IH [of ?db] Cons.prems same by simp
  then show ?case by (simp add: one preempted_db_Cons(1) [OF Cons.prems(1)])
qed

end
