(* ===== verification/Task_Consistency.thy ===== *)
theory Task_Consistency
  imports Task_Storage
begin

text \<open>
  The invariant of the task tables and its preservation by the operations of
  \<open>state/src/storage/tx/task_queue/storage.rs\<close>. New tasks carry fresh identifiers,
  start out queued, and a preempting task is never one that yields, as the callers of the
  storage layer guarantee.
\<close>

section \<open>The invariant\<close>

definition queues_ok :: "task_db \<Rightarrow> bool" where
  "queues_ok db \<longleftrightarrow> (\<forall>k. queue_inv (queue_of db k))"

text \<open>A stored task is in exactly the queues it is indexed under.\<close>

definition index_ok :: "task_db \<Rightarrow> bool" where
  "index_ok db \<longleftrightarrow>
     dom (tdb_tasks db) = dom (tdb_task_keys db) \<and>
     (\<forall>t ks. tdb_task_keys db t = Some ks \<longrightarrow>
        distinct ks \<and> (\<forall>k. t \<in> set (all_tasks (queue_of db k)) \<longleftrightarrow> k \<in> set ks))"

text \<open>A task that is marked as running holds all of its queues.\<close>

definition running_ok :: "task_db \<Rightarrow> bool" where
  "running_ok db \<longleftrightarrow>
     (\<forall>t task. tdb_tasks db t = Some task \<longrightarrow>
        task_id task = t \<and> (is_running (task_state task) \<longrightarrow> tx_can_task_run t db))"

text \<open>The task at the head of a serially preempted queue is not one that yields.\<close>

definition heads_ok :: "task_db \<Rightarrow> bool" where
  "heads_ok db \<longleftrightarrow>
     (\<forall>k h task. preemption (queue_of db k) = SerialPreemptionQueued \<longrightarrow>
        first (serial_tasks (queue_of db k)) = Some h \<longrightarrow> tdb_tasks db h = Some task \<longrightarrow>
        \<not> is_yieldable (descriptor task))"

definition core_ok :: "task_db \<Rightarrow> bool" where
  "core_ok db \<longleftrightarrow> queues_ok db \<and> index_ok db \<and> running_ok db \<and> heads_ok db"

definition live_ids :: "task_db \<Rightarrow> task_identifier set" where
  "live_ids db = dom (tdb_tasks db) \<union> (\<Union>k. set (all_tasks (queue_of db k)))"

text \<open>
  Deferred preemptions: each queue holds at most 64 of them in ascending sequence, an entry is
  in the list of each of its queues, sequence numbers and task identifiers identify an entry,
  and the deferred tasks are not stored yet.
\<close>

definition pending_entries :: "task_db \<Rightarrow> pending_entry set" where
  "pending_entries db = (\<Union>k. set (get_pending_preempt_list k db))"

definition pending_lists_ok :: "task_db \<Rightarrow> bool" where
  "pending_lists_ok db \<longleftrightarrow>
     (\<forall>k. length (get_pending_preempt_list k db) \<le> MAX_PENDING_PER_QUEUE \<and>
          sorted_wrt (\<lambda>a b. pe_seq a < pe_seq b) (get_pending_preempt_list k db)) \<and>
     (\<forall>e \<in> pending_entries db. pe_seq e \<le> unwrap_or 0 (tdb_pending_seq db) \<and> distinct (target_keys e) \<and>
        {k. e \<in> set (get_pending_preempt_list k db)} = set (target_keys e)) \<and>
     inj_on pe_seq (pending_entries db)"

definition pending_tasks_ok :: "task_db \<Rightarrow> bool" where
  "pending_tasks_ok db \<longleftrightarrow>
     (\<forall>e \<in> pending_entries db.
        task_state (pe_task e) = Queued \<and> \<not> is_yieldable (descriptor (pe_task e)) \<and>
        task_id (pe_task e) \<notin> live_ids db) \<and>
     inj_on (\<lambda>e. task_id (pe_task e)) (pending_entries db)"

definition yields_ok :: "task_db \<Rightarrow> bool" where
  "yields_ok db \<longleftrightarrow> (\<forall>k. yield_count k db \<le> MAX_CONSECUTIVE_YIELDS)"

definition db_ok :: "task_db \<Rightarrow> bool" where
  "db_ok db \<longleftrightarrow> core_ok db \<and> pending_lists_ok db \<and> pending_tasks_ok db \<and> yields_ok db"

definition fresh_task :: "queued_task \<Rightarrow> task_db \<Rightarrow> bool" where
  "fresh_task task db \<longleftrightarrow> task_state task = Queued \<and> task_id task \<notin> live_ids db"

text \<open>The tasks that may run and do not.\<close>

definition idle_tasks :: "task_db \<Rightarrow> task_identifier set" where
  "idle_tasks db =
     {t. \<exists>task. tdb_tasks db t = Some task \<and> \<not> is_running (task_state task) \<and> tx_can_task_run t db}"

lemma stored_keys: "core_ok db \<Longrightarrow> tdb_tasks db t = Some x \<Longrightarrow> \<exists>ks. tdb_task_keys db t = Some ks"
  unfolding core_ok_def index_ok_def by (metis domD domI)

section \<open>Queue lemmas\<close>

lemma queue_of_Some: "tdb_queues db k = Some q \<Longrightarrow> queue_of db k = q"
  by (simp add: get_task_queue_deserialized_def)

lemma can_task_run_default [simp]: "\<not> can_task_run t task_queue_default"
  by (simp add: can_task_run_iff)

lemma tx_can_task_run_iff:
  "tx_can_task_run t db \<longleftrightarrow> (\<forall>k \<in> set (get_queue_keys_for_task t db). can_task_run t (queue_of db k))"
proof -
  have "(case tdb_queues db k of None \<Rightarrow> False | Some q \<Rightarrow> can_task_run t q) = can_task_run t (queue_of db k)" for k
    by (cases "tdb_queues db k") (simp_all add: get_task_queue_deserialized_def)
  then show ?thesis by (simp add: tx_can_task_run_def list_all_iff)
qed

lemma all_tasks_simps [simp]:
  "set (all_tasks (serial_preempted t q)) = insert t (set (all_tasks q))"
  "set (all_tasks (concurrent_preempted t q)) = insert t (set (all_tasks q))"
  "set (all_tasks (q_enqueue_serial_task t q)) = insert t (set (all_tasks q))"
  "all_tasks task_queue_default = []"
  by (auto simp: all_tasks_def serial_preempted_def concurrent_preempted_def q_enqueue_serial_task_def)

lemma can_run_serial_preempted:
  "can_task_run t q \<Longrightarrow> first (serial_tasks q) \<noteq> Some t \<Longrightarrow> can_task_run t (serial_preempted n q)"
  by (auto simp: can_task_run_iff serial_preempted_def split: if_splits)

lemma can_run_concurrent_preempted:
  "can_task_run t q \<Longrightarrow> serial_tasks q = [] \<Longrightarrow> can_task_run t (concurrent_preempted n q)"
  by (auto simp: can_task_run_iff concurrent_preempted_def split: if_splits)

lemma can_run_enqueued: "can_task_run t q \<Longrightarrow> can_task_run t (q_enqueue_serial_task n q)"
  by (cases "serial_tasks q") (auto simp: can_task_run_iff q_enqueue_serial_task_def split: if_splits)

lemma can_run_popped:
  assumes "queue_inv q" and "can_task_run t q" and "t \<noteq> n"
    and "fst (q_pop_task n q)" and "check_invariants (snd (q_pop_task n q)) = Inr ()"
  shows "can_task_run t (snd (q_pop_task n q))"
proof -
  have ok: "queue_ok q" "distinct (all_tasks q)" using assms(1) by (simp_all add: queue_inv_def)
  then have "can_task_run n q"
    using pop_runnable [OF ok, of n] assms(4,5) by (simp add: check_invariants_ok)
  with assms(2,3) have mem: "t \<in> set (concurrent_tasks q)" "n \<in> set (concurrent_tasks q)"
    by (auto simp: can_task_run_iff split: if_splits)
  then have "first (serial_tasks q) \<noteq> Some n"
    using ok(2) by (auto simp: all_tasks_def first_eq_Some)
  moreover have "t \<in> set (remove1 n (concurrent_tasks q))"
    using mem(1) assms(3) by simp
  ultimately show ?thesis
    using mem(2) by (auto simp: pop_task_cases [OF ok(1)] can_task_run_iff)
qed

lemma queue_inv_default [simp]: "queue_inv task_queue_default"
  using queue_ok_default by (simp add: queue_inv_def)

lemma queue_inv_serial_preempted:
  "queue_inv q \<Longrightarrow> n \<notin> set (all_tasks q) \<Longrightarrow> can_preempt_serial q \<Longrightarrow>
   check_invariants (serial_preempted n q) = Inr () \<Longrightarrow> queue_inv (serial_preempted n q)"
  by (rule queue_inv_step [OF q_preempt_serial [of n q]])
    (simp_all add: preempt_with_serial_task_def serial_preempted_def)

lemma queue_inv_concurrent_preempted:
  "queue_inv q \<Longrightarrow> n \<notin> set (all_tasks q) \<Longrightarrow> serial_tasks q = [] \<Longrightarrow>
   check_invariants (concurrent_preempted n q) = Inr () \<Longrightarrow> queue_inv (concurrent_preempted n q)"
  by (rule queue_inv_step [OF q_preempt_concurrent [of n q]])
    (simp_all add: preempt_with_concurrent_task_def concurrent_preempted_def can_preempt_concurrent_def)

lemma queue_inv_enqueued:
  "queue_inv q \<Longrightarrow> n \<notin> set (all_tasks q) \<Longrightarrow>
   check_invariants (q_enqueue_serial_task n q) = Inr () \<Longrightarrow> queue_inv (q_enqueue_serial_task n q)"
  by (rule queue_inv_step [OF q_enqueue])

lemma queue_inv_popped:
  "queue_inv q \<Longrightarrow> fst (q_pop_task n q) \<Longrightarrow> check_invariants (snd (q_pop_task n q)) = Inr () \<Longrightarrow>
   queue_inv (snd (q_pop_task n q))"
  by (rule queue_inv_step [OF q_pop [of n q]]) (simp_all add: prod_eq_iff)

lemma popped_tasks:
  "queue_inv q \<Longrightarrow> fst (q_pop_task n q) \<Longrightarrow>
   set (all_tasks (snd (q_pop_task n q))) = set (all_tasks q) - {n}"
  by (simp add: pop_all_tasks queue_inv_def set_remove1_eq)

lemma preempting_always_valid:
  "queue_inv q \<Longrightarrow> check_invariants (serial_preempted n q) = Inr ()"
  by (simp add: check_invariants_ok queue_inv_def serial_preempted_def check_preemption_state_def)

section \<open>Adding a task\<close>

text \<open>
  The three ways of adding a task rewrite each of its queues by a function \<open>g\<close> where
  \<open>ok\<close> holds, and put the tasks \<open>requeues\<close> of the queue back into the queued
  state; \<open>preempts\<close> tells whether the new task may come to the head of a preempted
  queue. The laws are what the invariant of the tables needs of one queue.
\<close>

definition task_added ::
    "(task_identifier \<Rightarrow> task_queue \<Rightarrow> task_queue) \<Rightarrow> (task_identifier \<Rightarrow> task_queue \<Rightarrow> bool) \<Rightarrow>
     (task_queue \<Rightarrow> task_identifier set) \<Rightarrow> bool \<Rightarrow> task_queue_key list \<Rightarrow> queued_task \<Rightarrow> task_db \<Rightarrow> task_db \<Rightarrow> bool" where
  "task_added g ok requeues preempts ks task db db' \<longleftrightarrow>
     fresh_task task db \<and> distinct ks \<and> (preempts \<longrightarrow> \<not> is_yieldable (descriptor task)) \<and>
     (\<forall>k \<in> set ks. ok (task_id task) (queue_of db k)) \<and>
     (\<forall>k. queue_of db' k = (if k \<in> set ks then g (task_id task) (queue_of db k) else queue_of db k)) \<and>
     tdb_tasks db' = (requeued (\<Union>k \<in> set ks. requeues (queue_of db k)) db)(task_id task \<mapsto> task) \<and>
     tdb_task_keys db' = (tdb_task_keys db)(task_id task \<mapsto> ks)"

locale queue_insertion =
  fixes g :: "task_identifier \<Rightarrow> task_queue \<Rightarrow> task_queue" and ok :: "task_identifier \<Rightarrow> task_queue \<Rightarrow> bool"
    and requeues :: "task_queue \<Rightarrow> task_identifier set" and preempts :: bool
  assumes ins_inv: "queue_inv q \<Longrightarrow> n \<notin> set (all_tasks q) \<Longrightarrow> ok n q \<Longrightarrow> queue_inv (g n q)"
    and ins_elems: "set (all_tasks (g n q)) = insert n (set (all_tasks q))"
    and ins_run: "ok n q \<Longrightarrow> can_task_run t q \<Longrightarrow> t \<notin> requeues q \<Longrightarrow> can_task_run t (g n q)"
    and ins_heads: "queue_inv q \<Longrightarrow> ok n q \<Longrightarrow> preemption (g n q) = SerialPreemptionQueued \<Longrightarrow>
          first (serial_tasks (g n q)) = Some h \<Longrightarrow>
          (preempts \<and> h = n) \<or> (preemption q = SerialPreemptionQueued \<and> first (serial_tasks q) = Some h)"
    and ins_requeues: "requeues q \<subseteq> set (all_tasks q)"
    and ins_conv: "queue_inv q \<Longrightarrow> ok n q \<Longrightarrow> can_task_run t (g n q) \<Longrightarrow> t \<noteq> n \<Longrightarrow>
          can_task_run t q \<and> t \<notin> requeues q"
begin

lemma fresh_id:
  assumes "task_added g ok requeues preempts ks task db db'"
  shows "tdb_tasks db (task_id task) = None" "task_id task \<notin> set (all_tasks (queue_of db k))"
  using assms by (auto simp: task_added_def fresh_task_def live_ids_def)

lemma elems_queue:
  assumes "task_added g ok requeues preempts ks task db db'"
  shows "set (all_tasks (queue_of db' k)) =
     (if k \<in> set ks then insert (task_id task) (set (all_tasks (queue_of db k))) else set (all_tasks (queue_of db k)))"
  using assms by (simp add: task_added_def ins_elems)

lemma added_dom:
  assumes "task_added g ok requeues preempts ks task db db'"
  shows "dom (tdb_tasks db') = insert (task_id task) (dom (tdb_tasks db))"
    and "dom (tdb_task_keys db') = insert (task_id task) (dom (tdb_task_keys db))"
  using assms by (auto simp: task_added_def requeued_def dom_def split: if_splits)

lemma added_queues:
  assumes "task_added g ok requeues preempts ks task db db'" and "core_ok db"
  shows "queues_ok db'"
  using assms fresh_id(2) [OF assms(1)] by (simp add: task_added_def core_ok_def queues_ok_def ins_inv)

lemma added_index:
  assumes "task_added g ok requeues preempts ks task db db'" and "core_ok db"
  shows "index_ok db'"
proof -
  have "tdb_task_keys db' = (tdb_task_keys db)(task_id task \<mapsto> ks)" "distinct ks"
    using assms(1) by (simp_all add: task_added_def)
  then show ?thesis
    using assms(2) added_dom [OF assms(1)] fresh_id(2) [OF assms(1)]
    by (auto simp: core_ok_def index_ok_def elems_queue [OF assms(1)])
qed

lemma added_running:
  assumes add: "task_added g ok requeues preempts ks task db db'" and core: "core_ok db"
  shows "running_ok db'"
proof -
  let ?hs = "\<Union>k \<in> set ks. requeues (queue_of db k)"
  have "task_id x = t \<and> (is_running (task_state x) \<longrightarrow> tx_can_task_run t db')"
    if x: "tdb_tasks db' t = Some x" for t x
  proof (cases "t = task_id task")
    case True
    then show ?thesis using x add by (simp add: task_added_def fresh_task_def)
  next
    case False
    with x add obtain y where y: "tdb_tasks db t = Some y" "x = (if t \<in> ?hs then y\<lparr>task_state := Queued\<rparr> else y)"
      by (auto simp: task_added_def requeued_Some)
    have "task_id y = t" "is_running (task_state y) \<longrightarrow> tx_can_task_run t db"
      using core y(1) by (simp_all add: core_ok_def running_ok_def)
    moreover have "get_queue_keys_for_task t db' = get_queue_keys_for_task t db"
      using False add by (simp add: get_queue_keys_for_task_def task_added_def)
    moreover have "can_task_run t (queue_of db' k)" if "can_task_run t (queue_of db k)" "t \<notin> ?hs" for k
      using that add ins_run [of "task_id task" "queue_of db k" t] by (auto simp: task_added_def)
    ultimately show ?thesis
      using y(2) by (auto simp: tx_can_task_run_iff)
  qed
  then show ?thesis by (simp add: running_ok_def)
qed

lemma added_heads:
  assumes add: "task_added g ok requeues preempts ks task db db'" and core: "core_ok db"
  shows "heads_ok db'"
proof -
  have "\<not> is_yieldable (descriptor x)"
    if p: "preemption (queue_of db' k) = SerialPreemptionQueued"
      and h: "first (serial_tasks (queue_of db' k)) = Some h" and x: "tdb_tasks db' h = Some x" for k h x
  proof (cases "preempts \<and> h = task_id task")
    case True
    then show ?thesis using x add by (simp add: task_added_def)
  next
    case False
    have "queue_inv (queue_of db k)" using core by (simp add: core_ok_def queues_ok_def)
    then have old: "preemption (queue_of db k) = SerialPreemptionQueued"
        "first (serial_tasks (queue_of db k)) = Some h"
      using False p h add ins_heads [of "queue_of db k" "task_id task" h]
      by (auto simp: task_added_def split: if_splits)
    then have "h \<noteq> task_id task"
      using fresh_id(2) [OF add, of k] by (auto simp: all_tasks_def first_eq_Some)
    then obtain y where "tdb_tasks db h = Some y" "descriptor x = descriptor y"
      using x add by (auto simp: task_added_def requeued_Some)
    then show ?thesis using core old by (auto simp: core_ok_def heads_ok_def)
  qed
  then show ?thesis by (simp add: heads_ok_def)
qed

lemma added_core:
  "task_added g ok requeues preempts ks task db db' \<Longrightarrow> core_ok db \<Longrightarrow> core_ok db'"
  by (simp add: core_ok_def [of db'] added_queues added_index added_running added_heads)

lemma added_idle:
  assumes add: "task_added g ok requeues preempts ks task db db'" and core: "core_ok db"
  shows "idle_tasks db' \<subseteq> insert (task_id task) (idle_tasks db)"
proof
  fix t
  assume idle: "t \<in> idle_tasks db'"
  show "t \<in> insert (task_id task) (idle_tasks db)"
  proof (cases "t = task_id task")
    case False
    let ?hs = "\<Union>k \<in> set ks. requeues (queue_of db k)"
    obtain x where x: "tdb_tasks db' t = Some x" "\<not> is_running (task_state x)" and run: "tx_can_task_run t db'"
      using idle by (auto simp: idle_tasks_def)
    with False add obtain y where y: "tdb_tasks db t = Some y" "x = (if t \<in> ?hs then y\<lparr>task_state := Queued\<rparr> else y)"
      by (auto simp: task_added_def requeued_Some)
    have keys: "get_queue_keys_for_task t db' = get_queue_keys_for_task t db"
      using False add by (simp add: get_queue_keys_for_task_def task_added_def)
    have old: "can_task_run t (queue_of db k) \<and> (k \<in> set ks \<longrightarrow> t \<notin> requeues (queue_of db k))"
      if "k \<in> set (get_queue_keys_for_task t db)" for k
    proof -
      have "queue_inv (queue_of db k)" using core by (simp add: core_ok_def queues_ok_def)
      moreover have "can_task_run t (queue_of db' k)" using run that keys by (simp add: tx_can_task_run_iff)
      ultimately show ?thesis using add False ins_conv [of "queue_of db k" "task_id task" t] by (auto simp: task_added_def split: if_splits)
    qed
    have "t \<notin> ?hs"
    proof
      assume "t \<in> ?hs"
      then obtain k where k: "k \<in> set ks" "t \<in> requeues (queue_of db k)" by blast
      then have "t \<in> set (all_tasks (queue_of db k))" using ins_requeues by blast
      moreover obtain ks' where "tdb_task_keys db t = Some ks'"
        using stored_keys [OF core y(1)] by blast
      ultimately have "k \<in> set (get_queue_keys_for_task t db)"
        using core by (auto simp: core_ok_def index_ok_def get_queue_keys_for_task_def)
      then show False using old k by blast
    qed
    then show ?thesis using x y old by (auto simp: idle_tasks_def tx_can_task_run_iff)
  qed simp
qed

lemma added_live:
  assumes "task_added g ok requeues preempts ks task db db'"
  shows "live_ids db' = insert (task_id task) (live_ids db)"
  using added_dom [OF assms] by (auto simp: live_ids_def elems_queue [OF assms] split: if_splits)

end

lemma enqueued_run_conv:
  "can_task_run t (q_enqueue_serial_task n q) \<Longrightarrow> t \<noteq> n \<Longrightarrow> can_task_run t q"
  by (cases "serial_tasks q") (auto simp: can_task_run_iff q_enqueue_serial_task_def split: if_splits)

lemma serial_preempted_run_conv:
  "queue_inv q \<Longrightarrow> can_task_run t (serial_preempted n q) \<Longrightarrow> t \<noteq> n \<Longrightarrow>
   can_task_run t q \<and> first (serial_tasks q) \<noteq> Some t"
  by (auto simp: can_task_run_iff serial_preempted_def queue_inv_def all_tasks_def first_eq_Some split: if_splits)

lemma concurrent_preempted_run_conv:
  "can_task_run t (concurrent_preempted n q) \<Longrightarrow> t \<noteq> n \<Longrightarrow> can_task_run t q"
  by (auto simp: can_task_run_iff concurrent_preempted_def)

interpretation enqueuing: queue_insertion
  q_enqueue_serial_task "\<lambda>n q. check_invariants (q_enqueue_serial_task n q) = Inr ()" "\<lambda>_. {}" False
proof unfold_locales
  fix q n h
  assume "queue_inv q" and "preemption (q_enqueue_serial_task n q) = SerialPreemptionQueued"
    and "first (serial_tasks (q_enqueue_serial_task n q)) = Some h"
  then show "(False \<and> h = n) \<or> (preemption q = SerialPreemptionQueued \<and> first (serial_tasks q) = Some h)"
    by (cases "serial_tasks q") (auto simp: q_enqueue_serial_task_def queue_inv_def queue_ok_def)
next
  show "can_task_run t q \<and> t \<notin> {}" if "can_task_run t (q_enqueue_serial_task n q)" "t \<noteq> n" for q t n
    using enqueued_run_conv [OF that] by simp
qed (simp_all add: queue_inv_enqueued can_run_enqueued)

interpretation serial_preempting: queue_insertion serial_preempted
  "\<lambda>n q. can_preempt_serial q \<and> check_invariants (serial_preempted n q) = Inr ()"
  "\<lambda>q. {h. first (serial_tasks q) = Some h}" True
proof unfold_locales
  show "{h. first (serial_tasks q) = Some h} \<subseteq> set (all_tasks q)" for q
    by (auto simp: first_eq_Some all_tasks_def)
  show "can_task_run t q \<and> t \<notin> {h. first (serial_tasks q) = Some h}"
    if "queue_inv q" "can_task_run t (serial_preempted n q)" "t \<noteq> n" for q t n
    using serial_preempted_run_conv [OF that] by simp
qed (simp_all add: queue_inv_serial_preempted can_run_serial_preempted, simp add: serial_preempted_def)

interpretation concurrent_preempting: queue_insertion concurrent_preempted
  "\<lambda>n q. serial_tasks q = [] \<and> check_invariants (concurrent_preempted n q) = Inr ()" "\<lambda>_. {}" False
proof unfold_locales
  show "can_task_run t q \<and> t \<notin> {}" if "can_task_run t (concurrent_preempted n q)" "t \<noteq> n" for q t n
    using concurrent_preempted_run_conv [OF that] by simp
qed (simp_all add: queue_inv_concurrent_preempted can_run_concurrent_preempted, simp add: concurrent_preempted_def)

section \<open>The operations that add a task\<close>

text \<open>Everything but the queues, the tasks and their index is left alone.\<close>

definition same_rest :: "task_db \<Rightarrow> task_db \<Rightarrow> bool" where
  "same_rest db db' \<longleftrightarrow>
     db'\<lparr>tdb_queues := tdb_queues db, tdb_tasks := tdb_tasks db, tdb_task_keys := tdb_task_keys db\<rparr> = db"

abbreviation "enqueued_task \<equiv>
  task_added q_enqueue_serial_task (\<lambda>n q. check_invariants (q_enqueue_serial_task n q) = Inr ()) (\<lambda>_. {}) False"

abbreviation "serially_added \<equiv>
  task_added serial_preempted (\<lambda>n q. can_preempt_serial q \<and> check_invariants (serial_preempted n q) = Inr ())
    (\<lambda>q. {h. first (serial_tasks q) = Some h}) True"

abbreviation "concurrently_added \<equiv>
  task_added concurrent_preempted
    (\<lambda>n q. serial_tasks q = [] \<and> check_invariants (concurrent_preempted n q) = Inr ()) (\<lambda>_. {}) False"

lemma requeued_empty [simp]: "requeued {} db = tdb_tasks db"
  by (simp add: requeued_def fun_eq_iff)

lemma same_rest_pending:
  assumes "same_rest db db'"
  shows "tdb_pending db' = tdb_pending db" "tdb_pending_seq db' = tdb_pending_seq db"
    "tdb_yields db' = tdb_yields db" "tdb_assigned db' = tdb_assigned db"
    "tdb_assignment db' = tdb_assignment db" "tdb_history_ids db' = tdb_history_ids db"
    "tdb_history db' = tdb_history db" "tdb_history_enabled db' = tdb_history_enabled db"
    "tdb_peer_id db' = tdb_peer_id db"
  using assms by (cases db; cases db'; simp add: same_rest_def)+

lemma enqueue_serial_task_added:
  assumes "enqueue_serial_task k task db = Inr db'" and "fresh_task task db"
  shows "enqueued_task [k] task db db'" and "same_rest db db'"
proof -
  let ?q = "q_enqueue_serial_task (task_id task) (queue_of db k)"
  have c: "check_invariants ?q = Inr ()"
    and db': "db' = write_task (task_id task) [k] task (db\<lparr>tdb_queues := (tdb_queues db)(k \<mapsto> ?q)\<rparr>)"
    using assms(1) by (auto simp: enqueue_serial_task_def res_simps)
  show "enqueued_task [k] task db db'"
    using c assms(2)
    by (simp add: task_added_def db' write_task_def update_task_def update_task_to_queues_def)
      (simp add: get_task_queue_deserialized_def)
  show "same_rest db db'"
    by (simp add: same_rest_def db' write_task_def update_task_def update_task_to_queues_def)
qed

lemma do_preempt_serial_inner_added:
  assumes "do_preempt_serial_inner ks task ay db = Inr db'" and "fresh_task task db" and "distinct ks"
    and "\<not> is_yieldable (descriptor task)"
  shows "serially_added ks task db db'" and "same_rest db db'"
proof -
  obtain db1 where db1: "try_fold (preempt_one_serial task ay) ks db = Inr db1"
    and db': "db' = write_task (task_id task) ks task db1"
    using assms(1) by (auto simp: do_preempt_serial_inner_def res_simps)
  note loop = preempt_serial_loop [OF assms(3) db1]
  have heads: "serial_heads ks db = (\<Union>k \<in> set ks. {h. first (serial_tasks (queue_of db k)) = Some h})"
    by (auto simp: serial_heads_def)
  show "serially_added ks task db db'"
    using loop assms(2-4)
    by (simp add: task_added_def db' write_task_def update_task_def update_task_to_queues_def
        preempted_db_def heads upd_queues_def)
      (simp add: get_task_queue_deserialized_def)
  show "same_rest db db'"
    using loop
    by (simp add: same_rest_def db' write_task_def update_task_def update_task_to_queues_def preempted_db_def)
qed

lemma preempt_queue_with_concurrent_added:
  assumes "preempt_queue_with_concurrent ks task db = Inr db'" and "fresh_task task db" and "distinct ks"
  shows "concurrently_added ks task db db'" and "same_rest db db'"
proof -
  obtain db1 where db1: "try_fold (preempt_one_concurrent task) ks db = Inr db1"
    and db': "db' = write_task (task_id task) ks task db1"
    using assms(1) by (auto simp: preempt_queue_with_concurrent_def res_simps)
  note loop = db1 [unfolded preempt_concurrent_loop [OF assms(3)]]
  show "concurrently_added ks task db db'"
    using loop assms(2,3)
    by (simp add: task_added_def db' write_task_def update_task_def update_task_to_queues_def upd_queues_def)
      (simp add: get_task_queue_deserialized_def)
  show "same_rest db db'"
    using loop by (simp add: same_rest_def db' write_task_def update_task_def update_task_to_queues_def)
qed

section \<open>Deferred preemptions under the other operations\<close>

lemma pending_entries_same:
  "tdb_pending db' = tdb_pending db \<Longrightarrow> pending_entries db' = pending_entries db"
  by (simp add: pending_entries_def get_pending_preempt_list_def)

lemma pending_lists_ok_same:
  "tdb_pending db' = tdb_pending db \<Longrightarrow> tdb_pending_seq db' = tdb_pending_seq db \<Longrightarrow>
   pending_lists_ok db' = pending_lists_ok db"
  by (simp add: pending_lists_ok_def pending_entries_def get_pending_preempt_list_def)

lemma pending_tasks_ok_same:
  assumes "pending_tasks_ok db" and "tdb_pending db' = tdb_pending db"
    and "live_ids db' \<subseteq> live_ids db \<union> X" and "\<forall>e \<in> pending_entries db. task_id (pe_task e) \<notin> X"
  shows "pending_tasks_ok db'"
  using assms(1,3,4) by (auto simp: pending_tasks_ok_def pending_entries_same [OF assms(2)])

lemma yields_ok_same: "tdb_yields db' = tdb_yields db \<Longrightarrow> yields_ok db' = yields_ok db"
  by (simp add: yields_ok_def yield_count_def)

text \<open>What a new task must satisfy, deferred tasks included.\<close>

definition new_task :: "queued_task \<Rightarrow> task_db \<Rightarrow> bool" where
  "new_task task db \<longleftrightarrow>
     fresh_task task db \<and> (\<forall>e \<in> pending_entries db. task_id (pe_task e) \<noteq> task_id task)"

lemma db_ok_added:
  assumes "db_ok db" and "new_task task db" and "same_rest db db'"
    and "core_ok db'" and "live_ids db' = insert (task_id task) (live_ids db)"
  shows "db_ok db'"
proof -
  note same = same_rest_pending [OF assms(3)]
  have "pending_tasks_ok db'"
    using assms pending_tasks_ok_same [of db db' "{task_id task}"] same
    by (auto simp: db_ok_def new_task_def)
  then show ?thesis
    using assms same pending_lists_ok_same [of db' db] yields_ok_same [of db' db] by (simp add: db_ok_def)
qed

lemma db_ok_enqueue:
  assumes "enqueue_serial_task k task db = Inr db'" and "db_ok db" and "new_task task db"
  shows "db_ok db'"
proof -
  note add = enqueue_serial_task_added [OF assms(1)]
  show ?thesis
    using add assms enqueuing.added_core enqueuing.added_live
    by (intro db_ok_added [OF assms(2,3)]) (auto simp: new_task_def db_ok_def)
qed

lemma db_ok_do_preempt:
  assumes "do_preempt_serial_inner ks task ay db = Inr db'" and "db_ok db" and "new_task task db"
    and "distinct ks" and "\<not> is_yieldable (descriptor task)"
  shows "db_ok db'"
proof -
  note add = do_preempt_serial_inner_added [OF assms(1) _ assms(4,5)]
  show ?thesis
    using add assms serial_preempting.added_core serial_preempting.added_live
    by (intro db_ok_added [OF assms(2,3)]) (auto simp: new_task_def db_ok_def)
qed

lemma db_ok_preempt_concurrent:
  assumes "preempt_queue_with_concurrent ks task db = Inr db'" and "db_ok db" and "new_task task db"
    and "distinct ks"
  shows "db_ok db'"
proof -
  note add = preempt_queue_with_concurrent_added [OF assms(1) _ assms(4)]
  show ?thesis
    using add assms concurrent_preempting.added_core concurrent_preempting.added_live
    by (intro db_ok_added [OF assms(2,3)]) (auto simp: new_task_def db_ok_def)
qed

section \<open>Popping a task\<close>

definition popped_db :: "task_identifier \<Rightarrow> task_db \<Rightarrow> task_db" where
  "popped_db t db =
     db\<lparr>tdb_queues := upd_queues (get_queue_keys_for_task t db) (\<lambda>q. snd (q_pop_task t q)) db,
        tdb_tasks := (tdb_tasks db)(t := None), tdb_task_keys := (tdb_task_keys db)(t := None)\<rparr>"

definition poppable :: "task_identifier \<Rightarrow> task_db \<Rightarrow> bool" where
  "poppable t db \<longleftrightarrow>
     (\<forall>k \<in> set (get_queue_keys_for_task t db). fst (q_pop_task t (queue_of db k)) \<and>
        check_invariants (snd (q_pop_task t (queue_of db k))) = Inr ())"

lemma distinct_task_keys: "core_ok db \<Longrightarrow> distinct (get_queue_keys_for_task t db)"
  by (cases "tdb_task_keys db t") (auto simp: core_ok_def index_ok_def get_queue_keys_for_task_def)

lemma pop_task_eq:
  assumes "core_ok db"
  shows "pop_task t db = Inr (r, db') \<longleftrightarrow>
     poppable t db \<and> r = tdb_tasks db t \<and> db' = popped_db t db"
  using pop_loop [OF distinct_task_keys [OF assms], of t t db]
  by (auto simp: pop_task_def res_simps delete_task_def popped_db_def poppable_def)

lemma queue_of_popped:
  "queue_of (popped_db t db) k =
     (if k \<in> set (get_queue_keys_for_task t db) then snd (q_pop_task t (queue_of db k)) else queue_of db k)"
  by (simp add: popped_db_def upd_queues_def) (simp add: get_task_queue_deserialized_def)

lemma keys_popped:
  "t' \<noteq> t \<Longrightarrow> get_queue_keys_for_task t' (popped_db t db) = get_queue_keys_for_task t' db"
  by (simp add: get_queue_keys_for_task_def popped_db_def)

lemma popped_head:
  assumes "queue_inv q" and "preemption (snd (q_pop_task t q)) = SerialPreemptionQueued"
    and "first (serial_tasks (snd (q_pop_task t q))) = Some h"
  shows "preemption q = SerialPreemptionQueued \<and> first (serial_tasks q) = Some h"
proof -
  have "queue_ok q" using assms(1) by (simp add: queue_inv_def)
  then show ?thesis using assms(2,3) by (auto simp: pop_task_cases split: if_splits)
qed

lemma popped_queues:
  assumes core: "core_ok db" and popped: "poppable t db"
  shows "queues_ok (popped_db t db)"
  using core popped by (auto simp: poppable_def queues_ok_def queue_of_popped core_ok_def queue_inv_popped)

lemma popped_members:
  assumes core: "core_ok db" and popped: "poppable t db"
  shows "set (all_tasks (queue_of (popped_db t db) k)) =
     (if k \<in> set (get_queue_keys_for_task t db) then set (all_tasks (queue_of db k)) - {t}
      else set (all_tasks (queue_of db k)))"
  using core popped by (simp add: poppable_def queue_of_popped core_ok_def queues_ok_def popped_tasks)

lemma popped_index:
  assumes core: "core_ok db" and popped: "poppable t db"
  shows "index_ok (popped_db t db)"
  using core popped_members [OF assms] by (auto simp: core_ok_def index_ok_def) (auto simp: popped_db_def split: if_splits)

lemma popped_running:
  assumes core: "core_ok db" and popped: "poppable t db"
  shows "running_ok (popped_db t db)"
proof -
  have "task_id x = t' \<and> (is_running (task_state x) \<longrightarrow> tx_can_task_run t' (popped_db t db))"
    if x: "tdb_tasks (popped_db t db) t' = Some x" for t' x
  proof -
    have ne: "t' \<noteq> t" and old: "tdb_tasks db t' = Some x"
      using x by (auto simp: popped_db_def split: if_splits)
    have "can_task_run t' (queue_of (popped_db t db) k)" if "can_task_run t' (queue_of db k)" for k
      using can_run_popped [OF _ that ne] that core popped by (auto simp: poppable_def queue_of_popped core_ok_def queues_ok_def)
    then show ?thesis
      using core old by (auto simp: core_ok_def running_ok_def tx_can_task_run_iff keys_popped [OF ne])
  qed
  then show ?thesis by (simp add: running_ok_def)
qed

lemma popped_heads:
  assumes core: "core_ok db" and popped: "poppable t db"
  shows "heads_ok (popped_db t db)"
proof -
  have "\<not> is_yieldable (descriptor x)"
    if "preemption (queue_of (popped_db t db) k) = SerialPreemptionQueued"
      "first (serial_tasks (queue_of (popped_db t db) k)) = Some h" "tdb_tasks (popped_db t db) h = Some x" for k h x
  proof -
    have inv: "queue_inv (queue_of db k)" using core by (simp add: core_ok_def queues_ok_def)
    have "preemption (queue_of db k) = SerialPreemptionQueued \<and> first (serial_tasks (queue_of db k)) = Some h"
      using that(1,2) popped_head [OF inv, of t h] by (auto simp: queue_of_popped split: if_splits)
    moreover have "tdb_tasks db h = Some x" using that(3) by (simp add: popped_db_def split: if_splits)
    ultimately show ?thesis using core by (auto simp: core_ok_def heads_ok_def)
  qed
  then show ?thesis by (simp add: heads_ok_def)
qed

lemma popped_live:
  assumes core: "core_ok db" and popped: "poppable t db"
  shows "live_ids (popped_db t db) \<subseteq> live_ids db"
  unfolding live_ids_def popped_members [OF assms] by (auto simp: popped_db_def split: if_splits)

lemma db_ok_less:
  assumes "db_ok db" and "core_ok db'" and "live_ids db' \<subseteq> live_ids db"
    and "tdb_pending db' = tdb_pending db" and "tdb_pending_seq db' = tdb_pending_seq db"
    and "tdb_yields db' = tdb_yields db"
  shows "db_ok db'"
  using assms pending_tasks_ok_same [of db db' "{}"] pending_lists_ok_same [of db' db] yields_ok_same [of db' db]
  by (auto simp: db_ok_def)

lemma db_ok_pop:
  assumes "pop_task t db = Inr (r, db')" and "db_ok db"
  shows "db_ok db' \<and> r = tdb_tasks db t \<and> db' = popped_db t db"
proof -
  have core: "core_ok db" using assms(2) by (simp add: db_ok_def)
  note eq = assms(1) [unfolded pop_task_eq [OF core]]
  have "core_ok (popped_db t db)"
    using popped_queues [OF core] popped_index [OF core] popped_running [OF core] popped_heads [OF core] eq
    by (simp add: core_ok_def)
  moreover have "live_ids (popped_db t db) \<subseteq> live_ids db" using popped_live [OF core] eq by simp
  ultimately show ?thesis
    using eq db_ok_less [OF assms(2), of "popped_db t db"] by (simp add: popped_db_def)
qed

section \<open>Removing deferred preemptions\<close>

lemma remove_pending_from_list:
  "get_pending_preempt_list k' (remove_pending_from n k db) =
     (if k' = k then filter (\<lambda>e. pe_seq e \<noteq> n) (get_pending_preempt_list k db)
      else get_pending_preempt_list k' db)"
  by (simp add: remove_pending_from_def get_pending_preempt_list_def Let_def)

lemma fold_remove_pending_from:
  "get_pending_preempt_list k' (fold (remove_pending_from n) ks db) =
     (if k' \<in> set ks then filter (\<lambda>e. pe_seq e \<noteq> n) (get_pending_preempt_list k' db)
      else get_pending_preempt_list k' db)"
  by (induction ks arbitrary: db) (auto simp: remove_pending_from_list)

text \<open>Only the lists of deferred preemptions change.\<close>

definition same_but_pending :: "task_db \<Rightarrow> task_db \<Rightarrow> bool" where
  "same_but_pending db db' \<longleftrightarrow> db'\<lparr>tdb_pending := tdb_pending db\<rparr> = db"

lemma same_but_pending_refl [simp]: "same_but_pending db db"
  by (simp add: same_but_pending_def)

lemma same_but_pending_trans:
  "same_but_pending a b \<Longrightarrow> same_but_pending b c \<Longrightarrow> same_but_pending a c"
  by (cases a; cases b; cases c; simp add: same_but_pending_def)

lemma same_but_pending_remove: "same_but_pending db (remove_pending_from n k db)"
  by (simp add: same_but_pending_def remove_pending_from_def Let_def)

lemma fold_same_but_pending:
  "(\<And>x db. same_but_pending db (f x db)) \<Longrightarrow> same_but_pending db (fold f xs db)"
  by (induction xs arbitrary: db) (auto intro: same_but_pending_trans)

lemma same_but_pending_entry: "same_but_pending db (remove_pending_preemption_entry e db)"
  by (simp add: remove_pending_preemption_entry_def fold_same_but_pending same_but_pending_remove)

lemma fold_same_but_pending_entry: "same_but_pending db (fold remove_pending_preemption_entry es db)"
  by (rule fold_same_but_pending) (rule same_but_pending_entry)

lemma same_but_pendingD:
  assumes "same_but_pending db db'"
  shows "tdb_queues db' = tdb_queues db" "tdb_tasks db' = tdb_tasks db" "tdb_task_keys db' = tdb_task_keys db"
    "tdb_pending_seq db' = tdb_pending_seq db" "tdb_yields db' = tdb_yields db"
    "tdb_assigned db' = tdb_assigned db" "tdb_assignment db' = tdb_assignment db"
    "tdb_history_ids db' = tdb_history_ids db" "tdb_history db' = tdb_history db"
    "tdb_history_enabled db' = tdb_history_enabled db" "tdb_peer_id db' = tdb_peer_id db"
  using assms by (cases db; cases db'; simp add: same_but_pending_def)+

lemma core_ok_same:
  assumes "tdb_queues db' = tdb_queues db" and "tdb_tasks db' = tdb_tasks db"
    and "tdb_task_keys db' = tdb_task_keys db"
  shows "core_ok db' = core_ok db" and "live_ids db' = live_ids db"
proof -
  have q: "queue_of db' k = queue_of db k" for k
    using assms by (simp add: get_task_queue_deserialized_def)
  have "tx_can_task_run t db' = tx_can_task_run t db" for t
    using assms q by (simp add: tx_can_task_run_iff get_queue_keys_for_task_def)
  then show "core_ok db' = core_ok db"
    using assms q by (simp add: core_ok_def queues_ok_def index_ok_def running_ok_def heads_ok_def)
  show "live_ids db' = live_ids db" using assms q by (simp add: live_ids_def)
qed

lemma remove_entry_list:
  assumes "pending_lists_ok db" and "e \<in> pending_entries db"
  shows "get_pending_preempt_list k (remove_pending_preemption_entry e db) =
           filter (\<lambda>x. x \<noteq> e) (get_pending_preempt_list k db)"
proof -
  have "(pe_seq x \<noteq> pe_seq e) = (x \<noteq> e)" if "x \<in> set (get_pending_preempt_list k db)" for x
  proof -
    have "x \<in> pending_entries db" using that by (auto simp: pending_entries_def)
    then show ?thesis using assms by (auto simp: pending_lists_ok_def inj_on_def)
  qed
  then have f: "filter (\<lambda>x. pe_seq x \<noteq> pe_seq e) (get_pending_preempt_list k db) =
                filter (\<lambda>x. x \<noteq> e) (get_pending_preempt_list k db)"
    by (auto intro: filter_cong)
  have "e \<notin> set (get_pending_preempt_list k db)" if "k \<notin> set (target_keys e)"
    using assms that by (auto simp: pending_lists_ok_def)
  then have "filter (\<lambda>x. x \<noteq> e) (get_pending_preempt_list k db) = get_pending_preempt_list k db"
    if "k \<notin> set (target_keys e)" using that by (auto simp: filter_id_conv)
  then show ?thesis
    by (simp add: remove_pending_preemption_entry_def fold_remove_pending_from f)
qed

lemma pending_entries_filter:
  assumes "\<And>k. get_pending_preempt_list k db' = filter P (get_pending_preempt_list k db)"
  shows "pending_entries db' = {e \<in> pending_entries db. P e}"
  by (auto simp: pending_entries_def assms)

lemma pending_lists_ok_filter:
  assumes "pending_lists_ok db" and "tdb_pending_seq db' = tdb_pending_seq db"
    and f: "\<And>k. get_pending_preempt_list k db' = filter P (get_pending_preempt_list k db)"
  shows "pending_lists_ok db'"
proof -
  have "length (filter P (get_pending_preempt_list k db)) \<le> MAX_PENDING_PER_QUEUE" for k
    using assms(1) length_filter_le [of P "get_pending_preempt_list k db"]
    by (meson order_trans pending_lists_ok_def)
  moreover have "{k. e \<in> set (filter P (get_pending_preempt_list k db))} = set (target_keys e)"
    if "e \<in> pending_entries db" "P e" for e
    using assms(1) that by (simp add: pending_lists_ok_def)
  ultimately show ?thesis
    using assms(1,2)
    by (simp add: pending_lists_ok_def f pending_entries_filter [OF f] sorted_wrt_filter inj_on_def)
qed

lemma pending_tasks_ok_filter:
  assumes "pending_tasks_ok db" and "live_ids db' \<subseteq> live_ids db"
    and f: "\<And>k. get_pending_preempt_list k db' = filter P (get_pending_preempt_list k db)"
  shows "pending_tasks_ok db'"
  using assms(1,2) by (auto simp: pending_tasks_ok_def pending_entries_filter [OF f] inj_on_def)

lemma db_ok_remove_entry:
  assumes "db_ok db" and "e \<in> pending_entries db"
  shows "db_ok (remove_pending_preemption_entry e db)"
proof -
  note same = same_but_pendingD [OF same_but_pending_entry [of db e]]
  have lists: "\<And>k. get_pending_preempt_list k (remove_pending_preemption_entry e db) =
      filter (\<lambda>x. x \<noteq> e) (get_pending_preempt_list k db)"
    using assms by (simp add: remove_entry_list db_ok_def)
  show ?thesis
    using assms(1) core_ok_same [OF same(1-3)] yields_ok_same [OF same(5)]
      pending_lists_ok_filter [OF _ same(4) lists] pending_tasks_ok_filter [OF _ _ lists]
    by (simp add: db_ok_def)
qed

text \<open>Removing a list of entries one after the other removes exactly them.\<close>

lemma remove_entries:
  assumes "db_ok db" and "set es \<subseteq> pending_entries db" and "distinct es"
  shows "db_ok (fold remove_pending_preemption_entry es db) \<and>
         (\<forall>k. get_pending_preempt_list k (fold remove_pending_preemption_entry es db) =
            filter (\<lambda>x. x \<notin> set es) (get_pending_preempt_list k db))"
  using assms
proof (induction es arbitrary: db)
  case Nil
  then show ?case by simp
next
  case (Cons e es)
  let ?db = "remove_pending_preemption_entry e db"
  have lists: "\<And>k. get_pending_preempt_list k ?db = filter (\<lambda>x. x \<noteq> e) (get_pending_preempt_list k db)"
    using Cons.prems by (simp add: remove_entry_list db_ok_def)
  have "db_ok ?db" using Cons.prems by (simp add: db_ok_remove_entry)
  moreover have "set es \<subseteq> pending_entries ?db"
    using Cons.prems by (auto simp: pending_entries_filter [OF lists])
  ultimately show ?case
    using Cons.IH [of ?db] Cons.prems(3) by (simp add: lists conj_commute)
qed

lemma distinct_by_seq: "sorted_wrt (\<lambda>a b. pe_seq a < pe_seq b) es \<Longrightarrow> distinct es"
  by (induction es) auto

lemma delete_pending_preemption_ok:
  assumes "db_ok db"
  shows "db_ok (delete_pending_preemption k db)"
    and "same_but_pending db (delete_pending_preemption k db)"
    and "get_pending_preempt_list k' (delete_pending_preemption k db) =
           filter (\<lambda>e. k \<notin> set (target_keys e)) (get_pending_preempt_list k' db)"
proof -
  let ?es = "get_pending_preempt_list k db"
  let ?db = "fold remove_pending_preemption_entry ?es db"
  have sorted: "sorted_wrt (\<lambda>a b. pe_seq a < pe_seq b) ?es"
    using assms by (simp add: db_ok_def pending_lists_ok_def)
  then have dist: "distinct ?es" by (rule distinct_by_seq)
  have sub: "set ?es \<subseteq> pending_entries db" by (auto simp: pending_entries_def)
  note rem = remove_entries [OF assms sub dist]
  have "(e \<notin> set ?es) = (k \<notin> set (target_keys e))" if "e \<in> set (get_pending_preempt_list k' db)" for e k'
  proof -
    have "e \<in> pending_entries db" using that by (auto simp: pending_entries_def)
    then have "{k. e \<in> set (get_pending_preempt_list k db)} = set (target_keys e)"
      using assms by (simp add: db_ok_def pending_lists_ok_def)
    then show ?thesis by blast
  qed
  then have "filter (\<lambda>x. x \<notin> set ?es) (get_pending_preempt_list k' db) =
             filter (\<lambda>e. k \<notin> set (target_keys e)) (get_pending_preempt_list k' db)" for k'
    by (auto intro: filter_cong)
  then have lists: "get_pending_preempt_list k' ?db =
             filter (\<lambda>e. k \<notin> set (target_keys e)) (get_pending_preempt_list k' db)" for k'
    using rem by simp
  have "get_pending_preempt_list k ?db = []" using rem by simp
  then have del: "get_pending_preempt_list k' (delete_pending_preemption k db) = get_pending_preempt_list k' ?db" for k'
    by (simp add: delete_pending_preemption_def Let_def) (simp add: get_pending_preempt_list_def)
  then show "get_pending_preempt_list k' (delete_pending_preemption k db) =
           filter (\<lambda>e. k \<notin> set (target_keys e)) (get_pending_preempt_list k' db)"
    by (simp add: lists)
  have "same_but_pending ?db (delete_pending_preemption k db)"
    by (simp add: same_but_pending_def delete_pending_preemption_def Let_def)
  then show same: "same_but_pending db (delete_pending_preemption k db)"
    by (rule same_but_pending_trans [OF fold_same_but_pending_entry])
  show "db_ok (delete_pending_preemption k db)"
    using assms core_ok_same [OF same_but_pendingD(1-3) [OF same]] yields_ok_same [OF same_but_pendingD(5) [OF same]]
      pending_lists_ok_filter [OF _ same_but_pendingD(4) [OF same], where P = "\<lambda>e. k \<notin> set (target_keys e)"]
      pending_tasks_ok_filter [of db "delete_pending_preemption k db" "\<lambda>e. k \<notin> set (target_keys e)"]
    by (simp add: db_ok_def del lists)
qed

section \<open>Clearing a queue and changing the state of a task\<close>

definition without_tasks :: "task_identifier set \<Rightarrow> task_db \<Rightarrow> task_db" where
  "without_tasks ts db =
     db\<lparr>tdb_tasks := tdb_tasks db |` (- ts), tdb_task_keys := tdb_task_keys db |` (- ts)\<rparr>"

lemma delete_tasks_eq:
  "distinct ts \<Longrightarrow> delete_tasks ts db = (List.map_filter (tdb_tasks db) ts, without_tasks (set ts) db)"
proof (induction ts arbitrary: db)
  case Nil
  then show ?case by (simp add: without_tasks_def restrict_map_def)
next
  case (Cons t ts)
  let ?db = "snd (delete_task t db)"
  have "List.map_filter (tdb_tasks ?db) ts = List.map_filter (tdb_tasks db) ts"
    using Cons.prems by (auto simp: List.map_filter_def delete_task_def intro!: map_cong filter_cong)
  moreover have "without_tasks (set ts) ?db = without_tasks (set (t # ts)) db"
    by (auto simp: without_tasks_def delete_task_def restrict_map_def fun_eq_iff)
  ultimately have "delete_tasks ts ?db = (List.map_filter (tdb_tasks db) ts, without_tasks (set (t # ts)) db)"
    using Cons by simp
  then show ?case
    by (cases "tdb_tasks db t") (simp_all add: delete_task_def)
qed

lemma queue_tasks_eq:
  "(case tdb_queues db k of Some q \<Rightarrow> all_tasks q | None \<Rightarrow> []) = all_tasks (queue_of db k)"
  by (simp add: get_task_queue_deserialized_def split: option.split)

definition cleared_db :: "task_queue_key \<Rightarrow> task_db \<Rightarrow> task_db" where
  "cleared_db k db =
     (delete_pending_preemption k (without_tasks (set (all_tasks (queue_of db k))) db))
       \<lparr>tdb_queues := (tdb_queues db)(k \<mapsto> task_queue_default)\<rparr>"

text \<open>Taking tasks out of storage whose queue is emptied keeps the invariant.\<close>

lemma core_ok_cleared:
  assumes "core_ok db" and "tdb_queues db' = (tdb_queues db)(k \<mapsto> task_queue_default)"
    and "tdb_tasks db' = tdb_tasks db |` (- set (all_tasks (queue_of db k)))"
    and "tdb_task_keys db' = tdb_task_keys db |` (- set (all_tasks (queue_of db k)))"
  shows "core_ok db'" and "live_ids db' \<subseteq> live_ids db"
proof -
  let ?ids = "set (all_tasks (queue_of db k))"
  have q: "queue_of db' k' = (if k' = k then task_queue_default else queue_of db k')" for k'
    using assms(2) by (simp add: get_task_queue_deserialized_def)
  have away: "k \<notin> set (get_queue_keys_for_task t db) \<and> get_queue_keys_for_task t db' = get_queue_keys_for_task t db"
    if "t \<notin> ?ids" for t
    using assms(1,4) that
    by (cases "tdb_task_keys db t") (auto simp: core_ok_def index_ok_def get_queue_keys_for_task_def)
  have "queues_ok db'" using assms(1) by (simp add: core_ok_def queues_ok_def q)
  moreover have "dom (tdb_tasks db') = dom (tdb_task_keys db')"
    using assms(1) by (simp add: core_ok_def index_ok_def assms(3,4))
  then have "index_ok db'"
    using assms(1) by (auto simp: core_ok_def index_ok_def assms(4) q restrict_map_def split: if_splits)
  moreover have "running_ok db'"
  proof -
    have "task_id x = t \<and> (is_running (task_state x) \<longrightarrow> tx_can_task_run t db')" if "tdb_tasks db' t = Some x" for t x
    proof -
      have t: "t \<notin> ?ids" "tdb_tasks db t = Some x" using that by (auto simp: assms(3) restrict_map_def split: if_splits)
      then show ?thesis
        using assms(1) away [OF t(1)] by (auto simp: core_ok_def running_ok_def tx_can_task_run_iff q)
    qed
    then show ?thesis by (simp add: running_ok_def)
  qed
  moreover have "heads_ok db'"
    using assms(1) by (auto simp: core_ok_def heads_ok_def assms(3) q restrict_map_def split: if_splits)
  ultimately show "core_ok db'" by (simp add: core_ok_def)
  show "live_ids db' \<subseteq> live_ids db"
    by (auto simp: live_ids_def assms(3) q split: if_splits)
qed

lemma clear_task_queue_eq:
  assumes "core_ok db"
  shows "clear_task_queue k db =
     Inr (List.map_filter (tdb_tasks db) (all_tasks (queue_of db k)), cleared_db k db)"
proof -
  have "distinct (all_tasks (queue_of db k))"
    using assms by (simp add: core_ok_def queues_ok_def queue_inv_def)
  moreover have "check_invariants task_queue_default = Inr ()"
    by (simp add: check_invariants_ok check_preemption_state_def)
  moreover have "tdb_queues (delete_pending_preemption k db') = tdb_queues db'" for db'
    by (simp add: delete_pending_preemption_def Let_def same_but_pendingD(1) [OF fold_same_but_pending_entry])
  ultimately show ?thesis
    by (simp add: clear_task_queue_def queue_tasks_eq delete_tasks_eq write_task_queue_def cleared_db_def
        without_tasks_def Let_def)
qed

lemma db_ok_without_tasks:
  assumes "db_ok db"
  shows "db_ok (without_tasks ts db)"
proof -
  let ?db = "without_tasks ts db"
  have q: "queue_of ?db k = queue_of db k" for k by (simp add: without_tasks_def)
  have core: "core_ok db" using assms by (simp add: db_ok_def)
  have keys: "get_queue_keys_for_task t ?db = get_queue_keys_for_task t db" if "t \<notin> ts" for t
    using that by (simp add: get_queue_keys_for_task_def without_tasks_def)
  have "dom (tdb_tasks ?db) = dom (tdb_task_keys ?db)"
    using core by (simp add: core_ok_def index_ok_def without_tasks_def)
  then have "index_ok ?db"
    using core by (auto simp: core_ok_def index_ok_def q) (auto simp: without_tasks_def restrict_map_def split: if_splits)
  moreover have "running_ok ?db"
    using core by (auto simp: core_ok_def running_ok_def tx_can_task_run_iff q keys)
      (auto simp: without_tasks_def restrict_map_def get_queue_keys_for_task_def split: if_splits)
  moreover have "queues_ok ?db" using core by (simp add: core_ok_def queues_ok_def q)
  moreover have "heads_ok ?db"
    using core by (auto simp: core_ok_def heads_ok_def q) (auto simp: without_tasks_def restrict_map_def split: if_splits)
  ultimately have "core_ok ?db" by (simp add: core_ok_def)
  moreover have "live_ids ?db \<subseteq> live_ids db"
    unfolding live_ids_def q by (auto simp: without_tasks_def)
  ultimately show ?thesis
    by (rule db_ok_less [OF assms]) (simp_all add: without_tasks_def)
qed

lemma db_ok_clear:
  assumes "db_ok db"
  shows "db_ok (cleared_db k db)"
    and "get_pending_preempt_list k' (cleared_db k db) =
           filter (\<lambda>e. k \<notin> set (target_keys e)) (get_pending_preempt_list k' db)"
    and "tdb_tasks (cleared_db k db) = tdb_tasks db |` (- set (all_tasks (queue_of db k)))"
    and "tdb_queues (cleared_db k db) = (tdb_queues db)(k \<mapsto> task_queue_default)"
    and "tdb_task_keys (cleared_db k db) = tdb_task_keys db |` (- set (all_tasks (queue_of db k)))"
proof -
  let ?db1 = "without_tasks (set (all_tasks (queue_of db k))) db"
  let ?db2 = "delete_pending_preemption k ?db1"
  have ok1: "db_ok ?db1" using assms by (rule db_ok_without_tasks)
  note del = delete_pending_preemption_ok [OF ok1, where k = k]
  note same = same_but_pendingD [OF del(2)]
  show queues: "tdb_queues (cleared_db k db) = (tdb_queues db)(k \<mapsto> task_queue_default)"
    by (simp add: cleared_db_def)
  show tasks: "tdb_tasks (cleared_db k db) = tdb_tasks db |` (- set (all_tasks (queue_of db k)))"
    and keys: "tdb_task_keys (cleared_db k db) = tdb_task_keys db |` (- set (all_tasks (queue_of db k)))"
    using same by (simp_all add: cleared_db_def without_tasks_def)
  have "get_pending_preempt_list k' (cleared_db k db) = get_pending_preempt_list k' ?db2"
    by (simp add: cleared_db_def get_pending_preempt_list_def)
  then show "get_pending_preempt_list k' (cleared_db k db) =
           filter (\<lambda>e. k \<notin> set (target_keys e)) (get_pending_preempt_list k' db)"
    using del(3) by (simp add: without_tasks_def get_pending_preempt_list_def)
  have core: "core_ok (cleared_db k db)"
    using core_ok_cleared(1) [OF _ queues tasks keys] assms by (simp add: db_ok_def)
  have q: "queue_of (cleared_db k db) k' = (if k' = k then task_queue_default else queue_of ?db2 k')" for k'
    using same(1) by (simp add: cleared_db_def get_task_queue_deserialized_def without_tasks_def)
  have "tdb_tasks (cleared_db k db) = tdb_tasks ?db2" by (simp add: cleared_db_def)
  then have "live_ids (cleared_db k db) \<subseteq> live_ids ?db2"
    by (auto simp: live_ids_def q split: if_splits)
  then show "db_ok (cleared_db k db)"
    by (rule db_ok_less [OF del(1) core]) (simp_all add: cleared_db_def)
qed

lemma db_ok_transition:
  assumes "transition_task t st db = Inr db'" and "db_ok db"
    and "is_running st \<Longrightarrow> tx_can_task_run t db"
  shows "db_ok db'"
proof -
  obtain x where x: "tdb_tasks db t = Some x"
    and db': "db' = db\<lparr>tdb_tasks := (tdb_tasks db)(t \<mapsto> x\<lparr>task_state := st\<rparr>)\<rparr>"
    using assms(1) by (auto simp: transition_task_def res_simps update_task_def)
  have core: "core_ok db" using assms(2) by (simp add: db_ok_def)
  have q: "queue_of db' k = queue_of db k" for k by (simp add: db')
  have run: "tx_can_task_run t' db' = tx_can_task_run t' db" for t'
    by (simp add: tx_can_task_run_iff q get_queue_keys_for_task_def) (simp add: db')
  have "dom (tdb_tasks db') = dom (tdb_tasks db)" using x by (auto simp: db')
  then have "index_ok db'" and live: "live_ids db' = live_ids db"
    using core by (simp_all add: core_ok_def index_ok_def live_ids_def q) (simp add: db')
  moreover have "running_ok db'"
    using core assms(3) x by (auto simp: core_ok_def running_ok_def run) (auto simp: db' split: if_splits)
  moreover have "heads_ok db'"
    using core x by (auto simp: core_ok_def heads_ok_def q) (auto simp: db' split: if_splits)
  ultimately have "core_ok db'" using core by (simp add: core_ok_def queues_ok_def q)
  then show ?thesis
    using live by (intro db_ok_less [OF assms(2)]) (simp_all add: db')
qed

section \<open>Serial preemption\<close>

text \<open>Only the yield counters change.\<close>

definition same_but_yields :: "task_db \<Rightarrow> task_db \<Rightarrow> bool" where
  "same_but_yields db db' \<longleftrightarrow> db'\<lparr>tdb_yields := tdb_yields db\<rparr> = db"

lemma same_but_yieldsD:
  assumes "same_but_yields db db'"
  shows "db' = db\<lparr>tdb_yields := tdb_yields db'\<rparr>"
  using assms by (cases db; cases db'; simp add: same_but_yields_def)

lemma same_but_yields_trans:
  "same_but_yields a b \<Longrightarrow> same_but_yields b c \<Longrightarrow> same_but_yields a c"
  by (cases a; cases b; cases c; simp add: same_but_yields_def)

lemma yields_irrelevant:
  assumes "same_but_yields db db'"
  shows "queue_of db' k = queue_of db k" "head_is_yieldable k db' = head_is_yieldable k db"
    "is_serial_preemption_safe k db' = is_serial_preemption_safe k db"
    "get_pending_preempt_list k db' = get_pending_preempt_list k db"
    "fresh_task task db' = fresh_task task db" "new_task task db' = new_task task db"
proof -
  note eq = same_but_yieldsD [OF assms]
  have q: "queue_of db' k = queue_of db k" for k using eq queue_of_simps(6) by metis
  then show "queue_of db' k = queue_of db k" .
  have t: "tdb_tasks db' = tdb_tasks db" "tdb_pending db' = tdb_pending db" by (subst eq, simp)+
  show "head_is_yieldable k db' = head_is_yieldable k db"
    "is_serial_preemption_safe k db' = is_serial_preemption_safe k db"
    by (simp_all add: head_is_yieldable_eq is_serial_preemption_safe_eq q t split: option.split)
  show p: "get_pending_preempt_list k db' = get_pending_preempt_list k db" for k
    by (simp add: get_pending_preempt_list_def t)
  show "fresh_task task db' = fresh_task task db" "new_task task db' = new_task task db"
    by (simp_all add: fresh_task_def new_task_def live_ids_def pending_entries_def q t p)
qed

lemma db_ok_yields:
  assumes "same_but_yields db db'" and "db_ok db" and "yields_ok db'"
  shows "db_ok db'"
proof -
  note eq = same_but_yieldsD [OF assms(1)]
  have same: "tdb_queues db' = tdb_queues db" "tdb_tasks db' = tdb_tasks db" "tdb_task_keys db' = tdb_task_keys db"
    "tdb_pending db' = tdb_pending db" "tdb_pending_seq db' = tdb_pending_seq db"
    by (subst eq, simp)+
  show ?thesis
    using assms(2,3) core_ok_same [OF same(1-3)] pending_lists_ok_same [OF same(4,5)]
      pending_tasks_ok_same [of db db' "{}"] same(4)
    by (simp add: db_ok_def)
qed

lemma same_but_yields_refl [simp]: "same_but_yields db db"
  by (simp add: same_but_yields_def)

text \<open>A queue whose head yields is one whose head is committed, so the first pass counted it.\<close>

lemma yieldable_not_safe:
  "head_is_yieldable k db = Inr True \<Longrightarrow> is_serial_preemption_safe k db = Inr False"
  by (auto simp: head_is_yieldable_eq is_serial_preemption_safe_eq res_simps split: option.splits)

lemma not_hard_blocked:
  "hard_blocked ks db = Inr False \<Longrightarrow> k \<in> set ks \<Longrightarrow>
     is_serial_preemption_safe k db = Inr True \<or>
     (head_is_yieldable k db = Inr True \<and> yield_count k db < MAX_CONSECUTIVE_YIELDS)"
  by (induction ks) (auto simp: res_simps ENABLE_ORDER_YIELD_def split: if_splits)

lemma bump_if_yieldable_eq:
  "bump_if_yieldable k db = Inr db' \<longleftrightarrow>
     (\<exists>y. head_is_yieldable k db = Inr y \<and> db' = (if y then bump_yield_count k db else db))"
  by (auto simp: bump_if_yieldable_def res_simps)

lemma bump_loop:
  assumes "try_fold bump_if_yieldable ks db = Inr db'" and "distinct ks" and "yields_ok db"
    and "\<And>k. k \<in> set ks \<Longrightarrow> head_is_yieldable k db = Inr True \<Longrightarrow> yield_count k db < MAX_CONSECUTIVE_YIELDS"
  shows "same_but_yields db db' \<and> yields_ok db'"
  using assms
proof (induction ks arbitrary: db)
  case Nil
  then show ?case by simp
next
  case (Cons k ks)
  obtain y where y: "head_is_yieldable k db = Inr y"
    and rest: "try_fold bump_if_yieldable ks (if y then bump_yield_count k db else db) = Inr db'"
    using Cons.prems(1) by (auto simp: res_simps bump_if_yieldable_eq)
  let ?db = "if y then bump_yield_count k db else db"
  have same: "same_but_yields db ?db" by (simp add: same_but_yields_def bump_yield_count_def)
  have count: "yield_count k' ?db = (if y \<and> k' = k then yield_count k db + 1 else yield_count k' db)" for k'
    by (simp add: bump_yield_count_def yield_count_def)
  have "yields_ok ?db"
    using Cons.prems(3,4) y by (auto simp: yields_ok_def count intro: inc_le)
  moreover have "yield_count k' ?db < MAX_CONSECUTIVE_YIELDS"
    if "k' \<in> set ks" "head_is_yieldable k' ?db = Inr True" for k'
    using that Cons.prems(2,4) yields_irrelevant(2) [OF same] by (auto simp: count)
  ultimately have "same_but_yields ?db db' \<and> yields_ok db'"
    using Cons.IH [OF rest] Cons.prems(2) by simp
  then show ?case using same same_but_yields_trans by blast
qed

lemma reset_loop:
  assumes "try_fold reset_if_exhausted ks db = Inr db'" and "yields_ok db"
  shows "same_but_yields db db' \<and> yields_ok db'"
proof (rule try_fold_invariant [OF assms(1), where P = "\<lambda>db'. same_but_yields db db' \<and> yields_ok db'"])
  fix k u v
  assume u: "same_but_yields db u \<and> yields_ok u" and v: "reset_if_exhausted k u = Inr v"
  from v have "v = u \<or> v = reset_yield_count k u"
    by (auto simp: reset_if_exhausted_def res_simps split: if_splits)
  moreover have "same_but_yields u (reset_yield_count k u)" "yields_ok u \<longrightarrow> yields_ok (reset_yield_count k u)"
    by (auto simp: same_but_yields_def reset_yield_count_def yields_ok_def yield_count_def)
  ultimately show "same_but_yields db v \<and> yields_ok v"
    using u same_but_yields_trans by blast
qed (use assms(2) in simp)

subsection \<open>Deferring\<close>

definition seq_room :: "task_db \<Rightarrow> bool" where
  "seq_room db \<longleftrightarrow> unwrap_or 0 (tdb_pending_seq db) + 1 \<noteq> 0"

definition deferred_entry :: "task_queue_key list \<Rightarrow> queued_task \<Rightarrow> task_db \<Rightarrow> pending_entry" where
  "deferred_entry ks task db =
     \<lparr>pe_task = task, target_keys = ks, pe_seq = unwrap_or 0 (tdb_pending_seq db) + 1\<rparr>"

definition deferred_db :: "task_queue_key list \<Rightarrow> queued_task \<Rightarrow> task_db \<Rightarrow> task_db" where
  "deferred_db ks task db =
     fold (\<lambda>k. append_pending_preemption k (deferred_entry ks task db)) ks (snd (next_pending_seq db))"

lemma fold_append_pending:
  "distinct ks \<Longrightarrow>
   get_pending_preempt_list k (fold (\<lambda>k. append_pending_preemption k e) ks db) =
     (if k \<in> set ks then get_pending_preempt_list k db @ [e] else get_pending_preempt_list k db)"
proof (induction ks arbitrary: db)
  case Nil
  then show ?case by simp
next
  case (Cons k' ks)
  have "get_pending_preempt_list k (append_pending_preemption k' e db) =
      (if k = k' then get_pending_preempt_list k db @ [e] else get_pending_preempt_list k db)"
    by (simp add: append_pending_preemption_def get_pending_preempt_list_def)
  then show ?case using Cons by auto
qed

lemma same_but_pending_append: "same_but_pending db (append_pending_preemption k e db)"
  by (simp add: same_but_pending_def append_pending_preemption_def)

lemma deferred_db_same:
  "same_but_pending (db\<lparr>tdb_pending_seq := Some (unwrap_or 0 (tdb_pending_seq db) + 1)\<rparr>) (deferred_db ks task db)"
  unfolding deferred_db_def next_pending_seq_def Let_def snd_conv
  by (rule fold_same_but_pending) (rule same_but_pending_append)

lemma deferred_list:
  "distinct ks \<Longrightarrow>
   get_pending_preempt_list k (deferred_db ks task db) =
     (if k \<in> set ks then get_pending_preempt_list k db @ [deferred_entry ks task db]
      else get_pending_preempt_list k db)"
  by (simp add: deferred_db_def fold_append_pending next_pending_seq_def Let_def)
    (simp add: get_pending_preempt_list_def)

lemma deferred_seq_greatest:
  assumes "db_ok db" and "seq_room db" and "e \<in> pending_entries db"
  shows "pe_seq e < pe_seq (deferred_entry ks task db)"
proof -
  let ?n = "unwrap_or 0 (tdb_pending_seq db)"
  have "?n < ?n + 1" using assms(2) unatSuc [of ?n] by (simp add: seq_room_def word_less_nat_alt add.commute)
  moreover have "pe_seq e \<le> ?n" using assms(1,3) by (simp add: db_ok_def pending_lists_ok_def)
  ultimately show ?thesis by (simp add: deferred_entry_def)
qed

lemma pending_lists_ok_defer:
  assumes ok: "db_ok db" and room: "seq_room db" and dist: "distinct ks"
    and depth: "\<forall>k \<in> set ks. length (get_pending_preempt_list k db) < MAX_PENDING_PER_QUEUE"
  shows "pending_lists_ok (deferred_db ks task db)"
    and "pending_entries (deferred_db ks task db) \<subseteq> insert (deferred_entry ks task db) (pending_entries db)"
proof -
  let ?e = "deferred_entry ks task db"
  let ?db = "deferred_db ks task db"
  note list = deferred_list [OF dist, of _ task db]
  note seq = same_but_pendingD(4) [OF deferred_db_same [of db ks task]]
  have lists: "pending_lists_ok db" using ok by (simp add: db_ok_def)
  have new: "?e \<notin> pending_entries db" using deferred_seq_greatest [OF ok room, of ?e] by auto
  have last: "pe_seq e < pe_seq ?e" if "e \<in> set (get_pending_preempt_list k db)" for e k
    using that deferred_seq_greatest [OF ok room, of e ks task] by (auto simp: pending_entries_def)
  show sub: "pending_entries ?db \<subseteq> insert ?e (pending_entries db)"
    by (auto simp: pending_entries_def list split: if_splits)
  have "length (get_pending_preempt_list k ?db) \<le> MAX_PENDING_PER_QUEUE \<and>
        sorted_wrt (\<lambda>a b. pe_seq a < pe_seq b) (get_pending_preempt_list k ?db)" for k
    using lists depth last by (auto simp: list pending_lists_ok_def sorted_wrt_append Suc_le_eq)
  moreover have "pe_seq e \<le> unwrap_or 0 (tdb_pending_seq ?db) \<and> distinct (target_keys e) \<and>
        {k. e \<in> set (get_pending_preempt_list k ?db)} = set (target_keys e)" if "e \<in> pending_entries ?db" for e
  proof (cases "e = ?e")
    case True
    have "?e \<notin> set (get_pending_preempt_list k db)" for k using new by (auto simp: pending_entries_def)
    then show ?thesis using True seq dist by (auto simp: list deferred_entry_def)
  next
    case False
    then have e: "e \<in> pending_entries db" using sub that by auto
    then have "pe_seq e < pe_seq ?e" by (rule deferred_seq_greatest [OF ok room])
    then have "pe_seq e \<le> unwrap_or 0 (tdb_pending_seq ?db)" using seq by (simp add: deferred_entry_def)
    moreover have "{k. e \<in> set (get_pending_preempt_list k ?db)} = {k. e \<in> set (get_pending_preempt_list k db)}"
      using False by (auto simp: list)
    ultimately show ?thesis using lists e by (simp add: pending_lists_ok_def)
  qed
  moreover have "pe_seq ?e \<notin> pe_seq ` (pending_entries db - {?e})"
  proof
    assume "pe_seq ?e \<in> pe_seq ` (pending_entries db - {?e})"
    then obtain x where "x \<in> pending_entries db" "pe_seq ?e = pe_seq x" by blast
    then show False using deferred_seq_greatest [OF ok room, of x ks task] by simp
  qed
  then have "inj_on pe_seq (insert ?e (pending_entries db))"
    using lists by (simp add: pending_lists_ok_def)
  then have "inj_on pe_seq (pending_entries ?db)" using sub by (rule inj_on_subset)
  ultimately show "pending_lists_ok ?db" by (simp add: pending_lists_ok_def)
qed

lemma db_ok_defer:
  assumes ok: "db_ok db" and room: "seq_room db" and dist: "distinct ks"
    and depth: "\<forall>k \<in> set ks. length (get_pending_preempt_list k db) < MAX_PENDING_PER_QUEUE"
    and new: "new_task task db" and settle: "\<not> is_yieldable (descriptor task)"
  shows "db_ok (deferred_db ks task db)"
proof -
  let ?db = "deferred_db ks task db"
  note same = same_but_pendingD [OF deferred_db_same [of db ks task], simplified]
  note lists = pending_lists_ok_defer [OF ok room dist depth, of task]
  have live: "live_ids ?db = live_ids db" and core: "core_ok ?db = core_ok db"
    using core_ok_same [OF same(1-3)] by simp_all
  have old: "pending_tasks_ok db" using ok by (simp add: db_ok_def)
  let ?e = "deferred_entry ks task db"
  have "task_state (pe_task e) = Queued \<and> \<not> is_yieldable (descriptor (pe_task e)) \<and> task_id (pe_task e) \<notin> live_ids db"
    if "e \<in> insert ?e (pending_entries db)" for e
    using that old new settle by (auto simp: pending_tasks_ok_def new_task_def fresh_task_def deferred_entry_def)
  moreover have "inj_on (\<lambda>e. task_id (pe_task e)) (insert ?e (pending_entries db))"
    using old new by (auto simp: pending_tasks_ok_def new_task_def deferred_entry_def)
  then have "inj_on (\<lambda>e. task_id (pe_task e)) (pending_entries ?db)"
    using lists(2) by (rule inj_on_subset)
  ultimately have "pending_tasks_ok ?db"
    using lists(2) by (auto simp: pending_tasks_ok_def live)
  then show ?thesis
    using ok lists(1) core yields_ok_same [OF same(5)] by (simp add: db_ok_def)
qed

subsection \<open>The outcome of a preemption\<close>

lemma preempt_serial_cases:
  assumes "preempt_queue_with_serial ks task db = Inr (res, db')"
  shows "(res = Preempted \<and> hard_blocked ks db = Inr False \<and>
            (\<exists>db1. try_fold bump_if_yieldable ks db = Inr db1 \<and>
                   do_preempt_serial_inner ks task True db1 = Inr db')) \<or>
         (res = Deferred \<and> hard_blocked ks db = Inr True \<and>
            (\<exists>db1. try_fold reset_if_exhausted ks db = Inr db1 \<and>
                   (\<forall>k \<in> set ks. length (get_pending_preempt_list k db1) < MAX_PENDING_PER_QUEUE) \<and>
                   db' = deferred_db ks task db1))"
proof -
  obtain blocked where b: "hard_blocked ks db = Inr blocked"
    using assms by (auto simp: preempt_queue_with_serial_def res_simps)
  show ?thesis
  proof (cases blocked)
    case False
    then show ?thesis
      using assms b
      by (auto simp: preempt_queue_with_serial_def res_simps ENABLE_ORDER_YIELD_def ENABLE_SETTLE_FAIRNESS_def)
  next
    case True
    then show ?thesis
      using assms b
      by (auto simp: preempt_queue_with_serial_def res_simps ENABLE_ORDER_YIELD_def ENABLE_SETTLE_DEFER_def
          deferred_db_def deferred_entry_def next_pending_seq_def Let_def list_ex_iff not_le split: if_splits)
  qed
qed

lemma db_ok_preempt_serial:
  assumes "preempt_queue_with_serial ks task db = Inr (res, db')" and ok: "db_ok db"
    and new: "new_task task db" and dist: "distinct ks" and settle: "\<not> is_yieldable (descriptor task)"
    and room: "seq_room db"
  shows "db_ok db'"
  using preempt_serial_cases [OF assms(1)]
proof (elim disjE conjE exE)
  fix db1
  assume free: "hard_blocked ks db = Inr False" and bump: "try_fold bump_if_yieldable ks db = Inr db1"
    and pre: "do_preempt_serial_inner ks task True db1 = Inr db'"
  have "yield_count k db < MAX_CONSECUTIVE_YIELDS" if "k \<in> set ks" "head_is_yieldable k db = Inr True" for k
    using not_hard_blocked [OF free that(1)] yieldable_not_safe [OF that(2)] by auto
  then have y: "same_but_yields db db1 \<and> yields_ok db1"
    using bump_loop [OF bump dist] ok by (simp add: db_ok_def)
  then have "db_ok db1" using db_ok_yields ok by blast
  then show ?thesis
    using db_ok_do_preempt [OF pre] new dist settle y by (simp add: yields_irrelevant(6) [of db db1])
next
  fix db1
  assume reset: "try_fold reset_if_exhausted ks db = Inr db1"
    and depth: "\<forall>k \<in> set ks. length (get_pending_preempt_list k db1) < MAX_PENDING_PER_QUEUE"
    and db': "db' = deferred_db ks task db1"
  have y: "same_but_yields db db1 \<and> yields_ok db1"
    using reset_loop [OF reset] ok by (simp add: db_ok_def)
  then have "db_ok db1" using db_ok_yields ok by blast
  moreover have "tdb_pending_seq db1 = tdb_pending_seq db"
    using same_but_yieldsD [of db db1] y by (metis task_db.ext_inject task_db.surjective task_db.update_convs(6))
  then have "seq_room db1" using room by (simp add: seq_room_def)
  ultimately show ?thesis
    using db_ok_defer [OF _ _ dist depth, of task] new settle y by (simp add: db' yields_irrelevant(6) [of db db1])
qed

text \<open>
  A queue can be preempted by a settlement when no serial preemption is queued on it and its first
  serial task, if any, is not committed or is an order task that has yielded less than three times
  in a row; its concurrent tasks do not matter.
\<close>

definition head_task :: "task_db \<Rightarrow> task_queue_key \<Rightarrow> queued_task option" where
  "head_task db k = Option.bind (first (serial_tasks (queue_of db k))) (tdb_tasks db)"

definition heads_stored :: "task_queue_key list \<Rightarrow> task_db \<Rightarrow> bool" where
  "heads_stored ks db \<longleftrightarrow> (\<forall>k \<in> set ks. serial_tasks (queue_of db k) \<noteq> [] \<longrightarrow> head_task db k \<noteq> None)"

definition preemptable_queue :: "task_db \<Rightarrow> task_queue_key \<Rightarrow> bool" where
  "preemptable_queue db k \<longleftrightarrow>
     can_preempt_serial (queue_of db k) \<and>
     (case head_task db k of
        None \<Rightarrow> True
      | Some h \<Rightarrow> is_committed (task_state h) \<longrightarrow>
          is_yieldable (descriptor h) \<and> yield_count k db < MAX_CONSECUTIVE_YIELDS)"

lemma head_queries:
  assumes "heads_stored ks db" and "k \<in> set ks"
  shows "is_serial_preemption_safe k db =
           Inr (can_preempt_serial (queue_of db k) \<and>
                (case head_task db k of None \<Rightarrow> True | Some h \<Rightarrow> \<not> is_committed (task_state h)))"
    and "head_is_yieldable k db =
           Inr (case head_task db k of
                  None \<Rightarrow> False | Some h \<Rightarrow> is_committed (task_state h) \<and> is_yieldable (descriptor h))"
  using assms
  by (cases "serial_tasks (queue_of db k)";
      auto simp: heads_stored_def head_task_def is_serial_preemption_safe_eq head_is_yieldable_eq)+

lemma yieldable_head_preemptable:
  assumes "core_ok db" and "head_task db k = Some h" and "is_yieldable (descriptor h)"
  shows "can_preempt_serial (queue_of db k)"
proof -
  obtain t where "first (serial_tasks (queue_of db k)) = Some t" "tdb_tasks db t = Some h"
    using assms(2) by (auto simp: head_task_def bind_eq_Some_conv)
  then show ?thesis using assms(1,3) by (auto simp: core_ok_def heads_ok_def can_preempt_serial_def)
qed

lemma hard_blocked_eq:
  assumes "heads_stored ks db" and "core_ok db"
  shows "hard_blocked ks db = Inr (\<not> (\<forall>k \<in> set ks. preemptable_queue db k))"
  using assms(1)
proof (induction ks)
  case Nil
  then show ?case by simp
next
  case (Cons k ks)
  have IH: "hard_blocked ks db = Inr (\<not> (\<forall>k \<in> set ks. preemptable_queue db k))"
    using Cons by (simp add: heads_stored_def)
  have "can_preempt_serial (queue_of db k)" if "head_task db k = Some h" "is_yieldable (descriptor h)" for h
    using yieldable_head_preemptable [OF assms(2) that] .
  then show ?case
    using head_queries [OF Cons.prems, of k]
    by (auto simp: IH ENABLE_ORDER_YIELD_def preemptable_queue_def split: option.splits)
qed

lemma yield_loops_succeed:
  assumes "heads_stored ks db"
  shows "\<exists>db1. try_fold bump_if_yieldable ks db = Inr db1 \<and> same_but_yields db db1"
    and "\<exists>db1. try_fold reset_if_exhausted ks db = Inr db1 \<and> same_but_yields db db1"
proof -
  have y: "\<exists>b. head_is_yieldable k u = Inr b" if "k \<in> set ks" "same_but_yields db u" for k u
    using head_queries(2) [OF assms that(1)] yields_irrelevant(2) [OF that(2)] by simp
  have b: "same_but_yields u (bump_yield_count k u)" "same_but_yields u (reset_yield_count k u)" for k u
    by (simp_all add: same_but_yields_def bump_yield_count_def reset_yield_count_def)
  show "\<exists>db1. try_fold bump_if_yieldable ks db = Inr db1 \<and> same_but_yields db db1"
  proof (rule try_fold_total)
    fix k u assume "k \<in> set ks" "same_but_yields db u"
    with y obtain c where "head_is_yieldable k u = Inr c" by blast
    then show "\<exists>v. bump_if_yieldable k u = Inr v \<and> same_but_yields db v"
      using b(1) same_but_yields_trans \<open>same_but_yields db u\<close> by (auto simp: bump_if_yieldable_def)
  qed simp
  show "\<exists>db1. try_fold reset_if_exhausted ks db = Inr db1 \<and> same_but_yields db db1"
  proof (rule try_fold_total)
    fix k u assume "k \<in> set ks" "same_but_yields db u"
    with y obtain c where "head_is_yieldable k u = Inr c" by blast
    then show "\<exists>v. reset_if_exhausted k u = Inr v \<and> same_but_yields db v"
      using b(2) same_but_yields_trans \<open>same_but_yields db u\<close> by (auto simp: reset_if_exhausted_def)
  qed simp
qed

lemma free_preempt_ready:
  assumes "heads_stored ks db" and "k \<in> set ks" and "preemptable_queue db k" and "same_but_yields db db1"
  shows "preempt_ready True db1 k"
proof -
  have "tdb_tasks db1 = tdb_tasks db"
    using same_but_yieldsD [OF assms(4)] by (metis task_db.ext_inject task_db.surjective task_db.update_convs(6))
  then show ?thesis
    using assms by (auto simp: preempt_ready_def preemptable_queue_def heads_stored_def head_task_def yields_irrelevant(1) [OF assms(4)])
qed

lemma preempt_free:
  assumes ok: "db_ok db" and stored: "heads_stored ks db" and dist: "distinct ks"
    and free: "\<forall>k \<in> set ks. preemptable_queue db k"
  shows "\<exists>db1. same_but_yields db db1 \<and>
           preempt_queue_with_serial ks task db =
             Inr (Preempted, write_task (task_id task) ks task (preempted_db ks (task_id task) db1))"
proof -
  obtain db1 where bump: "try_fold bump_if_yieldable ks db = Inr db1" and same: "same_but_yields db db1"
    using yield_loops_succeed(1) [OF stored] by blast
  have core: "core_ok db" using ok by (simp add: db_ok_def)
  have "preempt_ready True db1 k \<and> check_invariants (serial_preempted (task_id task) (queue_of db1 k)) = Inr ()"
    if "k \<in> set ks" for k
    using free_preempt_ready [OF stored that _ same] free that core
    by (simp add: yields_irrelevant(1) [OF same] preempting_always_valid core_ok_def queues_ok_def)
  then have "try_fold (preempt_one_serial task True) ks db1 = Inr (preempted_db ks (task_id task) db1)"
    using preempt_serial_loop_succeeds [OF dist] by blast
  then have "preempt_queue_with_serial ks task db =
      Inr (Preempted, write_task (task_id task) ks task (preempted_db ks (task_id task) db1))"
    using bump free
    by (simp add: preempt_queue_with_serial_def hard_blocked_eq [OF stored core] ENABLE_ORDER_YIELD_def
        ENABLE_SETTLE_FAIRNESS_def do_preempt_serial_inner_def)
  then show ?thesis using same by blast
qed

lemma preempt_blocked:
  assumes ok: "db_ok db" and stored: "heads_stored ks db" and blocked: "\<not> (\<forall>k \<in> set ks. preemptable_queue db k)"
  shows "\<exists>db1. same_but_yields db db1 \<and>
           preempt_queue_with_serial ks task db =
             (if \<exists>k \<in> set ks. MAX_PENDING_PER_QUEUE \<le> length (get_pending_preempt_list k db)
              then Inl (Rejected ERR_PENDING_QUEUE_FULL) else Inr (Deferred, deferred_db ks task db1))"
proof -
  obtain db1 where reset: "try_fold reset_if_exhausted ks db = Inr db1" and same: "same_but_yields db db1"
    using yield_loops_succeed(2) [OF stored] by blast
  have core: "core_ok db" using ok by (simp add: db_ok_def)
  have "preempt_queue_with_serial ks task db =
      (if \<exists>k \<in> set ks. MAX_PENDING_PER_QUEUE \<le> length (get_pending_preempt_list k db)
       then Inl (Rejected ERR_PENDING_QUEUE_FULL) else Inr (Deferred, deferred_db ks task db1))"
    using reset blocked
    by (auto simp: preempt_queue_with_serial_def hard_blocked_eq [OF stored core] ENABLE_ORDER_YIELD_def
        ENABLE_SETTLE_DEFER_def list_ex_iff yields_irrelevant(4) [OF same]
        deferred_db_def deferred_entry_def next_pending_seq_def Let_def)
  then show ?thesis using same by blast
qed

section \<open>Work conservation\<close>

text \<open>A pop can only enable the task that comes to the head of one of the popped queues.\<close>

lemma popped_enables:
  assumes "queue_inv q" and "fst (q_pop_task n q)" and "check_invariants (snd (q_pop_task n q)) = Inr ()"
    and "can_task_run t (snd (q_pop_task n q))" and "\<not> can_task_run t q"
  shows "next_serial_task (snd (q_pop_task n q)) = Some t"
proof -
  have ok: "queue_ok q" "distinct (all_tasks q)" using assms(1) by (simp_all add: queue_inv_def)
  then have "can_task_run n q"
    using pop_runnable [OF ok, of n] assms(2,3) by (simp add: check_invariants_ok)
  then show ?thesis
  proof (cases "concurrent_tasks q = []")
    case True
    then show ?thesis
      using \<open>can_task_run n q\<close> assms(2,4)
      by (auto simp: can_task_run_iff pop_task_cases [OF ok(1)] next_serial_task_def split: if_splits)
  next
    case False
    then have n: "n \<in> set (concurrent_tasks q)" and t: "t \<notin> set (concurrent_tasks q)"
      using \<open>can_task_run n q\<close> assms(5) by (simp_all add: can_task_run_iff)
    moreover have "first (serial_tasks q) \<noteq> Some n"
      using n ok(2) by (auto simp: all_tasks_def first_eq_Some)
    ultimately show ?thesis
      using assms(4) notin_set_remove1 [OF t, of n]
      by (auto simp: can_task_run_iff pop_task_cases [OF ok(1)] next_serial_task_def split: if_splits)
  qed
qed

lemma popped_idle:
  assumes core: "core_ok db" and pop: "poppable n db"
  shows "idle_tasks (popped_db n db) \<subseteq>
     idle_tasks db \<union>
     {t. \<exists>k \<in> set (get_queue_keys_for_task n db). next_serial_task (queue_of (popped_db n db) k) = Some t}"
proof
  fix t
  assume "t \<in> idle_tasks (popped_db n db)"
  then obtain x where x: "tdb_tasks (popped_db n db) t = Some x" "\<not> is_running (task_state x)"
    and run: "tx_can_task_run t (popped_db n db)"
    by (auto simp: idle_tasks_def)
  have ne: "t \<noteq> n" and old: "tdb_tasks db t = Some x" using x(1) by (auto simp: popped_db_def split: if_splits)
  show "t \<in> idle_tasks db \<union>
     {t. \<exists>k \<in> set (get_queue_keys_for_task n db). next_serial_task (queue_of (popped_db n db) k) = Some t}"
  proof (cases "tx_can_task_run t db")
    case True
    then show ?thesis using old x(2) by (simp add: idle_tasks_def)
  next
    case False
    then obtain k where k: "k \<in> set (get_queue_keys_for_task t db)" "\<not> can_task_run t (queue_of db k)"
      by (auto simp: tx_can_task_run_iff)
    moreover have "can_task_run t (queue_of (popped_db n db) k)"
      using run k(1) keys_popped [OF ne, of db] by (simp add: tx_can_task_run_iff)
    ultimately have "k \<in> set (get_queue_keys_for_task n db)" "can_task_run t (snd (q_pop_task n (queue_of db k)))"
      by (auto simp: queue_of_popped split: if_splits)
    moreover have "queue_inv (queue_of db k)" using core by (simp add: core_ok_def queues_ok_def)
    ultimately show ?thesis
      using popped_enables [of "queue_of db k" n t] pop k(2) by (auto simp: poppable_def queue_of_popped)
  qed
qed

lemma cleared_idle:
  assumes "db_ok db"
  shows "idle_tasks (cleared_db k db) \<subseteq> idle_tasks db - set (all_tasks (queue_of db k))"
proof
  fix t
  assume "t \<in> idle_tasks (cleared_db k db)"
  then obtain x where x: "tdb_tasks (cleared_db k db) t = Some x" "\<not> is_running (task_state x)"
    and run: "tx_can_task_run t (cleared_db k db)" by (auto simp: idle_tasks_def)
  have t: "t \<notin> set (all_tasks (queue_of db k))" "tdb_tasks db t = Some x"
    using x(1) db_ok_clear(3) [OF assms, of k] by (auto simp: restrict_map_def split: if_splits)
  have core: "core_ok db" using assms by (simp add: db_ok_def)
  obtain ks where ks: "tdb_task_keys db t = Some ks" using stored_keys [OF core t(2)] by blast
  then have away: "k \<notin> set ks" using core t(1) by (auto simp: core_ok_def index_ok_def)
  have keys: "get_queue_keys_for_task t (cleared_db k db) = ks"
    using ks t(1) db_ok_clear(5) [OF assms, of k] by (simp add: get_queue_keys_for_task_def)
  have "can_task_run t (queue_of db k')" if "k' \<in> set ks" for k'
  proof -
    have "k' \<noteq> k" using away that by blast
    then have "queue_of (cleared_db k db) k' = queue_of db k'"
      using db_ok_clear(4) [OF assms, of k] by (simp add: get_task_queue_deserialized_def)
    moreover have "can_task_run t (queue_of (cleared_db k db) k')"
      using run that by (simp add: tx_can_task_run_iff keys)
    ultimately show ?thesis by simp
  qed
  then have "tx_can_task_run t db"
    using ks by (simp add: tx_can_task_run_iff get_queue_keys_for_task_def)
  then show "t \<in> idle_tasks db - set (all_tasks (queue_of db k))"
    using t x(2) by (simp add: idle_tasks_def)
qed

lemma transition_idle:
  assumes "transition_task t st db = Inr db'" and "is_running st"
  shows "idle_tasks db' = idle_tasks db - {t}"
proof -
  obtain x where "tdb_tasks db t = Some x"
    and db': "db' = db\<lparr>tdb_tasks := (tdb_tasks db)(t \<mapsto> x\<lparr>task_state := st\<rparr>)\<rparr>"
    using assms(1) by (auto simp: transition_task_def res_simps update_task_def)
  moreover have "tx_can_task_run t' db' = tx_can_task_run t' db" for t'
    by (simp add: db' tx_can_task_run_iff get_queue_keys_for_task_def)
  ultimately show ?thesis using assms(2) by (auto simp: idle_tasks_def)
qed

lemma idle_tasks_same:
  assumes "tdb_queues db' = tdb_queues db" and "tdb_tasks db' = tdb_tasks db"
    and "tdb_task_keys db' = tdb_task_keys db"
  shows "idle_tasks db' = idle_tasks db"
proof -
  have "tx_can_task_run t db' = tx_can_task_run t db" for t
    using assms by (simp add: tx_can_task_run_def get_queue_keys_for_task_def)
  then show ?thesis using assms by (simp add: idle_tasks_def)
qed

section \<open>Initial and example databases\<close>

definition empty_task_db :: task_db where
  "empty_task_db =
     \<lparr>tdb_queues = \<lambda>_. None, tdb_tasks = \<lambda>_. None, tdb_task_keys = \<lambda>_. None, tdb_pending = \<lambda>_. None,
      tdb_pending_seq = None, tdb_yields = \<lambda>_. None, tdb_assigned = \<lambda>_. [], tdb_assignment = \<lambda>_. None,
      tdb_history_ids = \<lambda>_. None, tdb_history = \<lambda>_. None, tdb_history_enabled = None, tdb_peer_id = None\<rparr>"

lemma empty_queue_of [simp]: "queue_of empty_task_db k = task_queue_default"
  by (simp add: empty_task_db_def get_task_queue_deserialized_def)

lemma db_ok_empty: "db_ok empty_task_db"
proof -
  have "pending_entries empty_task_db = {}" "get_pending_preempt_list k empty_task_db = []" for k
    by (simp_all add: pending_entries_def get_pending_preempt_list_def empty_task_db_def)
  then show ?thesis
    by (simp add: db_ok_def core_ok_def queues_ok_def index_ok_def running_ok_def heads_ok_def pending_lists_ok_def
        pending_tasks_ok_def yields_ok_def yield_count_def MAX_CONSECUTIVE_YIELDS_def)
      (simp add: empty_task_db_def)
qed

definition example_startup :: "task_identifier \<Rightarrow> queued_task" where
  "example_startup t =
     queued_task_new t 0 (NodeStartup \<lparr>ns_id = t, gossip_warmup_ms = 0, raft_seed = False\<rparr>)"

text \<open>Two queues preempted by task 5; the task is running and has committed.\<close>

definition example_task_db :: task_db where
  "example_task_db =
     empty_task_db
       \<lparr>tdb_queues := [1 \<mapsto> serial_preempted 5 task_queue_default, 2 \<mapsto> serial_preempted 5 task_queue_default],
        tdb_tasks := [5 \<mapsto> (example_startup 5)\<lparr>task_state := Running ''Proving'' True\<rparr>],
        tdb_task_keys := [5 \<mapsto> [1, 2]]\<rparr>"

lemma example_startup_simps [simp]:
  "task_id (example_startup t) = t" "task_state (example_startup t) = Queued"
  "\<not> is_yieldable (descriptor (example_startup t))"
  by (simp_all add: example_startup_def queued_task_new_def)

lemma live_ids_empty [simp]: "live_ids empty_task_db = {}" "pending_entries empty_task_db = {}"
  by (simp_all add: live_ids_def pending_entries_def get_pending_preempt_list_def) (simp_all add: empty_task_db_def)

lemma example_pending [simp]: "get_pending_preempt_list k example_task_db = []"
  by (simp add: get_pending_preempt_list_def example_task_db_def empty_task_db_def)

lemma example_task_db_ok: "db_ok example_task_db"
proof -
  let ?db = "write_task 5 [1, 2] (example_startup 5) (preempted_db [1, 2] 5 empty_task_db)"
  have "do_preempt_serial_inner [1, 2] (example_startup 5) False empty_task_db = Inr ?db"
    using preempt_serial_loop_succeeds [of "[1, 2]" False empty_task_db "example_startup 5"]
    by (simp add: do_preempt_serial_inner_def preempt_ready_def can_preempt_serial_def preempting_always_valid)
  then have ok: "db_ok ?db"
    by (rule db_ok_do_preempt) (simp_all add: db_ok_empty new_task_def fresh_task_def)
  have q: "tdb_queues ?db = tdb_queues example_task_db" "tdb_tasks ?db = [5 \<mapsto> example_startup 5]"
      "tdb_task_keys ?db = [5 \<mapsto> [1, 2]]"
    by (auto simp: write_task_def update_task_def update_task_to_queues_def preempted_db_def upd_queues_def
        example_task_db_def fun_eq_iff serial_heads_def) (simp_all add: empty_task_db_def)
  have "transition_task 5 (Running ''Proving'' True) ?db =
      Inr (?db\<lparr>tdb_tasks := [5 \<mapsto> (example_startup 5)\<lparr>task_state := Running ''Proving'' True\<rparr>]\<rparr>)"
    by (simp add: transition_task_def q update_task_def)
  also have "?db\<lparr>tdb_tasks := [5 \<mapsto> (example_startup 5)\<lparr>task_state := Running ''Proving'' True\<rparr>]\<rparr> = example_task_db"
    using q(1,3) by (simp add: example_task_db_def write_task_def update_task_def update_task_to_queues_def preempted_db_def)
  finally show ?thesis
    by (rule db_ok_transition [OF _ ok])
      (simp add: tx_can_task_run_def get_queue_keys_for_task_def q, simp add: example_task_db_def can_task_run_iff serial_preempted_def)
qed

section \<open>Properties\<close>





end
