(* ===== verification/Applicator_Types.thy ===== *)
theory Applicator_Types
  imports Task_Queue
begin

text \<open>
  The errors and results that all state transitions share: \<open>state/src/applicator/error.rs\<close>,
  \<open>return_type.rs\<close>, and the error of a missing node metadata entry. A rejection of the
  storage layer stays a rejection; every other storage error is fatal to the node.
\<close>

datatype applicator_error =
    EnqueueTask string
  | MissingEntry string
  | AppRejected string
  | AppStorage storage_error
  | TaskQueueEmpty task_queue_key

fun from_storage_error :: "storage_error \<Rightarrow> applicator_error" where
  "from_storage_error (Rejected msg) = AppRejected msg"
| "from_storage_error e = AppStorage e"

datatype applicator_return = ReturnNone | ReturnDeferred

definition err_not_found :: "string \<Rightarrow> storage_error" where
  "err_not_found key = NotFound (''node metadata key '' @ key @ '' not found'')"

end
