(* ===== verification/Task_Applicator.thy ===== *)
theory Task_Applicator
  imports Task_Consistency Applicator_Types
begin

text \<open>
  The state transitions on task queues, \<open>state/src/applicator/task_queue.rs\<close>, with
  the node metadata they read.

  A transition works on a copy of the state, the transaction; it returns the committed state
  or an error, and then the old state stays in place. The state has the task tables, the jobs
  handed to the task driver and the completion events handed to the event manager. Messages a
  transition sends before it fails, the status messages on the system bus and the log are not
  modelled. A closed channel of the task driver is the error \<open>driver_error\<close>.

  The loop over deferred preemptions is a partial function: it is proved to return in every
  state the transitions can produce.
\<close>

section \<open>Constants and state\<close>

record app_state =
  app_db :: task_db
  app_jobs :: "queued_task list"
  app_events :: "(task_queue_key \<times> historical_task) list"
  driver_error :: "string option"

definition PENDING_STATE :: string where
  "PENDING_STATE = ''Pending''"

definition ERR_UNASSIGNED_TASK :: string where
  "ERR_UNASSIGNED_TASK = ''task not assigned''"

definition ERR_NO_KEY :: string where
  "ERR_NO_KEY = ''key not found for task''"

definition invalid_task_id :: "(uuid \<Rightarrow> string) \<Rightarrow> task_identifier \<Rightarrow> string" where
  "invalid_task_id show_id t = ''invalid task id: '' @ show_id t"

definition task_not_running :: "(uuid \<Rightarrow> string) \<Rightarrow> task_identifier \<Rightarrow> string" where
  "task_not_running show_id t = ''task '' @ show_id t @ '' is not running''"

definition new_running_state :: queued_task_state where
  "new_running_state = Running PENDING_STATE False"

section \<open>Node metadata\<close>

definition get_peer_id :: "task_db \<Rightarrow> storage_error + wrapped_peer_id" where
  "get_peer_id db = ok_or (err_not_found ''peer-id'') (tdb_peer_id db)"

definition get_historical_state_enabled :: "task_db \<Rightarrow> storage_error + bool" where
  "get_historical_state_enabled db =
     ok_or (err_not_found ''historical-state-enabled'') (tdb_history_enabled db)"

section \<open>Running tasks\<close>

definition maybe_execute_task :: "queued_task \<Rightarrow> app_state \<Rightarrow> applicator_error + app_state" where
  "maybe_execute_task task s =
     and_then (map_err from_storage_error (get_peer_id (app_db s))) (\<lambda>my_peer_id.
     and_then (ok_or (MissingEntry ERR_UNASSIGNED_TASK) (get_task_assignment (task_id task) (app_db s))) (\<lambda>executor.
       if executor = my_peer_id
       then (case driver_error s of
               Some msg \<Rightarrow> Inl (EnqueueTask msg)
             | None \<Rightarrow> Inr (s\<lparr>app_jobs := app_jobs s @ [task]\<rparr>))
       else Inr s))"

definition maybe_run_task :: "queued_task \<Rightarrow> app_state \<Rightarrow> applicator_error + app_state" where
  "maybe_run_task task s =
     (if \<not> tx_can_task_run (task_id task) (app_db s) then Inr s
      else
        and_then (map_err from_storage_error (transition_task (task_id task) new_running_state (app_db s)))
          (\<lambda>db. maybe_execute_task task (s\<lparr>app_db := db\<rparr>)))"

text \<open>One queue of a finished task: its history entry and its completion event.\<close>

definition append_historical_task ::
    "queued_task \<Rightarrow> wrapped_peer_id \<Rightarrow> bool \<Rightarrow> task_queue_key \<Rightarrow> app_state \<Rightarrow> applicator_error + app_state" where
  "append_historical_task task executor enabled k s =
     (case from_queued_task k task of
        None \<Rightarrow> Inr s
      | Some t \<Rightarrow>
          and_then (if enabled then map_err from_storage_error (append_task_to_history k t (app_db s))
                    else Inr (app_db s)) (\<lambda>db.
          and_then (map_err from_storage_error (get_peer_id db)) (\<lambda>my_peer_id.
            Inr (s\<lparr>app_db := db,
                   app_events := app_events s @ (if my_peer_id = executor then [(k, t)] else [])\<rparr>))))"

definition maybe_append_historical_task ::
    "task_queue_key list \<Rightarrow> queued_task \<Rightarrow> wrapped_peer_id \<Rightarrow> app_state \<Rightarrow> applicator_error + app_state" where
  "maybe_append_historical_task ks task executor s =
     and_then (map_err from_storage_error (get_historical_state_enabled (app_db s))) (\<lambda>enabled.
       try_fold (append_historical_task task executor enabled) ks s)"

definition pop_and_record_task ::
    "task_queue_key list \<Rightarrow> task_identifier \<Rightarrow> bool \<Rightarrow> app_state \<Rightarrow>
     applicator_error + (queued_task \<times> wrapped_peer_id \<times> app_state) option" where
  "pop_and_record_task ks t success s =
     and_then (map_err from_storage_error (pop_task t (app_db s))) (\<lambda>(popped, db).
       case popped of
         None \<Rightarrow> Inr None
       | Some task \<Rightarrow>
           (let task = task\<lparr>task_state := (if success then Completed else Failed)\<rparr> in
            case get_task_assignment t db of
              None \<Rightarrow> Inr None
            | Some peer_id \<Rightarrow>
                and_then (maybe_append_historical_task ks task peer_id
                            (s\<lparr>app_db := remove_assigned_task peer_id (task_id task) db\<rparr>))
                  (\<lambda>s. Inr (Some (task, peer_id, s)))))"

definition record_cleared_task ::
    "task_queue_key \<Rightarrow> queued_task \<Rightarrow> app_state \<Rightarrow> applicator_error + app_state" where
  "record_cleared_task k task s =
     (let task = task\<lparr>task_state := Failed\<rparr> in
      and_then (ok_or (MissingEntry ERR_UNASSIGNED_TASK) (get_task_assignment (task_id task) (app_db s))) (\<lambda>executor.
      and_then (maybe_append_historical_task [k] task executor s) (\<lambda>s.
        case get_task_assignment (task_id task) (app_db s) of
          None \<Rightarrow> Inr s
        | Some peer_id \<Rightarrow> Inr (s\<lparr>app_db := remove_assigned_task peer_id (task_id task) (app_db s)\<rparr>))))"

definition app_clear_task_queue :: "task_queue_key \<Rightarrow> app_state \<Rightarrow> applicator_error + app_state" where
  "app_clear_task_queue k s =
     and_then (map_err from_storage_error (clear_task_queue k (app_db s))) (\<lambda>(cleared, db).
       try_fold (record_cleared_task k) cleared (s\<lparr>app_db := db\<rparr>))"

section \<open>Deferred preemptions\<close>

fun entry_runnable :: "pending_entry \<Rightarrow> task_queue_key list \<Rightarrow> task_db \<Rightarrow> storage_error + bool" where
  "entry_runnable entry [] db = Inr True"
| "entry_runnable entry (k # ks) db =
     (if \<not> is_pending_head entry k db then Inr False
      else and_then (is_serial_preemption_safe k db) (\<lambda>safe.
             if \<not> safe then Inr False else entry_runnable entry ks db))"

definition run_pending_entry ::
    "wrapped_peer_id \<Rightarrow> pending_entry \<Rightarrow> app_state \<Rightarrow> applicator_error + app_state" where
  "run_pending_entry executor entry s =
     and_then (map_err from_storage_error (do_preempt_serial (target_keys entry) (pe_task entry) (app_db s))) (\<lambda>db.
     let db = remove_pending_preemption_entry entry db;
         db = add_assigned_task executor (task_id (pe_task entry)) db
     in case tdb_tasks db (task_id (pe_task entry)) of
          Some task \<Rightarrow> maybe_run_task task (s\<lparr>app_db := db\<rparr>)
        | None \<Rightarrow> Inr (s\<lparr>app_db := db\<rparr>))"

partial_function (option) run_unblocked_preemptions ::
    "task_queue_key \<Rightarrow> wrapped_peer_id \<Rightarrow> app_state \<Rightarrow> (applicator_error + app_state) option" where
  "run_unblocked_preemptions k executor s =
     (case pending_preempt_head k (app_db s) of
        None \<Rightarrow> Some (Inr s)
      | Some entry \<Rightarrow>
          if tdb_tasks (app_db s) (task_id (pe_task entry)) \<noteq> None
          then run_unblocked_preemptions k executor
                 (s\<lparr>app_db := remove_pending_preemption_entry entry (app_db s)\<rparr>)
          else
            (case entry_runnable entry (target_keys entry) (app_db s) of
               Inl e \<Rightarrow> Some (Inl (from_storage_error e))
             | Inr runnable \<Rightarrow>
                 if \<not> runnable then Some (Inr s)
                 else (case run_pending_entry executor entry s of
                         Inl e \<Rightarrow> Some (Inl e)
                       | Inr s \<Rightarrow> run_unblocked_preemptions k executor s)))"

fun run_all_unblocked ::
    "task_queue_key list \<Rightarrow> wrapped_peer_id \<Rightarrow> app_state \<Rightarrow> (applicator_error + app_state) option" where
  "run_all_unblocked [] executor s = Some (Inr s)"
| "run_all_unblocked (k # ks) executor s =
     (case run_unblocked_preemptions k executor s of
        None \<Rightarrow> None
      | Some (Inl e) \<Rightarrow> Some (Inl e)
      | Some (Inr s) \<Rightarrow> run_all_unblocked ks executor s)"

section \<open>Transitions\<close>

text \<open>The task a new task's transition reads back is the one it has just written.\<close>

definition append_task :: "queued_task \<Rightarrow> wrapped_peer_id \<Rightarrow> app_state \<Rightarrow> applicator_error + app_state" where
  "append_task task executor s =
     and_then (map_err from_storage_error (enqueue_serial_task (queue_key (descriptor task)) task (app_db s))) (\<lambda>db.
       maybe_run_task task (s\<lparr>app_db := add_assigned_task executor (task_id task) db\<rparr>))"

definition process_popped_queue ::
    "bool \<Rightarrow> task_queue_key \<Rightarrow> app_state \<Rightarrow> applicator_error + app_state" where
  "process_popped_queue success k s =
     and_then (if \<not> success then app_clear_task_queue k s else Inr s) (\<lambda>s.
       case next_runnable_task k (app_db s) of
         None \<Rightarrow> Inr s
       | Some task \<Rightarrow> maybe_run_task task s)"

definition app_pop_task ::
    "task_identifier \<Rightarrow> bool \<Rightarrow> app_state \<Rightarrow> (applicator_error + app_state) option" where
  "app_pop_task t success s =
     (let ks = get_queue_keys_for_task t (app_db s) in
      if ks = [] then Some (Inl (AppRejected ERR_NO_KEY))
      else
        (case and_then (pop_and_record_task ks t success s) (\<lambda>res.
               case res of
                 None \<Rightarrow> Inl (TaskQueueEmpty (hd ks))
               | Some (task, executor, s) \<Rightarrow>
                   and_then (try_fold (process_popped_queue success) ks s) (\<lambda>s. Inr (executor, s))) of
           Inl e \<Rightarrow> Some (Inl e)
         | Inr (executor, s) \<Rightarrow> if success then run_all_unblocked ks executor s else Some (Inr s)))"

definition transition_task_state ::
    "(uuid \<Rightarrow> string) \<Rightarrow> task_identifier \<Rightarrow> queued_task_state \<Rightarrow> app_state \<Rightarrow> applicator_error + app_state" where
  "transition_task_state show_id t st s =
     and_then (ok_or (AppRejected (invalid_task_id show_id t)) (tdb_tasks (app_db s) t)) (\<lambda>task.
       if \<not> is_running (task_state task) then Inl (AppRejected (task_not_running show_id t))
       else and_then (map_err from_storage_error (transition_task t st (app_db s))) (\<lambda>db.
              Inr (s\<lparr>app_db := db\<rparr>)))"

definition clear_queue :: "task_queue_key \<Rightarrow> app_state \<Rightarrow> applicator_error + app_state" where
  "clear_queue k s = app_clear_task_queue k s"

definition try_preempt_queues ::
    "task_queue_key list \<Rightarrow> queued_task \<Rightarrow> bool \<Rightarrow> task_db \<Rightarrow> applicator_error + preempt_outcome \<times> task_db" where
  "try_preempt_queues ks task is_serial db =
     (if is_serial then map_err from_storage_error (preempt_queue_with_serial ks task db)
      else and_then (map_err from_storage_error (preempt_queue_with_concurrent ks task db))
             (\<lambda>db. Inr (Preempted, db)))"

definition enqueue_preemptive_task ::
    "task_queue_key list \<Rightarrow> queued_task \<Rightarrow> wrapped_peer_id \<Rightarrow> bool \<Rightarrow> app_state \<Rightarrow>
     applicator_error + applicator_return \<times> app_state" where
  "enqueue_preemptive_task ks task executor is_serial s =
     and_then (try_preempt_queues ks task is_serial (app_db s)) (\<lambda>(res, db).
       if res = Deferred then Inr (ReturnDeferred, s\<lparr>app_db := db\<rparr>)
       else and_then (maybe_run_task task (s\<lparr>app_db := add_assigned_task executor (task_id task) db\<rparr>))
              (\<lambda>s. Inr (ReturnNone, s)))"

definition rerun_reassigned :: "task_identifier \<Rightarrow> app_state \<Rightarrow> applicator_error + app_state" where
  "rerun_reassigned t s =
     (case tdb_tasks (app_db s) t of
        None \<Rightarrow> Inr s
      | Some task \<Rightarrow> if \<not> is_running (task_state task) then Inr s else maybe_run_task task s)"

definition app_reassign_tasks ::
    "wrapped_peer_id \<Rightarrow> wrapped_peer_id \<Rightarrow> app_state \<Rightarrow> applicator_error + app_state" where
  "app_reassign_tasks from_peer to_peer s =
     (let (ts, db) = reassign_tasks from_peer to_peer (app_db s)
      in try_fold rerun_reassigned ts (s\<lparr>app_db := db\<rparr>))"

section \<open>The invariant of the transitions\<close>

text \<open>
  The two indexes of the assignments agree; exactly the stored tasks are assigned; and every
  stored task that may run is marked as running.
\<close>

definition assign_ok :: "task_db \<Rightarrow> bool" where
  "assign_ok db \<longleftrightarrow>
     (\<forall>p. bset_ok (tdb_assigned db p)) \<and>
     (\<forall>p t. t \<in> set (tdb_assigned db p) \<longleftrightarrow> tdb_assignment db t = Some p)"

definition app_ok :: "app_state \<Rightarrow> bool" where
  "app_ok s \<longleftrightarrow>
     db_ok (app_db s) \<and> assign_ok (app_db s) \<and> dom (tdb_assignment (app_db s)) = dom (tdb_tasks (app_db s)) \<and>
     idle_tasks (app_db s) = {}"

text \<open>The tables the invariant of the storage layer reads.\<close>

definition same_tables :: "task_db \<Rightarrow> task_db \<Rightarrow> bool" where
  "same_tables db db' \<longleftrightarrow>
     tdb_queues db' = tdb_queues db \<and> tdb_tasks db' = tdb_tasks db \<and> tdb_task_keys db' = tdb_task_keys db \<and>
     tdb_pending db' = tdb_pending db \<and> tdb_pending_seq db' = tdb_pending_seq db \<and> tdb_yields db' = tdb_yields db"

lemma same_tables_trans: "same_tables a b \<Longrightarrow> same_tables b c \<Longrightarrow> same_tables a c"
  by (simp add: same_tables_def)

lemma same_tables_ok:
  assumes "same_tables db db'"
  shows "db_ok db' = db_ok db" "idle_tasks db' = idle_tasks db" "queue_of db' k = queue_of db k"
    "get_pending_preempt_list k db' = get_pending_preempt_list k db"
proof -
  note same = assms [unfolded same_tables_def]
  have "core_ok db' = core_ok db" "live_ids db' = live_ids db"
    using core_ok_same [of db' db] same by simp_all
  moreover have "pending_entries db' = pending_entries db"
    using same pending_entries_same [of db' db] by simp
  ultimately show "db_ok db' = db_ok db"
    using same pending_lists_ok_same [of db' db] yields_ok_same [of db' db]
    by (simp add: db_ok_def pending_tasks_ok_def)
  show "idle_tasks db' = idle_tasks db" using same idle_tasks_same [of db' db] by simp
  show "queue_of db' k = queue_of db k" using same by (simp add: get_task_queue_deserialized_def)
  show "get_pending_preempt_list k db' = get_pending_preempt_list k db"
    using same by (simp add: get_pending_preempt_list_def)
qed

subsection \<open>Assignments\<close>

lemma add_assigned_ok:
  assumes "assign_ok db" and "tdb_assignment db t = None"
  shows "assign_ok (add_assigned_task p t db)" and "same_tables db (add_assigned_task p t db)"
    and "tdb_assignment (add_assigned_task p t db) = (tdb_assignment db)(t \<mapsto> p)"
  using assms
  by (auto simp: assign_ok_def same_tables_def add_assigned_task_def write_task_assignment_def
      bset_ok_insert set_bset_insert)

lemma remove_assigned_ok:
  assumes "assign_ok db" and "tdb_assignment db t = Some p"
  shows "assign_ok (remove_assigned_task p t db)" and "same_tables db (remove_assigned_task p t db)"
    and "tdb_assignment (remove_assigned_task p t db) = (tdb_assignment db)(t := None)"
  using assms
  by (auto simp: assign_ok_def same_tables_def remove_assigned_task_def bset_ok_remove set_bset_remove)

subsection \<open>Running a task\<close>

text \<open>Only the state of one task changes, and jobs may be sent.\<close>

definition state_only :: "task_db \<Rightarrow> task_db \<Rightarrow> bool" where
  "state_only db db' \<longleftrightarrow>
     db' = db\<lparr>tdb_tasks := tdb_tasks db'\<rparr> \<and> dom (tdb_tasks db') = dom (tdb_tasks db)"

lemma state_onlyD:
  assumes "state_only db db'"
  shows "dom (tdb_tasks db') = dom (tdb_tasks db)" "queue_of db' k = queue_of db k"
    "tdb_queues db' = tdb_queues db" "tdb_task_keys db' = tdb_task_keys db"
    "tdb_pending db' = tdb_pending db" "tdb_pending_seq db' = tdb_pending_seq db" "tdb_yields db' = tdb_yields db"
    "tdb_assigned db' = tdb_assigned db" "tdb_assignment db' = tdb_assignment db"
proof -
  have eq: "db' = db\<lparr>tdb_tasks := tdb_tasks db'\<rparr>" using assms by (simp add: state_only_def)
  show "queue_of db' k = queue_of db k" by (subst eq) simp
  show "tdb_queues db' = tdb_queues db" "tdb_task_keys db' = tdb_task_keys db"
    "tdb_pending db' = tdb_pending db" "tdb_pending_seq db' = tdb_pending_seq db" "tdb_yields db' = tdb_yields db"
    "tdb_assigned db' = tdb_assigned db" "tdb_assignment db' = tdb_assignment db"
    by (subst eq, simp)+
qed (use assms in \<open>simp add: state_only_def\<close>)

lemma state_only_refl [simp]: "state_only db db"
  by (simp add: state_only_def)

lemma maybe_execute_db: "maybe_execute_task task s = Inr s' \<Longrightarrow> app_db s' = app_db s"
  by (auto simp: maybe_execute_task_def res_simps split: if_splits option.splits)

lemma is_running_new [simp]: "is_running new_running_state"
  by (simp add: new_running_state_def is_running_def)

lemma maybe_run_task_ok:
  assumes "maybe_run_task task s = Inr s'" and "db_ok (app_db s)"
  shows "db_ok (app_db s') \<and> state_only (app_db s) (app_db s') \<and>
         idle_tasks (app_db s') = idle_tasks (app_db s) - {task_id task}"
proof (cases "tx_can_task_run (task_id task) (app_db s)")
  case True
  then obtain db where db: "transition_task (task_id task) new_running_state (app_db s) = Inr db"
    and s': "maybe_execute_task task (s\<lparr>app_db := db\<rparr>) = Inr s'"
    using assms(1) by (auto simp: maybe_run_task_def res_simps)
  have "app_db s' = db" using maybe_execute_db [OF s'] by simp
  moreover have "state_only (app_db s) db"
    using db by (auto simp: state_only_def transition_task_def update_task_def res_simps split: if_splits)
  ultimately show ?thesis
    using db_ok_transition [OF db assms(2)] True transition_idle [OF db] by simp
next
  case False
  then have "s' = s" using assms(1) by (simp add: maybe_run_task_def)
  moreover have "task_id task \<notin> idle_tasks (app_db s)" using False by (simp add: idle_tasks_def)
  ultimately show ?thesis using assms(2) by simp
qed

lemma assign_ok_same:
  "tdb_assigned db' = tdb_assigned db \<Longrightarrow> tdb_assignment db' = tdb_assignment db \<Longrightarrow> assign_ok db' = assign_ok db"
  by (simp add: assign_ok_def)

text \<open>Running a task is the last step of a transition: it takes it out of the idle tasks.\<close>

lemma app_ok_run:
  assumes "maybe_run_task task s = Inr s'" and "db_ok (app_db s)" and "assign_ok (app_db s)"
    and "dom (tdb_assignment (app_db s)) = dom (tdb_tasks (app_db s))"
    and "idle_tasks (app_db s) \<subseteq> {task_id task}"
  shows "app_ok s'"
proof -
  note run = maybe_run_task_ok [OF assms(1,2)]
  have "state_only (app_db s) (app_db s')" using run by blast
  note same = state_onlyD [OF this]
  show ?thesis
    using assms(3-5) run same(1,9) assign_ok_same [OF same(8,9)] by (auto simp: app_ok_def)
qed

subsection \<open>Adding tasks\<close>

lemma core_idle_added:
  assumes "app_ok s" and "db_ok db" and "same_rest (app_db s) db"
    and "dom (tdb_tasks db) = insert (task_id task) (dom (tdb_tasks (app_db s)))"
    and "idle_tasks db \<subseteq> insert (task_id task) (idle_tasks (app_db s))"
    and "task_id task \<notin> live_ids (app_db s)"
    and "maybe_run_task task (s\<lparr>app_db := add_assigned_task executor (task_id task) db\<rparr>) = Inr s'"
  shows "app_ok s'"
proof -
  note same = same_rest_pending [OF assms(3)]
  have "assign_ok db" "dom (tdb_assignment db) = dom (tdb_tasks (app_db s))"
    using assms(1) same assign_ok_same [of db "app_db s"] by (simp_all add: app_ok_def)
  moreover from this(2) have "tdb_assignment db (task_id task) = None"
    using assms(6) by (auto simp: live_ids_def)
  ultimately have add: "assign_ok (add_assigned_task executor (task_id task) db)"
      "same_tables db (add_assigned_task executor (task_id task) db)"
      "dom (tdb_assignment (add_assigned_task executor (task_id task) db)) = dom (tdb_tasks db)"
    using add_assigned_ok [of db "task_id task" executor] assms(4) by simp_all
  show ?thesis
  proof (rule app_ok_run [OF assms(7)])
    show "dom (tdb_assignment (app_db (s\<lparr>app_db := add_assigned_task executor (task_id task) db\<rparr>))) =
          dom (tdb_tasks (app_db (s\<lparr>app_db := add_assigned_task executor (task_id task) db\<rparr>)))"
      using add(2,3) by (simp add: same_tables_def)
  qed (use add(1) same_tables_ok [OF add(2)] assms(1,2,5) in \<open>auto simp: app_ok_def\<close>)
qed

lemma app_ok_append:
  assumes "append_task task executor s = Inr s'" and "app_ok s" and "new_task task (app_db s)"
  shows "app_ok s'"
proof -
  obtain db where db: "enqueue_serial_task (queue_key (descriptor task)) task (app_db s) = Inr db"
    and run: "maybe_run_task task (s\<lparr>app_db := add_assigned_task executor (task_id task) db\<rparr>) = Inr s'"
    using assms(1) by (auto simp: append_task_def res_simps)
  have new: "fresh_task task (app_db s)" using assms(3) by (simp add: new_task_def)
  note add = enqueue_serial_task_added [OF db new]
  have ok: "db_ok (app_db s)" "core_ok (app_db s)" using assms(2) by (simp_all add: app_ok_def db_ok_def)
  show ?thesis
    using core_idle_added [OF assms(2) db_ok_enqueue [OF db ok(1) assms(3)] add(2)
        enqueuing.added_dom(1) [OF add(1)] enqueuing.added_idle [OF add(1) ok(2)] _ run] new
    by (simp add: fresh_task_def)
qed

lemma app_ok_enqueue_concurrent:
  assumes "preempt_queue_with_concurrent ks task (app_db s) = Inr db"
    and "maybe_run_task task (s\<lparr>app_db := add_assigned_task executor (task_id task) db\<rparr>) = Inr s'"
    and "app_ok s" and "new_task task (app_db s)" and "distinct ks"
  shows "app_ok s'"
proof -
  have new: "fresh_task task (app_db s)" using assms(4) by (simp add: new_task_def)
  note add = preempt_queue_with_concurrent_added [OF assms(1) new assms(5)]
  have ok: "db_ok (app_db s)" "core_ok (app_db s)" using assms(3) by (simp_all add: app_ok_def db_ok_def)
  show ?thesis
    using core_idle_added [OF assms(3) db_ok_preempt_concurrent [OF assms(1) ok(1) assms(4,5)] add(2)
        concurrent_preempting.added_dom(1) [OF add(1)] concurrent_preempting.added_idle [OF add(1) ok(2)] _ assms(2)] new
    by (simp add: fresh_task_def)
qed

lemma app_ok_tables:
  assumes "app_ok s" and "db_ok db" and "tdb_queues db = tdb_queues (app_db s)"
    and "tdb_tasks db = tdb_tasks (app_db s)" and "tdb_task_keys db = tdb_task_keys (app_db s)"
    and "tdb_assigned db = tdb_assigned (app_db s)" and "tdb_assignment db = tdb_assignment (app_db s)"
  shows "app_ok (s\<lparr>app_db := db\<rparr>)"
  using assms assign_ok_same [OF assms(6,7)] idle_tasks_same [OF assms(3-5)] by (simp add: app_ok_def)

lemma app_ok_yields:
  assumes "app_ok s" and "same_but_yields (app_db s) db" and "yields_ok db"
  shows "app_ok (s\<lparr>app_db := db\<rparr>)"
proof (rule app_ok_tables [OF assms(1)])
  show "db_ok db" using db_ok_yields [OF assms(2) _ assms(3)] assms(1) by (simp add: app_ok_def)
qed (subst same_but_yieldsD [OF assms(2)], simp)+

lemma app_ok_do_preempt:
  assumes "do_preempt_serial_inner ks task ay (app_db s) = Inr db"
    and "maybe_run_task task (s\<lparr>app_db := add_assigned_task executor (task_id task) db\<rparr>) = Inr s'"
    and "app_ok s" and "new_task task (app_db s)" and "distinct ks" and "\<not> is_yieldable (descriptor task)"
  shows "app_ok s'"
proof -
  have new: "fresh_task task (app_db s)" using assms(4) by (simp add: new_task_def)
  note add = do_preempt_serial_inner_added [OF assms(1) new assms(5,6)]
  have ok: "db_ok (app_db s)" "core_ok (app_db s)" using assms(3) by (simp_all add: app_ok_def db_ok_def)
  show ?thesis
    using core_idle_added [OF assms(3) db_ok_do_preempt [OF assms(1) ok(1) assms(4-6)] add(2)
        serial_preempting.added_dom(1) [OF add(1)] serial_preempting.added_idle [OF add(1) ok(2)] _ assms(2)] new
    by (simp add: fresh_task_def)
qed

lemma app_ok_enqueue_serial:
  assumes pre: "preempt_queue_with_serial ks task (app_db s) = Inr (res, db)"
    and run: "res = Preempted \<Longrightarrow>
      maybe_run_task task (s\<lparr>app_db := add_assigned_task executor (task_id task) db\<rparr>) = Inr s'"
    and ok: "app_ok s" and new: "new_task task (app_db s)" and dist: "distinct ks"
    and settle: "\<not> is_yieldable (descriptor task)" and room: "seq_room (app_db s)"
  shows "if res = Deferred then app_ok (s\<lparr>app_db := db\<rparr>) else app_ok s'"
  using preempt_serial_cases [OF pre]
proof (elim disjE conjE exE)
  fix db1
  assume res: "res = Preempted" and free: "hard_blocked ks (app_db s) = Inr False"
    and bump: "try_fold bump_if_yieldable ks (app_db s) = Inr db1"
    and inner: "do_preempt_serial_inner ks task True db1 = Inr db"
  have "yield_count k (app_db s) < MAX_CONSECUTIVE_YIELDS"
    if "k \<in> set ks" "head_is_yieldable k (app_db s) = Inr True" for k
    using not_hard_blocked [OF free that(1)] yieldable_not_safe [OF that(2)] by auto
  then have y: "same_but_yields (app_db s) db1" "yields_ok db1"
    using bump_loop [OF bump dist] ok by (simp_all add: app_ok_def db_ok_def)
  then have "app_ok (s\<lparr>app_db := db1\<rparr>)" using app_ok_yields [OF ok] by blast
  then have "app_ok s'"
    using app_ok_do_preempt [of ks task True "s\<lparr>app_db := db1\<rparr>" db executor s'] inner run [OF res] new dist settle
    by (simp add: yields_irrelevant(6) [OF y(1)])
  then show ?thesis using res by simp
next
  fix db1
  assume res: "res = Deferred" and reset: "try_fold reset_if_exhausted ks (app_db s) = Inr db1"
    and db: "db = deferred_db ks task db1"
  have y: "same_but_yields (app_db s) db1" "yields_ok db1"
    using reset_loop [OF reset] ok by (simp_all add: app_ok_def db_ok_def)
  note same = same_but_pendingD [OF deferred_db_same [of db1 ks task], simplified]
  have ok': "db_ok db"
    using db_ok_preempt_serial [OF pre _ new dist settle room] ok by (simp add: app_ok_def)
  have eq: "tdb_queues db1 = tdb_queues (app_db s)" "tdb_tasks db1 = tdb_tasks (app_db s)"
    "tdb_task_keys db1 = tdb_task_keys (app_db s)" "tdb_assigned db1 = tdb_assigned (app_db s)"
    "tdb_assignment db1 = tdb_assignment (app_db s)"
    by (subst same_but_yieldsD [OF y(1)], simp)+
  have "app_ok (s\<lparr>app_db := db\<rparr>)"
    by (rule app_ok_tables [OF ok ok']) (simp_all add: db same eq)
  then show ?thesis using res by simp
qed

lemma app_ok_enqueue:
  assumes "enqueue_preemptive_task ks task executor serial s = Inr (ret, s')"
    and "app_ok s" and "new_task task (app_db s)" and "distinct ks"
    and "serial \<Longrightarrow> \<not> is_yieldable (descriptor task)" and "seq_room (app_db s)"
  shows "app_ok s'"
proof (cases serial)
  case True
  then obtain res db where pre: "preempt_queue_with_serial ks task (app_db s) = Inr (res, db)"
    and cont: "if res = Deferred then s' = s\<lparr>app_db := db\<rparr>
      else maybe_run_task task (s\<lparr>app_db := add_assigned_task executor (task_id task) db\<rparr>) = Inr s'"
    using assms(1) by (auto simp: enqueue_preemptive_task_def try_preempt_queues_def res_simps split: if_splits)
  have "if res = Deferred then app_ok (s\<lparr>app_db := db\<rparr>) else app_ok s'"
    using app_ok_enqueue_serial [OF pre _ assms(2-4) _ assms(6)] assms(5) True cont by (auto split: if_splits)
  then show ?thesis using cont by (auto split: if_splits)
next
  case False
  then show ?thesis
    using assms(1) app_ok_enqueue_concurrent [OF _ _ assms(2-4)]
    by (auto simp: enqueue_preemptive_task_def try_preempt_queues_def res_simps)
qed

subsection \<open>History\<close>

definition history_only :: "task_db \<Rightarrow> task_db \<Rightarrow> bool" where
  "history_only db db' \<longleftrightarrow>
     same_tables db db' \<and> tdb_assigned db' = tdb_assigned db \<and> tdb_assignment db' = tdb_assignment db"

lemma history_only_trans: "history_only a b \<Longrightarrow> history_only b c \<Longrightarrow> history_only a c"
  by (simp add: history_only_def same_tables_def)

lemma append_history_only: "append_task_to_history k t db = Inr db' \<Longrightarrow> history_only db db'"
  by (auto simp: append_task_to_history_def res_simps history_only_def same_tables_def Let_def)

lemma append_historical_only:
  "append_historical_task task executor enabled k s = Inr s' \<Longrightarrow> history_only (app_db s) (app_db s')"
  by (auto simp: append_historical_task_def res_simps split: option.splits if_splits dest: append_history_only)
    (simp_all add: history_only_def same_tables_def)

lemma maybe_append_historical_only:
  assumes "maybe_append_historical_task ks task executor s = Inr s'"
  shows "history_only (app_db s) (app_db s')"
proof -
  obtain enabled where loop: "try_fold (append_historical_task task executor enabled) ks s = Inr s'"
    using assms by (auto simp: maybe_append_historical_task_def res_simps)
  show ?thesis
    by (rule try_fold_invariant [OF loop])
      (auto simp: history_only_def [of "app_db s" "app_db s"] same_tables_def dest: append_historical_only history_only_trans)
qed

subsection \<open>Popping and clearing\<close>

text \<open>Everything but the idle tasks is in order.\<close>

definition tables_ok :: "task_db \<Rightarrow> bool" where
  "tables_ok db \<longleftrightarrow> db_ok db \<and> assign_ok db \<and> dom (tdb_assignment db) = dom (tdb_tasks db)"

lemma app_ok_tables_ok: "app_ok s \<longleftrightarrow> tables_ok (app_db s) \<and> idle_tasks (app_db s) = {}"
  by (auto simp: app_ok_def tables_ok_def)

lemma pop_and_record_ok:
  assumes "pop_and_record_task ks t success s = Inr (Some (task, executor, s'))" and "app_ok s"
  shows "tables_ok (app_db s') \<and> same_tables (popped_db t (app_db s)) (app_db s') \<and>
         poppable t (app_db s) \<and> tdb_tasks (app_db s) t \<noteq> None"
proof -
  let ?db = "popped_db t (app_db s)"
  obtain r db x p where pop: "pop_task t (app_db s) = Inr (Some x, db)" and p: "tdb_assignment db t = Some p"
    and hist: "maybe_append_historical_task ks (x\<lparr>task_state := (if success then Completed else Failed)\<rparr>) p
      (s\<lparr>app_db := remove_assigned_task p (task_id x) db\<rparr>) = Inr s'"
    using assms(1)
    by (auto simp: pop_and_record_task_def res_simps get_task_assignment_def Let_def split: option.splits)
  have ok: "db_ok (app_db s)" "assign_ok (app_db s)"
      "dom (tdb_assignment (app_db s)) = dom (tdb_tasks (app_db s))"
    using assms(2) by (simp_all add: app_ok_def)
  have db: "db_ok db" "db = ?db" and x: "tdb_tasks (app_db s) t = Some x"
    using db_ok_pop [OF pop ok(1)] by auto
  have pb: "poppable t (app_db s)"
    using pop pop_task_eq [of "app_db s" t "Some x" db] ok(1) by (simp add: db_ok_def)
  have id: "task_id x = t" using ok(1) x by (simp add: db_ok_def core_ok_def running_ok_def)
  have as: "tdb_assigned db = tdb_assigned (app_db s)" "tdb_assignment db = tdb_assignment (app_db s)"
    using db(2) by (simp_all add: popped_db_def)
  have "assign_ok db" using ok(2) assign_ok_same [OF as] by simp
  note rem = remove_assigned_ok [OF this p]
  have "history_only (remove_assigned_task p t db) (app_db s')"
    using maybe_append_historical_only [OF hist] id by simp
  then have same: "same_tables (remove_assigned_task p t db) (app_db s')"
    and as': "tdb_assigned (app_db s') = tdb_assigned (remove_assigned_task p t db)"
      "tdb_assignment (app_db s') = tdb_assignment (remove_assigned_task p t db)"
    by (simp_all add: history_only_def)
  have tables: "same_tables db (app_db s')" using same_tables_trans [OF rem(2) same] .
  have "tdb_tasks (app_db s') = (tdb_tasks (app_db s))(t := None)"
    using tables db(2) by (simp add: same_tables_def popped_db_def)
  then have "dom (tdb_assignment (app_db s')) = dom (tdb_tasks (app_db s'))"
    using as'(2) rem(3) as(2) ok(3) by simp
  then have "tables_ok (app_db s')"
    using db(1) same_tables_ok(1) [OF tables] rem(1) assign_ok_same [OF as'] by (simp add: tables_ok_def)
  then show ?thesis using tables db(2) pb x by simp
qed

lemma record_cleared_loop:
  assumes "try_fold (record_cleared_task k) ts s = Inr s'" and "distinct (map task_id ts)"
    and "assign_ok (app_db s)"
    and "dom (tdb_assignment (app_db s)) = dom (tdb_tasks (app_db s)) \<union> task_id ` set ts"
    and "task_id ` set ts \<inter> dom (tdb_tasks (app_db s)) = {}"
  shows "same_tables (app_db s) (app_db s') \<and> assign_ok (app_db s') \<and>
         dom (tdb_assignment (app_db s')) = dom (tdb_tasks (app_db s'))"
  using assms
proof (induction ts arbitrary: s)
  case Nil
  then show ?case by (simp add: same_tables_def)
next
  case (Cons x ts)
  obtain p where p: "tdb_assignment (app_db s) (task_id x) = Some p" using Cons.prems(4) by fastforce
  obtain u where u: "record_cleared_task k x s = Inr u" "try_fold (record_cleared_task k) ts u = Inr s'"
    using Cons.prems(1) by (auto simp: and_then_eq_Inr)
  obtain s1 where hist: "maybe_append_historical_task [k] (x\<lparr>task_state := Failed\<rparr>) p s = Inr s1"
    and rest: "(case tdb_assignment (app_db s1) (task_id x) of
          None \<Rightarrow> Inr s1
        | Some peer_id \<Rightarrow> Inr (s1\<lparr>app_db := remove_assigned_task peer_id (task_id x) (app_db s1)\<rparr>)) =
        (Inr u :: applicator_error + app_state)"
    using u(1) p by (auto simp: record_cleared_task_def Let_def get_task_assignment_def and_then_eq_Inr cong: option.case_cong)
  have h: "history_only (app_db s) (app_db s1)" by (rule maybe_append_historical_only [OF hist])
  then have a1: "assign_ok (app_db s1)" "tdb_assignment (app_db s1) = tdb_assignment (app_db s)"
    using Cons.prems(3) assign_ok_same [of "app_db s1" "app_db s"] by (simp_all add: history_only_def)
  then have p1: "tdb_assignment (app_db s1) (task_id x) = Some p" using p by simp
  let ?db = "remove_assigned_task p (task_id x) (app_db s1)"
  note rem = remove_assigned_ok [OF a1(1) p1]
  have loop: "try_fold (record_cleared_task k) ts (s1\<lparr>app_db := ?db\<rparr>) = Inr s'"
    using rest p1 u(2) by simp
  have same: "same_tables (app_db s) ?db"
    using h rem(2) same_tables_trans by (simp add: history_only_def) blast
  then have tasks: "tdb_tasks ?db = tdb_tasks (app_db s)" by (simp add: same_tables_def)
  have "task_id x \<notin> task_id ` set ts" using Cons.prems(2) by auto
  then have "dom (tdb_assignment ?db) = dom (tdb_tasks ?db) \<union> task_id ` set ts"
    using rem(3) a1(2) Cons.prems(4,5) tasks by auto
  moreover have "task_id ` set ts \<inter> dom (tdb_tasks ?db) = {}" using Cons.prems(5) tasks by auto
  ultimately have "same_tables ?db (app_db s') \<and> assign_ok (app_db s') \<and>
         dom (tdb_assignment (app_db s')) = dom (tdb_tasks (app_db s'))"
    using Cons.IH [OF loop] Cons.prems(2) rem(1) by simp
  then show ?case using same same_tables_trans by blast
qed

lemma app_clear_ok:
  assumes "app_clear_task_queue k s = Inr s'" and "tables_ok (app_db s)"
  shows "tables_ok (app_db s') \<and> same_tables (cleared_db k (app_db s)) (app_db s')"
proof -
  let ?db = "app_db s" and ?ids = "all_tasks (queue_of (app_db s) k)"
  let ?cleared = "List.map_filter (tdb_tasks ?db) ?ids"
  have ok: "db_ok ?db" "core_ok ?db" "assign_ok ?db" "dom (tdb_assignment ?db) = dom (tdb_tasks ?db)"
    using assms(2) by (simp_all add: tables_ok_def db_ok_def)
  have loop: "try_fold (record_cleared_task k) ?cleared (s\<lparr>app_db := cleared_db k ?db\<rparr>) = Inr s'"
    using assms(1) by (simp add: app_clear_task_queue_def clear_task_queue_eq [OF ok(2)])
  have ids: "task_id x = t" if "tdb_tasks ?db t = Some x" for t x
    using ok(2) that by (simp add: core_ok_def running_ok_def)
  have "map task_id (List.map_filter (tdb_tasks ?db) ts) = filter (\<lambda>t. tdb_tasks ?db t \<noteq> None) ts" for ts
    by (induction ts) (auto simp: List.map_filter_simps ids split: option.splits)
  then have map: "map task_id ?cleared = filter (\<lambda>t. tdb_tasks ?db t \<noteq> None) ?ids" .
  then have "set (map task_id ?cleared) = set ?ids \<inter> dom (tdb_tasks ?db)"
    unfolding map by (auto simp: dom_def)
  then have set: "task_id ` set ?cleared = set ?ids \<inter> dom (tdb_tasks ?db)" by simp
  have "distinct ?ids" using ok(2) by (simp add: core_ok_def queues_ok_def queue_inv_def)
  then have dist: "distinct (map task_id ?cleared)" by (simp add: map)
  have tasks: "tdb_tasks (cleared_db k ?db) = tdb_tasks ?db |` (- set ?ids)"
    using db_ok_clear(3) [OF ok(1)] by simp
  have as: "tdb_assigned (cleared_db k ?db) = tdb_assigned ?db"
      "tdb_assignment (cleared_db k ?db) = tdb_assignment ?db"
    using same_but_pendingD(6,7) [OF delete_pending_preemption_ok(2) [OF db_ok_without_tasks [OF ok(1)]], of k]
    by (simp_all add: cleared_db_def without_tasks_def)
  have "dom (tdb_assignment (cleared_db k ?db)) = dom (tdb_tasks (cleared_db k ?db)) \<union> task_id ` set ?cleared"
    using ok(4) by (auto simp: as tasks set)
  then have "same_tables (cleared_db k ?db) (app_db s') \<and> assign_ok (app_db s') \<and>
      dom (tdb_assignment (app_db s')) = dom (tdb_tasks (app_db s'))"
    using record_cleared_loop [OF loop dist] assign_ok_same [OF as] ok(3) by (simp add: tasks set Int_assoc)
  then show ?thesis
    using db_ok_clear(1) [OF ok(1), of k] same_tables_ok(1) by (auto simp: tables_ok_def)
qed

lemma next_runnable_task_eq:
  "next_runnable_task k db = Option.bind (next_serial_task (queue_of db k)) (tdb_tasks db)"
  by (simp add: next_runnable_task_def get_task_queue_deserialized_def next_serial_task_def split: option.split)

lemma next_serial_mem: "next_serial_task q = Some t \<Longrightarrow> t \<in> set (all_tasks q)"
  by (auto simp: next_serial_task_def all_tasks_def first_eq_Some split: option.splits if_splits)

text \<open>The tasks that come to the head of the queues \<open>ks\<close>.\<close>

definition next_tasks :: "task_queue_key list \<Rightarrow> task_db \<Rightarrow> task_identifier set" where
  "next_tasks ks db = {t. \<exists>k \<in> set ks. next_serial_task (queue_of db k) = Some t}"

lemma maybe_run_tables:
  assumes "maybe_run_task task s = Inr s'" and "tables_ok (app_db s)"
  shows "tables_ok (app_db s') \<and> idle_tasks (app_db s') = idle_tasks (app_db s) - {task_id task} \<and>
         next_tasks ks (app_db s') = next_tasks ks (app_db s)"
proof -
  have "db_ok (app_db s)" using assms(2) by (simp add: tables_ok_def)
  note run = maybe_run_task_ok [OF assms(1) this]
  then have "state_only (app_db s) (app_db s')" by blast
  note same = state_onlyD [OF this]
  show ?thesis
    using assms(2) run same(1,2,9) assign_ok_same [OF same(8,9)] by (simp add: tables_ok_def next_tasks_def)
qed

lemma dispatch_next:
  assumes "(case next_runnable_task k (app_db s) of None \<Rightarrow> Inr s | Some task \<Rightarrow> maybe_run_task task s) = Inr s'"
    and "tables_ok (app_db s)" and "idle_tasks (app_db s) \<subseteq> next_tasks (k # ks) (app_db s)"
  shows "tables_ok (app_db s') \<and> idle_tasks (app_db s') \<subseteq> next_tasks ks (app_db s')"
proof (cases "next_runnable_task k (app_db s)")
  case None
  then have "s' = s" using assms(1) by simp
  moreover have "t \<notin> idle_tasks (app_db s)" if "next_serial_task (queue_of (app_db s) k) = Some t" for t
    using None that by (auto simp: next_runnable_task_eq idle_tasks_def)
  ultimately show ?thesis using assms(2,3) by (auto simp: next_tasks_def)
next
  case (Some task)
  then obtain t where t: "next_serial_task (queue_of (app_db s) k) = Some t" "tdb_tasks (app_db s) t = Some task"
    by (auto simp: next_runnable_task_eq bind_eq_Some_conv)
  then have "task_id task = t"
    using assms(2) by (simp add: tables_ok_def db_ok_def core_ok_def running_ok_def)
  then show ?thesis
    using maybe_run_tables [of task s s' ks] assms Some t(1) by (auto simp: next_tasks_def)
qed

lemma process_popped_ok:
  assumes "process_popped_queue success k s = Inr s'" and "tables_ok (app_db s)"
    and "idle_tasks (app_db s) \<subseteq> next_tasks (k # ks) (app_db s)"
  shows "tables_ok (app_db s') \<and> idle_tasks (app_db s') \<subseteq> next_tasks ks (app_db s')"
proof -
  obtain s1 where s1: "(if \<not> success then app_clear_task_queue k s else Inr s) = Inr s1"
    and disp: "(case next_runnable_task k (app_db s1) of None \<Rightarrow> Inr s1 | Some task \<Rightarrow> maybe_run_task task s1) = Inr s'"
    using assms(1) by (auto simp: process_popped_queue_def and_then_eq_Inr)
  have "tables_ok (app_db s1) \<and> idle_tasks (app_db s1) \<subseteq> next_tasks (k # ks) (app_db s1)"
  proof (cases success)
    case True
    then show ?thesis using s1 assms(2,3) by simp
  next
    case False
    then have "app_clear_task_queue k s = Inr s1" using s1 by simp
    note clear = app_clear_ok [OF this assms(2)]
    have ok: "db_ok (app_db s)" using assms(2) by (simp add: tables_ok_def)
    have same: "same_tables (cleared_db k (app_db s)) (app_db s1)" using clear by blast
    have q: "queue_of (app_db s1) k' = (if k' = k then task_queue_default else queue_of (app_db s) k')" for k'
      using same_tables_ok(3) [OF same] db_ok_clear(4) [OF ok, of k] by (simp add: get_task_queue_deserialized_def)
    have "idle_tasks (app_db s1) \<subseteq> idle_tasks (app_db s) - set (all_tasks (queue_of (app_db s) k))"
      using cleared_idle [OF ok, of k] same_tables_ok(2) [OF same] by simp
    then have "idle_tasks (app_db s1) \<subseteq> next_tasks (k # ks) (app_db s1)"
      using assms(3) by (fastforce simp: next_tasks_def q dest: next_serial_mem)
    then show ?thesis using clear by blast
  qed
  then show ?thesis using dispatch_next [OF disp] by blast
qed

lemma process_loop_ok:
  assumes "try_fold (process_popped_queue success) ks s = Inr s'" and "tables_ok (app_db s)"
    and "idle_tasks (app_db s) \<subseteq> next_tasks ks (app_db s)"
  shows "app_ok s'"
  using assms
proof (induction ks arbitrary: s)
  case Nil
  then show ?case by (simp add: app_ok_tables_ok next_tasks_def)
next
  case (Cons k ks)
  obtain s1 where "process_popped_queue success k s = Inr s1" "try_fold (process_popped_queue success) ks s1 = Inr s'"
    using Cons.prems(1) by (auto simp: and_then_eq_Inr)
  then show ?case using Cons.IH [of s1] process_popped_ok Cons.prems(2,3) by blast
qed

lemma pop_and_process_ok:
  assumes pop: "pop_and_record_task (get_queue_keys_for_task t (app_db s)) t success s = Inr (Some (task, executor, s1))"
    and loop: "try_fold (process_popped_queue success) (get_queue_keys_for_task t (app_db s)) s1 = Inr s'"
    and ok: "app_ok s"
  shows "app_ok s'"
proof -
  note rec = pop_and_record_ok [OF pop ok]
  then have same: "same_tables (popped_db t (app_db s)) (app_db s1)" and pb: "poppable t (app_db s)" by blast+
  have "core_ok (app_db s)" "idle_tasks (app_db s) = {}" using ok by (simp_all add: app_ok_def db_ok_def)
  then have "idle_tasks (app_db s1) \<subseteq> next_tasks (get_queue_keys_for_task t (app_db s)) (app_db s1)"
    using popped_idle [OF _ pb] same_tables_ok(2,3) [OF same] by (simp add: next_tasks_def)
  then show ?thesis using process_loop_ok [OF loop] rec by blast
qed

subsection \<open>Running deferred preemptions\<close>

lemma head_in_list: "pending_preempt_head k db = Some e \<Longrightarrow> e \<in> set (get_pending_preempt_list k db)"
  using min_by_key_SomeD by (fastforce simp: pending_preempt_head_def)

lemma pending_fresh:
  assumes "db_ok db" and "e \<in> pending_entries db"
  shows "fresh_task (pe_task e) db" "distinct (target_keys e)" "\<not> is_yieldable (descriptor (pe_task e))"
  using assms by (simp_all add: db_ok_def pending_tasks_ok_def fresh_task_def pending_lists_ok_def)

text \<open>Starting a deferred settlement and dropping its entry from all of its lists.\<close>

lemma start_pending_ok:
  assumes pre: "do_preempt_serial (target_keys e) (pe_task e) db = Inr db1"
    and ok: "db_ok db" and e: "e \<in> pending_entries db"
  shows "db_ok (remove_pending_preemption_entry e db1)"
    and "get_pending_preempt_list k (remove_pending_preemption_entry e db1) =
           filter (\<lambda>x. x \<noteq> e) (get_pending_preempt_list k db)"
    and "idle_tasks (remove_pending_preemption_entry e db1) \<subseteq> insert (task_id (pe_task e)) (idle_tasks db)"
    and "dom (tdb_tasks (remove_pending_preemption_entry e db1)) =
           insert (task_id (pe_task e)) (dom (tdb_tasks db))"
    and "tdb_assigned (remove_pending_preemption_entry e db1) = tdb_assigned db"
    and "tdb_assignment (remove_pending_preemption_entry e db1) = tdb_assignment db"
proof -
  let ?db = "remove_pending_preemption_entry e db1"
  note fresh = pending_fresh [OF ok e]
  note add = do_preempt_serial_inner_added [OF pre [unfolded do_preempt_serial_def] fresh]
  note rest = same_rest_pending [OF add(2)]
  note same = same_but_pendingD [OF same_but_pending_entry [of db1 e]]
  have core: "core_ok db" using ok by (simp add: db_ok_def)
  have lists1: "pending_lists_ok db1" "pending_entries db1 = pending_entries db"
      "get_pending_preempt_list k db1 = get_pending_preempt_list k db" for k
    using ok pending_lists_ok_same [OF rest(1,2)] pending_entries_same [OF rest(1)] rest(1)
    by (simp_all add: db_ok_def get_pending_preempt_list_def)
  show lists: "get_pending_preempt_list k ?db = filter (\<lambda>x. x \<noteq> e) (get_pending_preempt_list k db)" for k
    using remove_entry_list [OF lists1(1), of e k] e lists1(2,3) by simp
  have "core_ok ?db" using serial_preempting.added_core [OF add(1) core] core_ok_same(1) [OF same(1-3)] by simp
  moreover have live: "live_ids ?db = insert (task_id (pe_task e)) (live_ids db)"
    using serial_preempting.added_live [OF add(1)] core_ok_same(2) [OF same(1-3)] by simp
  have "pending_lists_ok ?db"
    using pending_lists_ok_filter [OF _ _ lists] ok same(4) rest(2) by (simp add: db_ok_def)
  moreover have "pending_tasks_ok ?db"
    using ok e live by (auto simp: db_ok_def pending_tasks_ok_def pending_entries_filter [OF lists] inj_on_def)
  moreover have "yields_ok ?db"
    using ok yields_ok_same [of ?db db] same(5) rest(3) by (simp add: db_ok_def)
  ultimately show "db_ok ?db" by (simp add: db_ok_def)
  show "idle_tasks ?db \<subseteq> insert (task_id (pe_task e)) (idle_tasks db)"
    using serial_preempting.added_idle [OF add(1) core] idle_tasks_same [OF same(1-3)] by simp
  show "dom (tdb_tasks ?db) = insert (task_id (pe_task e)) (dom (tdb_tasks db))"
    using serial_preempting.added_dom(1) [OF add(1)] same(2) by simp
  show "tdb_assigned ?db = tdb_assigned db" "tdb_assignment ?db = tdb_assignment db"
    using same(6,7) rest(4,5) by simp_all
qed

lemma run_pending_ok:
  assumes run: "run_pending_entry executor e s = Inr s'" and ok: "app_ok s"
    and e: "e \<in> pending_entries (app_db s)"
  shows "app_ok s'" and "get_pending_preempt_list k (app_db s') = filter (\<lambda>x. x \<noteq> e) (get_pending_preempt_list k (app_db s))"
proof -
  let ?t = "task_id (pe_task e)"
  obtain db1 where pre: "do_preempt_serial (target_keys e) (pe_task e) (app_db s) = Inr db1"
    using run by (auto simp: run_pending_entry_def res_simps)
  let ?db = "remove_pending_preemption_entry e db1"
  let ?db2 = "add_assigned_task executor ?t ?db"
  have dbok: "db_ok (app_db s)" using ok by (simp add: app_ok_def)
  note st = start_pending_ok [OF pre dbok e]
  have "?t \<notin> dom (tdb_tasks (app_db s))"
    using pending_fresh(1) [OF dbok e] by (auto simp: fresh_task_def live_ids_def)
  then have "tdb_assignment ?db ?t = None" "assign_ok ?db"
    using ok st(6) assign_ok_same [OF st(5,6)] by (auto simp: app_ok_def)
  note as = add_assigned_ok [OF this(2,1), of executor]
  have "?t \<in> dom (tdb_tasks ?db2)" using st(4) as(2) by (simp add: same_tables_def)
  then obtain x where x: "tdb_tasks ?db2 ?t = Some x" by blast
  have ok2: "db_ok ?db2" using st(1) same_tables_ok(1) [OF as(2)] by simp
  then have id: "task_id x = ?t" using x by (simp add: db_ok_def core_ok_def running_ok_def)
  have m: "maybe_run_task x (s\<lparr>app_db := ?db2\<rparr>) = Inr s'"
    using run pre x by (simp add: run_pending_entry_def Let_def)
  have "dom (tdb_assignment ?db2) = dom (tdb_tasks ?db2)"
    using as(2,3) st(4,6) ok by (simp add: same_tables_def app_ok_def)
  moreover have "idle_tasks ?db2 \<subseteq> {?t}"
    using st(3) same_tables_ok(2) [OF as(2)] ok by (simp add: app_ok_def)
  ultimately show "app_ok s'" using app_ok_run [OF m] ok2 as(1) id by simp
  have "state_only ?db2 (app_db s')" using maybe_run_task_ok [OF m] ok2 by simp
  then have "get_pending_preempt_list k (app_db s') = get_pending_preempt_list k ?db2"
    by (simp add: get_pending_preempt_list_def state_onlyD(5))
  then show "get_pending_preempt_list k (app_db s') = filter (\<lambda>x. x \<noteq> e) (get_pending_preempt_list k (app_db s))"
    using same_tables_ok(4) [OF as(2)] st(2) by simp
qed

lemma run_unblocked_ok:
  assumes "app_ok s"
  shows "\<exists>r. run_unblocked_preemptions k executor s = Some r \<and> (\<forall>s'. r = Inr s' \<longrightarrow> app_ok s')"
  using assms
proof (induction "length (get_pending_preempt_list k (app_db s))" arbitrary: s rule: less_induct)
  case less
  show ?case
  proof (cases "pending_preempt_head k (app_db s)")
    case None
    then show ?thesis using less.prems by (simp add: run_unblocked_preemptions.simps)
  next
    case (Some e)
    have mem: "e \<in> set (get_pending_preempt_list k (app_db s))" by (rule head_in_list [OF Some])
    then have e: "e \<in> pending_entries (app_db s)" by (auto simp: pending_entries_def)
    have "db_ok (app_db s)" using less.prems by (simp add: app_ok_def)
    then have dead: "tdb_tasks (app_db s) (task_id (pe_task e)) = None"
      using pending_fresh(1) [OF _ e] by (auto simp: fresh_task_def live_ids_def)
    show ?thesis
    proof (cases "entry_runnable e (target_keys e) (app_db s)")
      case (Inl err)
      then show ?thesis using Some dead by (simp add: run_unblocked_preemptions.simps)
    next
      case (Inr runnable)
      show ?thesis
      proof (cases "runnable \<and> (\<exists>s1. run_pending_entry executor e s = Inr s1)")
        case False
        then show ?thesis
          using Some dead Inr less.prems
          by (cases "run_pending_entry executor e s") (auto simp: run_unblocked_preemptions.simps)
      next
        case True
        then obtain s1 where s1: "run_pending_entry executor e s = Inr s1" by blast
        note ok = run_pending_ok [OF s1 less.prems e]
        have "length (get_pending_preempt_list k (app_db s1)) < length (get_pending_preempt_list k (app_db s))"
          using mem by (simp add: ok(2) length_filter_less)
        then have "\<exists>r. run_unblocked_preemptions k executor s1 = Some r \<and> (\<forall>s'. r = Inr s' \<longrightarrow> app_ok s')"
          using less.hyps ok(1) by blast
        then show ?thesis
          using Some dead Inr True s1 by (subst run_unblocked_preemptions.simps) simp
      qed
    qed
  qed
qed

lemma run_all_ok:
  "app_ok s \<Longrightarrow> \<exists>r. run_all_unblocked ks executor s = Some r \<and> (\<forall>s'. r = Inr s' \<longrightarrow> app_ok s')"
proof (induction ks arbitrary: s)
  case Nil
  then show ?case by simp
next
  case (Cons k ks)
  obtain r where r: "run_unblocked_preemptions k executor s = Some r" "\<forall>s'. r = Inr s' \<longrightarrow> app_ok s'"
    using run_unblocked_ok [OF Cons.prems] by blast
  then show ?case using Cons.IH by (cases r) simp_all
qed

subsection \<open>The remaining transitions\<close>

lemma app_pop_ok:
  assumes "app_ok s"
  shows "\<exists>r. app_pop_task t success s = Some r \<and> (\<forall>s'. r = Inr s' \<longrightarrow> app_ok s')"
proof (cases "get_queue_keys_for_task t (app_db s) = []")
  case True
  then show ?thesis by (simp add: app_pop_task_def)
next
  case False
  let ?ks = "get_queue_keys_for_task t (app_db s)"
  let ?pop = "and_then (pop_and_record_task ?ks t success s) (\<lambda>res.
       case res of
         None \<Rightarrow> Inl (TaskQueueEmpty (hd ?ks))
       | Some (task, executor, s) \<Rightarrow>
           and_then (try_fold (process_popped_queue success) ?ks s) (\<lambda>s. Inr (executor, s)))"
  show ?thesis
  proof (cases ?pop)
    case (Inl e)
    then show ?thesis using False by (simp add: app_pop_task_def)
  next
    case (Inr p)
    then obtain executor s2 where p: "p = (executor, s2)" by (cases p)
    with Inr obtain task s1 where "pop_and_record_task ?ks t success s = Inr (Some (task, executor, s1))"
        "try_fold (process_popped_queue success) ?ks s1 = Inr s2"
      by (auto simp: and_then_eq_Inr split: option.splits prod.splits)
    then have "app_ok s2" using pop_and_process_ok assms by blast
    then show ?thesis
      using False Inr p run_all_ok [of s2 ?ks executor] by (simp add: app_pop_task_def)
  qed
qed

lemma app_ok_transition:
  assumes "transition_task_state show_id t st s = Inr s'" and "app_ok s" and "is_running st"
  shows "app_ok s'"
proof -
  obtain x db where x: "tdb_tasks (app_db s) t = Some x" "is_running (task_state x)"
    and db: "transition_task t st (app_db s) = Inr db" and s': "s' = s\<lparr>app_db := db\<rparr>"
    using assms(1) by (auto simp: transition_task_state_def res_simps split: if_splits)
  have ok: "db_ok (app_db s)" using assms(2) by (simp add: app_ok_def)
  then have "tx_can_task_run t (app_db s)" using x by (simp add: db_ok_def core_ok_def running_ok_def)
  then have "db_ok db" using db_ok_transition [OF db ok] by simp
  moreover have "idle_tasks db = {}" using transition_idle [OF db assms(3)] assms(2) by (simp add: app_ok_def)
  moreover have so: "state_only (app_db s) db"
    using db by (auto simp: state_only_def transition_task_def update_task_def res_simps split: if_splits)
  ultimately show ?thesis
    using assms(2) s' assign_ok_same [OF state_onlyD(8,9) [OF so]] state_onlyD(1,9) [OF so]
    by (simp add: app_ok_def)
qed

lemma app_ok_clear:
  assumes "clear_queue k s = Inr s'" and "app_ok s"
  shows "app_ok s'"
proof -
  have "tables_ok (app_db s)" "db_ok (app_db s)" "idle_tasks (app_db s) = {}"
    using assms(2) by (simp_all add: app_ok_tables_ok tables_ok_def)
  note clear = app_clear_ok [OF assms(1) [unfolded clear_queue_def] this(1)] cleared_idle [OF this(2), of k]
  then show ?thesis
    using \<open>idle_tasks (app_db s) = {}\<close> same_tables_ok(2) by (auto simp: app_ok_tables_ok)
qed

lemma reassign_task_ok:
  assumes "assign_ok db" and "tdb_assignment db t = Some from_peer"
  shows "assign_ok (reassign_task from_peer to_peer t db)"
    and "same_tables db (reassign_task from_peer to_peer t db)"
    and "tdb_assignment (reassign_task from_peer to_peer t db) = (tdb_assignment db)(t \<mapsto> to_peer)"
  using assms
  by (auto simp: assign_ok_def same_tables_def reassign_task_def write_task_assignment_def Let_def
      bset_ok_insert bset_ok_remove set_bset_insert set_bset_remove)

lemma reassign_loop_ok:
  assumes "assign_ok db" and "distinct ts" and "\<forall>t \<in> set ts. tdb_assignment db t = Some from_peer"
  shows "assign_ok (fold (reassign_task from_peer to_peer) ts db) \<and>
         same_tables db (fold (reassign_task from_peer to_peer) ts db) \<and>
         (\<forall>t. tdb_assignment (fold (reassign_task from_peer to_peer) ts db) t =
            (if t \<in> set ts then Some to_peer else tdb_assignment db t))"
  using assms
proof (induction ts arbitrary: db)
  case Nil
  then show ?case by (simp add: same_tables_def)
next
  case (Cons t ts)
  note one = reassign_task_ok [of db t from_peer to_peer]
  let ?db = "reassign_task from_peer to_peer t db"
  have "assign_ok (fold (reassign_task from_peer to_peer) ts ?db) \<and>
         same_tables ?db (fold (reassign_task from_peer to_peer) ts ?db) \<and>
         (\<forall>t. tdb_assignment (fold (reassign_task from_peer to_peer) ts ?db) t =
            (if t \<in> set ts then Some to_peer else tdb_assignment ?db t))"
    using Cons one by (intro Cons.IH) auto
  then show ?case using Cons.prems one same_tables_trans [of db ?db] by auto
qed

lemma rerun_loop_ok:
  assumes "try_fold rerun_reassigned ts s = Inr s'" and "app_ok s"
  shows "app_ok s'"
proof (rule try_fold_invariant [OF assms(1), where P = app_ok])
  fix t u v
  assume u: "app_ok u" and v: "rerun_reassigned t u = Inr v"
  then have "v = u \<or> (\<exists>task. maybe_run_task task u = Inr v)"
    by (auto simp: rerun_reassigned_def split: option.splits if_splits)
  then show "app_ok v"
    using u maybe_run_tables [of _ u v] by (auto simp: app_ok_tables_ok)
qed (rule assms(2))

lemma app_ok_reassign:
  assumes "app_reassign_tasks from_peer to_peer s = Inr s'" and "app_ok s"
  shows "app_ok s'"
proof -
  let ?ts = "tdb_assigned (app_db s) from_peer"
  let ?db = "fold (reassign_task from_peer to_peer) ?ts (app_db s)"
  have as: "assign_ok (app_db s)" using assms(2) by (simp add: app_ok_def)
  then have "distinct ?ts" "\<forall>t \<in> set ?ts. tdb_assignment (app_db s) t = Some from_peer"
    by (auto simp: assign_ok_def strict_sorted_iff)
  note loop = reassign_loop_ok [OF as this, of to_peer]
  then have tables: "same_tables (app_db s) ?db" by blast
  have "dom (tdb_assignment ?db) = dom (tdb_assignment (app_db s))"
    using loop as by (auto simp: assign_ok_def dom_def split: if_splits)
  then have "app_ok (s\<lparr>app_db := ?db\<rparr>)"
    using assms(2) loop same_tables_ok(1,2) [OF tables] tables by (simp add: app_ok_def same_tables_def)
  moreover have "try_fold rerun_reassigned ?ts (s\<lparr>app_db := ?db\<rparr>) = Inr s'"
    using assms(1) by (simp add: app_reassign_tasks_def reassign_tasks_def get_assigned_tasks_def Let_def)
  ultimately show ?thesis by (rule rerun_loop_ok [rotated])
qed

section \<open>The transitions as a state machine\<close>

text \<open>
  The committed transitions of a node. Identifiers of new tasks are fresh, the queues of a
  preemption are distinct, a serially preempting task is not one that yields, and the task
  driver moves a running task between running states. The 64 bit sequence of deferred
  preemptions does not run out.
\<close>

inductive app_init :: "app_state \<Rightarrow> bool" where
  "app_db s = empty_task_db\<lparr>tdb_history_enabled := h, tdb_peer_id := p\<rparr> \<Longrightarrow> app_init s"

inductive app_step :: "app_state \<Rightarrow> app_state \<Rightarrow> bool" where
  step_append:
    "new_task task (app_db s) \<Longrightarrow> append_task task executor s = Inr s' \<Longrightarrow> app_step s s'"
| step_pop: "app_pop_task t success s = Some (Inr s') \<Longrightarrow> app_step s s'"
| step_transition:
    "is_running st \<Longrightarrow> transition_task_state show_id t st s = Inr s' \<Longrightarrow> app_step s s'"
| step_clear: "clear_queue k s = Inr s' \<Longrightarrow> app_step s s'"
| step_preempt:
    "new_task task (app_db s) \<Longrightarrow> distinct ks \<Longrightarrow> (serial \<longrightarrow> \<not> is_yieldable (descriptor task)) \<Longrightarrow>
     seq_room (app_db s) \<Longrightarrow> enqueue_preemptive_task ks task executor serial s = Inr (ret, s') \<Longrightarrow> app_step s s'"
| step_reassign: "app_reassign_tasks from_peer to_peer s = Inr s' \<Longrightarrow> app_step s s'"

inductive_cases app_stepE: "app_step s s'"

lemma app_ok_init: "app_init s \<Longrightarrow> app_ok s"
proof (induction rule: app_init.induct)
  case (1 s h p)
  have same: "same_tables empty_task_db (app_db s)" by (simp add: 1 same_tables_def)
  have "db_ok (app_db s)" using same_tables_ok(1) [OF same] db_ok_empty by simp
  moreover have "tdb_tasks (app_db s) = (\<lambda>_. None)" by (simp add: 1 empty_task_db_def)
  then have "idle_tasks (app_db s) = {}" by (simp add: idle_tasks_def)
  ultimately show ?case by (simp add: app_ok_def assign_ok_def) (simp add: 1 empty_task_db_def)
qed

lemma app_ok_step: "app_step s s' \<Longrightarrow> app_ok s \<Longrightarrow> app_ok s'"
proof (induction rule: app_step.induct)
  case (step_append task s executor s')
  then show ?case using app_ok_append by blast
next
  case (step_pop t success s s')
  then show ?case using app_pop_ok [of s t success] by auto
next
  case (step_transition st show_id t s s')
  then show ?case using app_ok_transition by blast
next
  case (step_clear k s s')
  then show ?case using app_ok_clear by blast
next
  case (step_preempt task s ks serial executor ret s')
  then show ?case using app_ok_enqueue by blast
next
  case (step_reassign from_peer to_peer s s')
  then show ?case using app_ok_reassign by blast
qed

interpretation app_sys: invariant_system app_init app_step app_ok
  by unfold_locales (fact app_ok_init app_ok_step)+

section \<open>An example run\<close>

definition example_app :: app_state where
  "example_app =
     \<lparr>app_db = empty_task_db\<lparr>tdb_history_enabled := Some True, tdb_peer_id := Some [1]\<rparr>,
      app_jobs = [], app_events = [], driver_error = None\<rparr>"

lemma example_app_reachable: "reachable app_init app_step example_app"
  by (rule reach_init, rule app_init.intros) (simp add: example_app_def)

text \<open>One task has been appended, started by the local node and committed.\<close>

definition example_app_running :: "queued_task_state \<Rightarrow> app_state" where
  "example_app_running st = example_app
     \<lparr>app_db := (app_db example_app)
        \<lparr>tdb_queues := [5 \<mapsto> q_enqueue_serial_task 5 task_queue_default],
         tdb_tasks := [5 \<mapsto> (example_startup 5)\<lparr>task_state := st\<rparr>], tdb_task_keys := [5 \<mapsto> [5]],
         tdb_assigned := (\<lambda>_. [])([1] := [5]), tdb_assignment := [5 \<mapsto> [1]]\<rparr>,
      app_jobs := [example_startup 5]\<rparr>"

lemma example_app_fresh: "new_task (example_startup 5) (app_db example_app)"
  by (simp add: new_task_def fresh_task_def live_ids_def pending_entries_def get_pending_preempt_list_def
      get_task_queue_deserialized_def example_app_def empty_task_db_def)

lemma example_append:
  "append_task (example_startup 5) [1] example_app = Inr (example_app_running new_running_state)"
  by (simp add: append_task_def enqueue_serial_task_def write_task_queue_def write_task_def update_task_def
      update_task_to_queues_def add_assigned_task_def write_task_assignment_def maybe_run_task_def
      maybe_execute_task_def transition_task_def get_peer_id_def get_task_assignment_def tx_can_task_run_def
      get_queue_keys_for_task_def get_task_queue_deserialized_def example_startup_def queued_task_new_def
      check_invariants_def MAX_CONCURRENT_TASKS_def check_preemption_state_def can_task_run_iff q_enqueue_serial_task_def
      example_app_running_def example_app_def empty_task_db_def Let_def)

lemma example_running_reachable:
  "reachable app_init app_step (example_app_running new_running_state)"
  by (rule reach_step [OF example_app_reachable]) (rule step_append [OF example_app_fresh example_append])

text \<open>The task commits, and a settlement of its queue and another one is deferred.\<close>

lemma example_committed_reachable:
  "reachable app_init app_step (example_app_running (Running ''Submitting'' True))"
proof (rule reach_step [OF example_running_reachable], rule step_transition)
  show "transition_task_state (\<lambda>_. []) 5 (Running ''Submitting'' True) (example_app_running new_running_state) =
      Inr (example_app_running (Running ''Submitting'' True))"
    by (simp add: transition_task_state_def transition_task_def update_task_def example_app_running_def)
qed (simp add: is_running_def)

definition example_app_deferred :: app_state where
  "example_app_deferred =
     (let s = example_app_running (Running ''Submitting'' True)
      in s\<lparr>app_db := deferred_db [5, 6] (example_startup 7) (app_db s)\<rparr>)"

lemma example_preempt_deferred:
  "enqueue_preemptive_task [5, 6] (example_startup 7) [1] True (example_app_running (Running ''Submitting'' True)) =
     Inr (ReturnDeferred, example_app_deferred)"
  by (simp add: enqueue_preemptive_task_def try_preempt_queues_def preempt_queue_with_serial_def
      is_serial_preemption_safe_def head_is_yieldable_def reset_if_exhausted_def example_app_running_def
      example_app_def empty_task_db_def q_enqueue_serial_task_def is_committed_def example_startup_def
      queued_task_new_def ENABLE_ORDER_YIELD_def ENABLE_SETTLE_DEFER_def get_pending_preempt_list_def
      MAX_PENDING_PER_QUEUE_def example_app_deferred_def deferred_db_def deferred_entry_def next_pending_seq_def Let_def)

lemma example_deferred_reachable: "reachable app_init app_step example_app_deferred"
proof (rule reach_step [OF example_committed_reachable], rule step_preempt [OF _ _ _ _ example_preempt_deferred])
  show "new_task (example_startup 7) (app_db (example_app_running (Running ''Submitting'' True)))"
    by (auto simp: new_task_def fresh_task_def live_ids_def pending_entries_def get_pending_preempt_list_def
        get_task_queue_deserialized_def example_app_running_def example_app_def empty_task_db_def split: if_splits)
  show "seq_room (app_db (example_app_running (Running ''Submitting'' True)))"
    by (simp add: seq_room_def example_app_running_def example_app_def empty_task_db_def)
qed simp_all

lemma example_deferred_list:
  "get_pending_preempt_list 6 (app_db example_app_deferred) =
     [\<lparr>pe_task = example_startup 7, target_keys = [5, 6], pe_seq = 1\<rparr>]"
  by (simp add: example_app_deferred_def Let_def deferred_list deferred_entry_def)
    (simp add: get_pending_preempt_list_def example_app_running_def example_app_def empty_task_db_def)

section \<open>Properties\<close>

text \<open>
  C12. Whatever sequence of transitions a node applies, a stored task is marked as running
  exactly when it holds all of its queues: no task runs that may not, and none that may run is
  left waiting. It is in exactly the queues of its index and assigned to exactly one peer; and
  two tasks that run on the same queue are both concurrent tasks of it.
\<close>

theorem running_iff_holds_queues:
  assumes "reachable app_init app_step s" and "tdb_tasks (app_db s) t = Some task"
  shows "(is_running (task_state task) \<longleftrightarrow> tx_can_task_run t (app_db s)) \<and>
         (\<forall>k. k \<in> set (get_queue_keys_for_task t (app_db s)) \<longleftrightarrow> t \<in> set (all_tasks (queue_of (app_db s) k))) \<and>
         (\<exists>!p. t \<in> set (get_assigned_tasks p (app_db s))) \<and>
         (\<forall>t' task' k. tdb_tasks (app_db s) t' = Some task' \<and> t' \<noteq> t \<and>
            is_running (task_state task) \<and> is_running (task_state task') \<and>
            k \<in> set (get_queue_keys_for_task t (app_db s)) \<and> k \<in> set (get_queue_keys_for_task t' (app_db s)) \<longrightarrow>
            {t, t'} \<subseteq> set (concurrent_tasks (queue_of (app_db s) k)))"
proof -
  let ?db = "app_db s"
  have ok: "app_ok s" by (rule app_sys.reachable_inv [OF assms(1)])
  then have core: "core_ok ?db" and idle: "idle_tasks ?db = {}" and as: "assign_ok ?db"
      "dom (tdb_assignment ?db) = dom (tdb_tasks ?db)"
    by (simp_all add: app_ok_def db_ok_def)
  have run: "is_running (task_state x) \<longrightarrow> tx_can_task_run u ?db" if "tdb_tasks ?db u = Some x" for u x
    using core that by (simp add: core_ok_def running_ok_def)
  have "is_running (task_state task) \<longleftrightarrow> tx_can_task_run t ?db"
    using run [OF assms(2)] idle assms(2) by (auto simp: idle_tasks_def)
  moreover obtain ks where "tdb_task_keys ?db t = Some ks" using stored_keys [OF core assms(2)] by blast
  then have "k \<in> set (get_queue_keys_for_task t ?db) \<longleftrightarrow> t \<in> set (all_tasks (queue_of ?db k))" for k
    using core by (simp add: core_ok_def index_ok_def get_queue_keys_for_task_def)
  moreover obtain p where "tdb_assignment ?db t = Some p" using as(2) assms(2) by blast
  then have "\<exists>!p. t \<in> set (get_assigned_tasks p ?db)"
    using as(1) by (auto simp: assign_ok_def get_assigned_tasks_def)
  moreover have "{t, t'} \<subseteq> set (concurrent_tasks (queue_of ?db k))"
    if "tdb_tasks ?db t' = Some task'" "t' \<noteq> t" "is_running (task_state task)" "is_running (task_state task')"
      "k \<in> set (get_queue_keys_for_task t ?db)" "k \<in> set (get_queue_keys_for_task t' ?db)" for t' task' k
  proof -
    have "can_task_run t (queue_of ?db k)" "can_task_run t' (queue_of ?db k)"
      using run [OF assms(2)] run [OF that(1)] that(3-6) by (simp_all add: tx_can_task_run_iff)
    then show ?thesis using that(2) by (auto simp: can_task_run_iff split: if_splits)
  qed
  ultimately show ?thesis by blast
qed

theorem running_iff_holds_queues_witness:
  "reachable app_init app_step (example_app_running new_running_state) \<and>
   tx_can_task_run 5 (app_db (example_app_running new_running_state))"
  using running_iff_holds_queues [OF example_running_reachable, of 5] example_running_reachable
  by (simp add: example_app_running_def)

text \<open>
  C17. Popping a task always returns: the loop that starts deferred settlements after a
  completion ends in every state a node can reach, with a committed state or an error.
\<close>

theorem pop_task_returns:
  assumes "reachable app_init app_step s"
  shows "\<exists>r. app_pop_task t success s = Some r"
  using app_pop_ok [OF app_sys.reachable_inv [OF assms]] by blast

theorem pop_task_returns_witness:
  "reachable app_init app_step (example_app_running new_running_state) \<and>
   (\<exists>r. app_pop_task 5 True (example_app_running new_running_state) = Some r)"
  using pop_task_returns [OF example_running_reachable] example_running_reachable by blast

text \<open>
  C19. Deferred settlements stay coherent: in every reachable state the list of a queue holds
  at most 64 entries in strictly ascending sequence, a settlement is in the list of exactly the
  queues it targets, its task is not stored yet, and no order task has yielded more than three
  times in a row.
\<close>

theorem deferred_lists_coherent:
  assumes "reachable app_init app_step s"
  shows "length (get_pending_preempt_list k (app_db s)) \<le> 64 \<and>
         sorted_wrt (\<lambda>a b. pe_seq a < pe_seq b) (get_pending_preempt_list k (app_db s)) \<and>
         (\<forall>e \<in> set (get_pending_preempt_list k (app_db s)).
            (\<forall>k'. e \<in> set (get_pending_preempt_list k' (app_db s)) \<longleftrightarrow> k' \<in> set (target_keys e)) \<and>
            tdb_tasks (app_db s) (task_id (pe_task e)) = None) \<and>
         yield_count k (app_db s) \<le> 3"
proof -
  have ok: "db_ok (app_db s)" using app_sys.reachable_inv [OF assms] by (simp add: app_ok_def)
  have "(\<forall>k'. e \<in> set (get_pending_preempt_list k' (app_db s)) \<longleftrightarrow> k' \<in> set (target_keys e)) \<and>
      tdb_tasks (app_db s) (task_id (pe_task e)) = None"
    if "e \<in> set (get_pending_preempt_list k (app_db s))" for e
  proof -
    have e: "e \<in> pending_entries (app_db s)" using that by (auto simp: pending_entries_def)
    then have "{k. e \<in> set (get_pending_preempt_list k (app_db s))} = set (target_keys e)"
      using ok by (simp add: db_ok_def pending_lists_ok_def)
    moreover have "tdb_tasks (app_db s) (task_id (pe_task e)) = None"
      using pending_fresh(1) [OF ok e] by (auto simp: fresh_task_def live_ids_def)
    ultimately show ?thesis by blast
  qed
  then show ?thesis
    using ok by (simp add: db_ok_def pending_lists_ok_def yields_ok_def MAX_PENDING_PER_QUEUE_def
        MAX_CONSECUTIVE_YIELDS_def)
qed

theorem deferred_lists_coherent_witness:
  "\<exists>s e. reachable app_init app_step s \<and> get_pending_preempt_list 6 (app_db s) = [e] \<and>
     (\<forall>k'. e \<in> set (get_pending_preempt_list k' (app_db s)) \<longleftrightarrow> k' \<in> {5, 6})"
proof -
  let ?e = "\<lparr>pe_task = example_startup 7, target_keys = [5, 6], pe_seq = 1\<rparr>"
  let ?s = "example_app_deferred"
  have "get_pending_preempt_list 6 (app_db ?s) = [?e]" by (rule example_deferred_list)
  then show ?thesis
    using deferred_lists_coherent [OF example_deferred_reachable, of 6] example_deferred_reachable by auto
qed

text \<open>
  C27. Reassigning the tasks of a failed peer moves all of them and nothing else: the peer is
  left without tasks, the receiving peer has its own and the moved ones, both directions of the
  index agree, and the returned list names exactly the tasks that moved.
\<close>

theorem reassign_moves_all:
  assumes "assign_ok db" and "from_peer \<noteq> to_peer"
  shows "case reassign_tasks from_peer to_peer db of (ts, db') \<Rightarrow>
     ts = get_assigned_tasks from_peer db \<and> assign_ok db' \<and> get_assigned_tasks from_peer db' = [] \<and>
     set (get_assigned_tasks to_peer db') = set (get_assigned_tasks to_peer db) \<union> set ts \<and>
     (\<forall>p. p \<noteq> from_peer \<and> p \<noteq> to_peer \<longrightarrow> get_assigned_tasks p db' = get_assigned_tasks p db) \<and>
     (\<forall>t. get_task_assignment t db' =
        (if t \<in> set ts then Some to_peer else get_task_assignment t db))"
proof -
  let ?ts = "tdb_assigned db from_peer"
  let ?db = "fold (reassign_task from_peer to_peer) ?ts db"
  have mem: "t \<in> set (tdb_assigned db p) \<longleftrightarrow> tdb_assignment db t = Some p" for t p
    using assms(1) by (simp add: assign_ok_def)
  have "distinct ?ts" using assms(1) by (auto simp: assign_ok_def strict_sorted_iff)
  then have ok: "assign_ok ?db" and look: "\<And>t. tdb_assignment ?db t = (if t \<in> set ?ts then Some to_peer else tdb_assignment db t)"
    using reassign_loop_ok [OF assms(1), of ?ts from_peer to_peer] mem by auto
  have mem': "t \<in> set (tdb_assigned ?db p) \<longleftrightarrow> tdb_assignment ?db t = Some p" for t p
    using ok by (simp add: assign_ok_def)
  have "tdb_assigned ?db p = tdb_assigned db p" if "p \<noteq> from_peer" "p \<noteq> to_peer" for p
  proof (rule strict_sorted_equal)
    show "sorted_wrt (<) (tdb_assigned ?db p)" "sorted_wrt (<) (tdb_assigned db p)"
      using ok assms(1) by (simp_all add: assign_ok_def)
    show "set (tdb_assigned ?db p) = set (tdb_assigned db p)"
      using that by (auto simp: mem mem' look split: if_splits)
  qed
  moreover have "t \<notin> set (tdb_assigned ?db from_peer)" for t
    using assms(2) by (simp add: mem mem' look)
  then have "tdb_assigned ?db from_peer = []" by (cases "tdb_assigned ?db from_peer") auto
  moreover have "set (tdb_assigned ?db to_peer) = set (tdb_assigned db to_peer) \<union> set ?ts"
    using assms(2) by (auto simp: mem mem' look split: if_splits)
  ultimately show ?thesis
    using ok look by (simp add: reassign_tasks_def get_assigned_tasks_def get_task_assignment_def Let_def)
qed

theorem reassign_moves_all_witness:
  "assign_ok (app_db (example_app_running new_running_state)) \<and>
   get_task_assignment 5 (snd (reassign_tasks [1] [2] (app_db (example_app_running new_running_state)))) = Some [2]"
proof -
  have ok: "assign_ok (app_db (example_app_running new_running_state))"
    using app_sys.reachable_inv [OF example_running_reachable] by (simp add: app_ok_def)
  moreover have "get_assigned_tasks [1] (app_db (example_app_running new_running_state)) = [5]"
    by (simp add: get_assigned_tasks_def example_app_running_def)
  ultimately show ?thesis
    using reassign_moves_all [OF ok, of "[1]" "[2]"] by (auto split: prod.splits)
qed

text \<open>
  C32. Clearing a queue strands the tasks it shares with other queues. A stored task that holds
  the head of another queue is deleted with the cleared queue but stays at the head of the
  other one: that queue has no next task to run, and every settlement that targets it is
  rejected because its head is not found.
\<close>

theorem clear_strands_shared_task:
  assumes "db_ok db" and "t \<in> set (all_tasks (queue_of db k))"
    and "k' \<noteq> k" and "first (serial_tasks (queue_of db k')) = Some t"
  shows "\<exists>cleared db'. clear_task_queue k db = Inr (cleared, db') \<and> tdb_tasks db' t = None \<and>
     queue_of db' k' = queue_of db k' \<and> next_runnable_task k' db' = None \<and>
     preempt_queue_with_serial [k'] task db' = Inl (Rejected ERR_TASK_NOT_FOUND)"
proof -
  have core: "core_ok db" using assms(1) by (simp add: db_ok_def)
  let ?db = "cleared_db k db"
  have q: "queue_of ?db k' = queue_of db k'"
    using db_ok_clear(4) [OF assms(1), of k] assms(3) by (simp add: get_task_queue_deserialized_def)
  have gone: "tdb_tasks ?db t = None" using db_ok_clear(3) [OF assms(1), of k] assms(2) by simp
  have "next_serial_task (queue_of db k') = None \<or> next_serial_task (queue_of db k') = Some t"
    using assms(4) by (simp add: next_serial_task_def)
  then have "next_runnable_task k' ?db = None" using q gone by (auto simp: next_runnable_task_eq)
  moreover have "is_serial_preemption_safe k' ?db = Inl (Rejected ERR_TASK_NOT_FOUND)"
    using assms(4) q gone by (simp add: is_serial_preemption_safe_eq)
  then have "preempt_queue_with_serial [k'] task ?db = Inl (Rejected ERR_TASK_NOT_FOUND)"
    by (simp add: preempt_queue_with_serial_def)
  ultimately show ?thesis using clear_task_queue_eq [OF core, of k] q gone by blast
qed

theorem clear_strands_shared_task_witness:
  "db_ok example_task_db \<and>
   (\<exists>cleared db'. clear_task_queue 1 example_task_db = Inr (cleared, db') \<and>
      preempt_queue_with_serial [2] (example_startup 6) db' = Inl (Rejected ERR_TASK_NOT_FOUND))"
  using clear_strands_shared_task [OF example_task_db_ok, of 5 1 2 "example_startup 6"] example_task_db_ok
  by (auto simp: get_task_queue_deserialized_def example_task_db_def)
    (auto simp: serial_preempted_def)

end
