(* ===== verification/Storage_Table.thy ===== *)
theory Storage_Table
  imports Prelude "HOL-Library.Char_ord" "HOL-Library.List_Lexorder" "HOL-Library.Sublist"
begin

text \<open>
  Tables of the key-value store and the cursor of \<open>state/src/storage/cursor.rs\<close>. A table is
  the list of its entries in ascending order of their keys. The storage engine's own cursor is
  third party code: its operations are the fields of the record \<open>mdbx\<close>, an argument of
  every definition that uses them, and the locale \<open>mdbx_cursor\<close> states their documented
  behaviour. What a cursor shows after it has deleted the last entry differs between versions
  of the engine; the contract allows both. Failures of the engine are not modelled.
\<close>

section \<open>Tables\<close>

type_synonym ('k, 'v) table = "('k \<times> 'v) list"

definition tbl_ok :: "('k::linorder, 'v) table \<Rightarrow> bool" where
  "tbl_ok t \<longleftrightarrow> sorted_wrt (<) (map fst t)"

definition db_read :: "'k \<Rightarrow> ('k, 'v) table \<Rightarrow> 'v option" where
  "db_read k t = map_of t k"

fun db_write :: "'k::linorder \<Rightarrow> 'v \<Rightarrow> ('k, 'v) table \<Rightarrow> ('k, 'v) table" where
  "db_write k v [] = [(k, v)]"
| "db_write k v ((k', v') # t) =
     (if k < k' then (k, v) # (k', v') # t
      else if k = k' then (k, v) # t
      else (k', v') # db_write k v t)"

definition db_delete :: "'k \<Rightarrow> ('k, 'v) table \<Rightarrow> ('k, 'v) table" where
  "db_delete k t = filter (\<lambda>e. fst e \<noteq> k) t"

lemma db_read_Nil [simp]: "db_read k [] = None"
  by (simp add: db_read_def)

lemma db_read_Cons [simp]: "db_read k (e # t) = (if k = fst e then Some (snd e) else db_read k t)"
  by (cases e) (simp add: db_read_def)

lemma db_read_write [simp]: "db_read k' (db_write k v t) = (if k' = k then Some v else db_read k' t)"
  by (induction t) (auto simp: db_read_def)

lemma db_read_delete [simp]: "db_read k' (db_delete k t) = (if k' = k then None else db_read k' t)"
  by (induction t) (auto simp: db_read_def db_delete_def)

lemma tbl_ok_Nil [simp]: "tbl_ok []"
  by (simp add: tbl_ok_def)

lemma tbl_ok_Cons: "tbl_ok (e # t) \<longleftrightarrow> (\<forall>e' \<in> set t. fst e < fst e') \<and> tbl_ok t"
  by (auto simp: tbl_ok_def)

lemma tbl_ok_append: "tbl_ok (t @ u) \<longleftrightarrow> tbl_ok t \<and> tbl_ok u \<and> (\<forall>e \<in> set t. \<forall>e' \<in> set u. fst e < fst e')"
  by (auto simp: tbl_ok_def sorted_wrt_append)

lemma tbl_ok_filter [simp]: "tbl_ok t \<Longrightarrow> tbl_ok (filter P t)"
  by (induction t) (auto simp: tbl_ok_Cons)

lemma tbl_ok_delete [simp]: "tbl_ok t \<Longrightarrow> tbl_ok (db_delete k t)"
  by (simp add: db_delete_def)

lemma fst_set_db_write: "fst ` set (db_write k v t) = insert k (fst ` set t)"
  by (induction k v t rule: db_write.induct) (simp_all add: insert_commute)

lemma tbl_ok_write [simp]: "tbl_ok t \<Longrightarrow> tbl_ok (db_write k v t)"
proof (induction t)
  case Nil
  then show ?case by (simp add: tbl_ok_Cons)
next
  case (Cons e t)
  have "fst x \<in> insert k (fst ` set t)" if "x \<in> set (db_write k v t)" for x
    using that fst_set_db_write [of k v t] by blast
  then show ?case using Cons by (cases e) (fastforce simp: tbl_ok_Cons)
qed

lemma tbl_ok_distinct: "tbl_ok t \<Longrightarrow> distinct (map fst t)"
  by (auto simp: tbl_ok_def strict_sorted_iff)

lemma db_read_iff: "tbl_ok t \<Longrightarrow> db_read k t = Some v \<longleftrightarrow> (k, v) \<in> set t"
  using tbl_ok_distinct by (fastforce simp: db_read_def map_of_eq_Some_iff)

lemma db_read_None: "db_read k t = None \<longleftrightarrow> k \<notin> fst ` set t"
  by (simp add: db_read_def map_of_eq_None_iff)

text \<open>A table is determined by what it maps every key to.\<close>

lemma table_listing:
  assumes "tbl_ok t"
  shows "map (\<lambda>k. (k, the (db_read k t))) (map fst t) = t"
proof -
  have "map (\<lambda>e. (fst e, the (db_read (fst e) t))) t = t"
    by (rule map_idI) (auto simp: db_read_iff [OF assms, THEN iffD2])
  then show ?thesis by (simp add: comp_def)
qed

lemma table_eqI:
  assumes "tbl_ok t" and "tbl_ok u" and "\<And>k. db_read k t = db_read k u"
  shows "t = u"
proof -
  have "(k, v) \<in> set t \<longleftrightarrow> (k, v) \<in> set u" for k v
    using assms by (metis db_read_iff)
  then have "set t = set u" by auto
  then have "map fst t = map fst u"
    using assms(1,2) strict_sorted_equal [of "map fst u" "map fst t"] by (simp add: tbl_ok_def)
  then show ?thesis using table_listing [OF assms(1)] table_listing [OF assms(2)] by (simp add: assms(3))
qed

section \<open>The storage engine's cursor\<close>

text \<open>
  The boolean of a movement says whether the engine reports an entry at the new position.
\<close>

record ('p, 'k, 'v) mdbx =
  mdbx_open :: 'p
  mdbx_first :: "('k, 'v) table \<Rightarrow> bool \<times> 'p"
  mdbx_last :: "('k, 'v) table \<Rightarrow> bool \<times> 'p"
  mdbx_set_range :: "'k \<Rightarrow> ('k, 'v) table \<Rightarrow> bool \<times> 'p"
  mdbx_next :: "'p \<Rightarrow> ('k, 'v) table \<Rightarrow> bool \<times> 'p"
  mdbx_current :: "'p \<Rightarrow> ('k, 'v) table \<Rightarrow> ('k \<times> 'v) option"
  mdbx_del :: "'p \<Rightarrow> ('k, 'v) table \<Rightarrow> 'p \<times> ('k, 'v) table"

text \<open>The movement has reached the first entry of the list, and reports none when there is none.\<close>

definition moved_to :: "('p, 'k, 'v) mdbx \<Rightarrow> ('k, 'v) table \<Rightarrow> bool \<times> 'p \<Rightarrow> ('k \<times> 'v) list \<Rightarrow> bool" where
  "moved_to m t r es \<longleftrightarrow> (fst r \<longleftrightarrow> es \<noteq> []) \<and> (es \<noteq> [] \<longrightarrow> mdbx_current m (snd r) t = Some (hd es))"

locale mdbx_cursor =
  fixes m :: "('p, 'k::linorder, 'v) mdbx"
  assumes current_open: "mdbx_current m (mdbx_open m) t = None"
    and current_stored: "mdbx_current m p t = Some e \<Longrightarrow> e \<in> set t"
    and first_entry: "tbl_ok t \<Longrightarrow> moved_to m t (mdbx_first m t) t"
    and last_entry: "tbl_ok t \<Longrightarrow> moved_to m t (mdbx_last m t) (rev t)"
    and empty_current: "mdbx_current m (snd (mdbx_first m [])) [] = None"
      "mdbx_current m (snd (mdbx_last m [])) [] = None"
    and range_entry: "tbl_ok t \<Longrightarrow> moved_to m t (mdbx_set_range m k t) (filter (\<lambda>e. k \<le> fst e) t)"
    and next_open: "tbl_ok t \<Longrightarrow> moved_to m t (mdbx_next m (mdbx_open m) t) t"
    and next_entry: "tbl_ok t \<Longrightarrow> mdbx_current m p t = Some (k, v) \<Longrightarrow>
      moved_to m t (mdbx_next m p t) (filter (\<lambda>e. k < fst e) t)"
    and del_entry: "tbl_ok t \<Longrightarrow> mdbx_current m p t = Some (k, v) \<Longrightarrow> snd (mdbx_del m p t) = db_delete k t"
    and del_current: "tbl_ok t \<Longrightarrow> mdbx_current m p t = Some (k, v) \<Longrightarrow>
      mdbx_current m (fst (mdbx_del m p t)) (db_delete k t) =
        (case filter (\<lambda>e. k < fst e) t of e # _ \<Rightarrow> Some e | [] \<Rightarrow> None) \<or>
      filter (\<lambda>e. k < fst e) t = [] \<and>
      mdbx_current m (fst (mdbx_del m p t)) (db_delete k t) = first (db_delete k t)"

text \<open>
  A cursor on the ordered list meets the contract, whether or not it wraps around when it
  deletes the last entry.
\<close>

datatype 'k position = Fresh | At 'k | End

definition position_of :: "('k \<times> 'v) list \<Rightarrow> 'k position" where
  "position_of es = (case es of [] \<Rightarrow> End | e # _ \<Rightarrow> At (fst e))"

definition move_to :: "('k \<times> 'v) list \<Rightarrow> bool \<times> 'k position" where
  "move_to es = (es \<noteq> [], position_of es)"

definition current_at :: "'k position \<Rightarrow> ('k, 'v) table \<Rightarrow> ('k \<times> 'v) option" where
  "current_at p t = (case p of At k \<Rightarrow> map_option (Pair k) (db_read k t) | _ \<Rightarrow> None)"

definition ordered_mdbx :: "bool \<Rightarrow> ('k::linorder position, 'k, 'v) mdbx" where
  "ordered_mdbx wraps =
     \<lparr>mdbx_open = Fresh, mdbx_first = move_to, mdbx_last = (\<lambda>t. move_to (rev t)),
      mdbx_set_range = (\<lambda>k t. move_to (filter (\<lambda>e. k \<le> fst e) t)),
      mdbx_next = (\<lambda>p t. case p of
         Fresh \<Rightarrow> move_to t | At k \<Rightarrow> move_to (filter (\<lambda>e. k < fst e) t) | End \<Rightarrow> (False, End)),
      mdbx_current = current_at,
      mdbx_del = (\<lambda>p t. case p of
         At k \<Rightarrow>
           (let t' = db_delete k t; es = filter (\<lambda>e. k < fst e) t
            in (if es = [] \<and> wraps then position_of t' else position_of es, t'))
       | _ \<Rightarrow> (p, t))\<rparr>"

lemma current_move:
  assumes "tbl_ok t" and "set es \<subseteq> set t"
  shows "current_at (position_of es) t = first es"
  using assms by (cases es) (auto simp: position_of_def current_at_def db_read_iff)

lemma moved_to_ordered:
  "tbl_ok t \<Longrightarrow> set es \<subseteq> set t \<Longrightarrow> moved_to (ordered_mdbx wraps) t (move_to es) es"
  by (cases es) (simp_all add: moved_to_def move_to_def current_move ordered_mdbx_def)

lemma db_read_mem: "db_read k t = Some v \<Longrightarrow> (k, v) \<in> set t"
  by (simp add: db_read_def map_of_SomeD)

interpretation ordered: mdbx_cursor "ordered_mdbx wraps" for wraps
proof unfold_locales
  fix t :: "('k::linorder, 'v) table" and p k v e
  show "mdbx_current (ordered_mdbx wraps) p t = Some e \<Longrightarrow> e \<in> set t"
    by (auto simp: ordered_mdbx_def current_at_def db_read_mem split: position.splits)
  assume t: "tbl_ok t"
  show "moved_to (ordered_mdbx wraps) t (mdbx_first (ordered_mdbx wraps) t) t"
    "moved_to (ordered_mdbx wraps) t (mdbx_last (ordered_mdbx wraps) t) (rev t)"
    "moved_to (ordered_mdbx wraps) t (mdbx_set_range (ordered_mdbx wraps) k t) (filter (\<lambda>e. k \<le> fst e) t)"
    "moved_to (ordered_mdbx wraps) t (mdbx_next (ordered_mdbx wraps) (mdbx_open (ordered_mdbx wraps)) t) t"
    using moved_to_ordered [OF t, of _ wraps] by (simp_all add: ordered_mdbx_def)
  assume c: "mdbx_current (ordered_mdbx wraps) p t = Some (k, v)"
  then have p: "p = At k" by (auto simp: ordered_mdbx_def current_at_def split: position.splits)
  show "moved_to (ordered_mdbx wraps) t (mdbx_next (ordered_mdbx wraps) p t) (filter (\<lambda>e. k < fst e) t)"
    using moved_to_ordered [OF t, of "filter (\<lambda>e. k < fst e) t" wraps] by (simp add: ordered_mdbx_def p)
  show "snd (mdbx_del (ordered_mdbx wraps) p t) = db_delete k t"
    by (simp add: ordered_mdbx_def p Let_def)
  have sub: "set (filter (\<lambda>e. k < fst e) t) \<subseteq> set (db_delete k t)" by (auto simp: db_delete_def)
  show "mdbx_current (ordered_mdbx wraps) (fst (mdbx_del (ordered_mdbx wraps) p t)) (db_delete k t) =
        (case filter (\<lambda>e. k < fst e) t of e # _ \<Rightarrow> Some e | [] \<Rightarrow> None) \<or>
      filter (\<lambda>e. k < fst e) t = [] \<and>
      mdbx_current (ordered_mdbx wraps) (fst (mdbx_del (ordered_mdbx wraps) p t)) (db_delete k t) =
        first (db_delete k t)"
    using current_move [OF tbl_ok_delete [OF t] sub] current_move [OF tbl_ok_delete [OF t] order_refl]
    by (simp add: ordered_mdbx_def p Let_def first_def)
qed (simp_all add: ordered_mdbx_def current_at_def move_to_def position_of_def)

section \<open>Cursors\<close>

record ('p, 'a) db_cursor =
  cur_pos :: 'p
  key_prefix :: "'a list option"

definition cursor_new :: "('p, 'a list, 'v) mdbx \<Rightarrow> ('p, 'a) db_cursor" where
  "cursor_new m = \<lparr>cur_pos = mdbx_open m, key_prefix = None\<rparr>"

definition with_key_prefix :: "'a list \<Rightarrow> ('p, 'a) db_cursor \<Rightarrow> ('p, 'a) db_cursor" where
  "with_key_prefix p c = c\<lparr>key_prefix := Some p\<rparr>"

definition get_current ::
    "('p, 'a list, 'v) mdbx \<Rightarrow> ('p, 'a) db_cursor \<Rightarrow> ('a list, 'v) table \<Rightarrow> ('a list \<times> 'v) option" where
  "get_current m c t = mdbx_current m (cur_pos c) t"

definition get_current_checked ::
    "('p, 'a list, 'v) mdbx \<Rightarrow> ('p, 'a) db_cursor \<Rightarrow> ('a list, 'v) table \<Rightarrow> ('a list \<times> 'v) option" where
  "get_current_checked m c t =
     (case get_current m c t of
        None \<Rightarrow> None
      | Some (k, v) \<Rightarrow>
          (case key_prefix c of
             Some p \<Rightarrow> if prefix p k then Some (k, v) else None
           | None \<Rightarrow> Some (k, v)))"

definition seek_next_raw ::
    "('p, 'a list, 'v) mdbx \<Rightarrow> ('p, 'a) db_cursor \<Rightarrow> ('a list, 'v) table \<Rightarrow> bool \<times> ('p, 'a) db_cursor" where
  "seek_next_raw m c t = (let (found, p) = mdbx_next m (cur_pos c) t in (\<not> found, c\<lparr>cur_pos := p\<rparr>))"

definition seek_first ::
    "('p, 'a list, 'v) mdbx \<Rightarrow> ('p, 'a) db_cursor \<Rightarrow> ('a list, 'v) table \<Rightarrow> ('p, 'a) db_cursor" where
  "seek_first m c t = c\<lparr>cur_pos := snd (mdbx_first m t)\<rparr>"

definition seek_last ::
    "('p, 'a list, 'v) mdbx \<Rightarrow> ('p, 'a) db_cursor \<Rightarrow> ('a list, 'v) table \<Rightarrow> ('p, 'a) db_cursor" where
  "seek_last m c t = c\<lparr>cur_pos := snd (mdbx_last m t)\<rparr>"

definition seek ::
    "('p, 'a list, 'v) mdbx \<Rightarrow> 'a list \<Rightarrow> ('p, 'a) db_cursor \<Rightarrow> ('a list, 'v) table \<Rightarrow>
     bool \<times> ('p, 'a) db_cursor" where
  "seek m k c t = (let (found, p) = mdbx_set_range m k t in (found, c\<lparr>cur_pos := p\<rparr>))"

definition cursor_delete ::
    "('p, 'a list, 'v) mdbx \<Rightarrow> ('p, 'a) db_cursor \<Rightarrow> ('a list, 'v) table \<Rightarrow>
     ('p, 'a) db_cursor \<times> ('a list, 'v) table" where
  "cursor_delete m c t = (let (p, t) = mdbx_del m (cur_pos c) t in (c\<lparr>cur_pos := p\<rparr>, t))"

section \<open>Iteration\<close>

record ('p, 'a, 'v) db_cursor_iter =
  iter_initial :: "('a list \<times> 'v) option"
  iter_cursor :: "('p, 'a) db_cursor"

definition cursor_into_iter ::
    "('p, 'a list, 'v) mdbx \<Rightarrow> ('p, 'a) db_cursor \<Rightarrow> ('a list, 'v) table \<Rightarrow> ('p, 'a, 'v) db_cursor_iter" where
  "cursor_into_iter m c t =
     (let c = (case key_prefix c of
                 Some p \<Rightarrow> c\<lparr>cur_pos := snd (mdbx_set_range m p t)\<rparr>
               | None \<Rightarrow> c)
      in \<lparr>iter_initial = get_current_checked m c t, iter_cursor = c\<rparr>)"

definition iter_next ::
    "('p, 'a list, 'v) mdbx \<Rightarrow> ('a list, 'v) table \<Rightarrow> ('p, 'a, 'v) db_cursor_iter \<Rightarrow>
     ('a list \<times> 'v) option \<times> ('p, 'a, 'v) db_cursor_iter" where
  "iter_next m t it =
     (case iter_initial it of
        Some e \<Rightarrow> (Some e, it\<lparr>iter_initial := None\<rparr>)
      | None \<Rightarrow>
          (let (found, p) = mdbx_next m (cur_pos (iter_cursor it)) t;
               it = it\<lparr>iter_cursor := (iter_cursor it)\<lparr>cur_pos := p\<rparr>\<rparr>
           in if \<not> found then (None, it) else (get_current_checked m (iter_cursor it) t, it)))"

text \<open>The entries a \<open>for\<close> loop over the iterator visits.\<close>

partial_function (option) iter_collect ::
    "('p, 'a list, 'v) mdbx \<Rightarrow> ('a list, 'v) table \<Rightarrow> ('p, 'a, 'v) db_cursor_iter \<Rightarrow>
     ('a list \<times> 'v) list option" where
  "iter_collect m t it =
     (case iter_next m t it of
        (None, it) \<Rightarrow> Some []
      | (Some e, it) \<Rightarrow> Option.bind (iter_collect m t it) (\<lambda>es. Some (e # es)))"

text \<open>
  Copying starts at the entry after the cursor's position; on a fresh cursor that is the
  first entry.
\<close>

partial_function (option) copy_cursor_to_table ::
    "('p, 'a::linorder list, 'v) mdbx \<Rightarrow> ('p, 'a) db_cursor \<Rightarrow> ('a list, 'v) table \<Rightarrow> ('a list, 'v) table \<Rightarrow>
     ('a list, 'v) table option" where
  "copy_cursor_to_table m c src dst =
     (let (done, c) = seek_next_raw m c src in
      if done then Some dst
      else (case get_current m c src of
              None \<Rightarrow> None
            | Some (k, v) \<Rightarrow> copy_cursor_to_table m c src (db_write k v dst)))"

text \<open>The keys with a given prefix are contiguous in the order of keys.\<close>

lemma prefix_le: "prefix p k \<Longrightarrow> p \<le> (k :: 'a::linorder list)"
  by (induction p k rule: list_induct2') auto

lemma prefix_contiguous:
  assumes "p \<le> k" and "k \<le> l" and "prefix p (l :: 'a::linorder list)"
  shows "prefix p k"
  using assms
proof (induction p arbitrary: k l)
  case Nil
  then show ?case by simp
next
  case (Cons a p)
  from Cons.prems(3) obtain l' where l: "l = a # l'" "prefix p l'" by (cases l) auto
  from Cons.prems(1) obtain b k' where k: "k = b # k'" by (cases k) auto
  have "a = b" "p \<le> k'" "k' \<le> l'" using Cons.prems(1,2) l k by auto
  then show ?case using Cons.IH l(2) k by simp
qed

context mdbx_cursor
begin

text \<open>Entries from a position on, as the iterator sees them.\<close>

lemma next_found:
  assumes "tbl_ok t" and "mdbx_current m p t = Some (k, v)" and "mdbx_next m p t = (found, q)"
  shows "found \<longleftrightarrow> filter (\<lambda>e. k < fst e) t \<noteq> []"
    and "found \<Longrightarrow> mdbx_current m q t = Some (hd (filter (\<lambda>e. k < fst e) t))"
  using next_entry [OF assms(1,2)] assms(3) by (auto simp: moved_to_def)

end

lemma filter_greater_split:
  assumes "tbl_ok t" and "t = xs @ (k, v) # ys"
  shows "filter (\<lambda>e. k < fst e) t = ys"
proof -
  have "filter (\<lambda>e. k < fst e) xs = []" "filter (\<lambda>e. k < fst e) ys = ys"
    using assms by (auto simp: tbl_ok_append tbl_ok_Cons filter_empty_conv dest: less_asym intro!: filter_True)
  then show ?thesis using assms(2) by simp
qed

lemma filter_ge_split:
  assumes "tbl_ok t"
  shows "\<exists>xs. t = xs @ filter (\<lambda>e. k \<le> fst e) t \<and> (\<forall>e \<in> set xs. fst e < k)"
  using assms
proof (induction t)
  case Nil
  then show ?case by simp
next
  case (Cons e t)
  show ?case
  proof (cases "k \<le> fst e")
    case True
    then have "filter (\<lambda>e. k \<le> fst e) t = t"
      using Cons.prems by (auto simp: tbl_ok_Cons intro!: filter_True)
    then show ?thesis using True by simp
  next
    case False
    obtain xs ys where "t = xs @ ys" "ys = filter (\<lambda>e. k \<le> fst e) t" "\<forall>e \<in> set xs. fst e < k"
      using Cons by (auto simp: tbl_ok_Cons)
    then show ?thesis using False by (intro exI [of _ "e # xs"]) simp
  qed
qed

context mdbx_cursor
begin

lemma next_split:
  assumes "tbl_ok t" and "t = xs @ (k, v) # ys" and "mdbx_current m p t = Some (k, v)"
    and "mdbx_next m p t = (found, q)"
  shows "found \<longleftrightarrow> ys \<noteq> []" and "found \<Longrightarrow> mdbx_current m q t = Some (hd ys)"
  using next_found [OF assms(1,3,4)] filter_greater_split [OF assms(1,2)] by simp_all

end

text \<open>The keys a cursor may show: all of them, or those with its prefix.\<close>

definition shows_key :: "'a list option \<Rightarrow> 'a list \<Rightarrow> bool" where
  "shows_key pf k = (case pf of None \<Rightarrow> True | Some p \<Rightarrow> prefix p k)"

lemma get_current_checked_eq:
  "get_current_checked m c t =
     (case mdbx_current m (cur_pos c) t of
        Some e \<Rightarrow> if shows_key (key_prefix c) (fst e) then Some e else None
      | None \<Rightarrow> None)"
  by (simp add: get_current_checked_def get_current_def shows_key_def split: option.splits)

lemma filter_prefix_sorted:
  assumes "tbl_ok es" and "\<forall>e \<in> set es. p \<le> fst e"
  shows "takeWhile (\<lambda>e. prefix p (fst e)) es = filter (\<lambda>e. prefix p (fst e)) (es :: ('a::linorder list, 'v) table)"
  using assms
proof (induction es)
  case Nil
  then show ?case by simp
next
  case (Cons e es)
  show ?case
  proof (cases "prefix p (fst e)")
    case True
    then show ?thesis using Cons by (simp add: tbl_ok_Cons)
  next
    case False
    have "\<not> prefix p (fst l)" if "l \<in> set es" for l
      using False Cons.prems that prefix_contiguous [of p "fst e" "fst l"] by (force simp: tbl_ok_Cons)
    then show ?thesis using False by (simp add: filter_empty_conv)
  qed
qed

locale byte_cursor = mdbx_cursor m for m :: "('p, 'a::linorder list, 'v) mdbx"
begin

lemma collect_from:
  assumes "tbl_ok t" and "t = xs @ e # ys" and "mdbx_current m (cur_pos c) t = Some e"
  shows "iter_collect m t \<lparr>iter_initial = None, iter_cursor = c\<rparr> =
    Some (takeWhile (\<lambda>e. shows_key (key_prefix c) (fst e)) ys)"
  using assms
proof (induction ys arbitrary: xs e c)
  case Nil
  obtain found q where q: "mdbx_next m (cur_pos c) t = (found, q)" by fastforce
  obtain k v where e: "e = (k, v)" by fastforce
  have "\<not> found" using next_split(1) [OF assms(1) _ _ q] Nil.prems(2,3) e by auto
  then show ?case by (subst iter_collect.simps) (simp add: iter_next_def q)
next
  case (Cons e' ys)
  obtain found q where q: "mdbx_next m (cur_pos c) t = (found, q)" by fastforce
  obtain k v where e: "e = (k, v)" by fastforce
  have found: "found" and cur: "mdbx_current m q t = Some e'"
    using next_split [OF assms(1) _ _ q] Cons.prems(2,3) e by auto
  have "iter_collect m t \<lparr>iter_initial = None, iter_cursor = c\<lparr>cur_pos := q\<rparr>\<rparr> =
    Some (takeWhile (\<lambda>e. shows_key (key_prefix c) (fst e)) ys)"
    using Cons.IH [OF assms(1), of "xs @ [e]" e' "c\<lparr>cur_pos := q\<rparr>"] Cons.prems(2) cur by simp
  then show ?case
    by (subst iter_collect.simps) (simp add: iter_next_def q found cur get_current_checked_eq)
qed

lemma collect_initial:
  "iter_collect m t \<lparr>iter_initial = Some e, iter_cursor = c\<rparr> =
   Option.bind (iter_collect m t \<lparr>iter_initial = None, iter_cursor = c\<rparr>) (\<lambda>es. Some (e # es))"
  by (subst iter_collect.simps) (simp add: iter_next_def)

text \<open>A cursor positioned nowhere shows no entry when no stored key may be shown.\<close>

lemma collect_none:
  assumes "\<forall>e \<in> set t. \<not> shows_key (key_prefix c) (fst e)"
  shows "get_current_checked m c t = None" and "iter_collect m t \<lparr>iter_initial = None, iter_cursor = c\<rparr> = Some []"
proof -
  have none: "get_current_checked m c' t = None" if "key_prefix c' = key_prefix c" for c'
    using assms that current_stored by (auto simp: get_current_checked_eq split: option.splits)
  then show "get_current_checked m c t = None" by simp
  show "iter_collect m t \<lparr>iter_initial = None, iter_cursor = c\<rparr> = Some []"
    by (subst iter_collect.simps) (auto simp: iter_next_def none Let_def split: prod.splits)
qed

lemma collect_prefix:
  assumes "tbl_ok t"
  shows "iter_collect m t (cursor_into_iter m (with_key_prefix p (cursor_new m)) t) =
    Some (filter (\<lambda>e. prefix p (fst e)) t)"
proof -
  let ?es = "filter (\<lambda>e. p \<le> fst e) t"
  obtain xs where xs: "t = xs @ ?es" using filter_ge_split [OF assms] by blast
  obtain found q where q: "mdbx_set_range m p t = (found, q)" by fastforce
  let ?c = "\<lparr>cur_pos = q, key_prefix = Some p\<rparr>"
  have it: "cursor_into_iter m (with_key_prefix p (cursor_new m)) t =
      \<lparr>iter_initial = get_current_checked m ?c t, iter_cursor = ?c\<rparr>"
    by (simp add: cursor_into_iter_def with_key_prefix_def cursor_new_def q Let_def)
  have filter: "filter (\<lambda>e. prefix p (fst e)) t = filter (\<lambda>e. prefix p (fst e)) ?es"
    using prefix_le by (auto simp: filter_filter intro!: filter_cong)
  have while: "takeWhile (\<lambda>e. prefix p (fst e)) ?es = filter (\<lambda>e. prefix p (fst e)) ?es"
    by (rule filter_prefix_sorted) (use assms in simp_all)
  show ?thesis
  proof (cases ?es)
    case Nil
    then have "\<forall>e \<in> set t. \<not> shows_key (key_prefix ?c) (fst e)"
      using prefix_le by (auto simp: shows_key_def filter_empty_conv)
    then show ?thesis using collect_none [of t ?c] filter Nil by (simp add: it)
  next
    case (Cons e ys)
    then have cur: "mdbx_current m q t = Some e"
      using range_entry [OF assms, of p] q by (simp add: moved_to_def)
    then have rest: "iter_collect m t \<lparr>iter_initial = None, iter_cursor = ?c\<rparr> =
        Some (takeWhile (\<lambda>e. prefix p (fst e)) ys)"
      using collect_from [OF assms, of xs e ys ?c] xs Cons by (simp add: shows_key_def)
    show ?thesis
    proof (cases "prefix p (fst e)")
      case True
      then have "get_current_checked m ?c t = Some e" by (simp add: get_current_checked_eq cur shows_key_def)
      then show ?thesis using rest while filter Cons True by (simp add: it collect_initial)
    next
      case False
      have "get_current_checked m ?c t = None" using False by (simp add: get_current_checked_eq cur shows_key_def)
      moreover have "\<not> prefix p (fst l)" if "l \<in> set ys" for l
        using while [symmetric] Cons False that by (auto simp: filter_empty_conv)
      then have "takeWhile (\<lambda>e. prefix p (fst e)) ys = []" by (cases ys) auto
      ultimately show ?thesis using rest while filter Cons False by (simp add: it)
    qed
  qed
qed

lemma collect_all:
  assumes "tbl_ok t"
  shows "iter_collect m t (cursor_into_iter m (cursor_new m) t) = Some t"
proof (cases t)
  case Nil
  then have "\<not> fst (mdbx_next m (mdbx_open m) t)" using next_open [OF assms] by (simp add: moved_to_def)
  then show ?thesis
    using Nil by (subst iter_collect.simps)
      (auto simp: cursor_into_iter_def cursor_new_def iter_next_def get_current_checked_eq current_open split: prod.splits)
next
  case (Cons e ys)
  obtain q where q: "mdbx_next m (mdbx_open m) t = (True, q)" and cur: "mdbx_current m q t = Some e"
    using next_open [OF assms] Cons by (cases "mdbx_next m (mdbx_open m) t") (auto simp: moved_to_def)
  have t: "t = [] @ e # ys" using Cons by simp
  have "iter_collect m t \<lparr>iter_initial = None, iter_cursor = \<lparr>cur_pos = q, key_prefix = None\<rparr>\<rparr> = Some ys"
    using collect_from [OF assms t, of "\<lparr>cur_pos = q, key_prefix = None\<rparr>"] cur by (simp add: shows_key_def)
  then have "iter_collect m t (cursor_into_iter m (cursor_new m) t) = Some (e # ys)"
    by (subst iter_collect.simps)
      (simp add: cursor_into_iter_def cursor_new_def iter_next_def get_current_checked_eq current_open q cur shows_key_def)
  then show ?thesis using Cons by simp
qed

lemma copy_from:
  assumes "tbl_ok src" and "src = xs @ e # ys" and "mdbx_current m (cur_pos c) src = Some e"
  shows "copy_cursor_to_table m c src dst = Some (fold (\<lambda>(k, v). db_write k v) ys dst)"
  using assms
proof (induction ys arbitrary: xs e c dst)
  case Nil
  obtain k v where e: "e = (k, v)" by fastforce
  obtain found q where q: "mdbx_next m (cur_pos c) src = (found, q)" by fastforce
  have "\<not> found" using next_split(1) [OF assms(1) _ _ q] Nil.prems(2,3) e by auto
  then show ?case by (subst copy_cursor_to_table.simps) (simp add: seek_next_raw_def q)
next
  case (Cons e' ys)
  obtain k v where e: "e = (k, v)" by fastforce
  obtain found q where q: "mdbx_next m (cur_pos c) src = (found, q)" by fastforce
  have found: "found" and cur: "mdbx_current m q src = Some e'"
    using next_split [OF assms(1) _ _ q] Cons.prems(2,3) e by auto
  have "copy_cursor_to_table m (c\<lparr>cur_pos := q\<rparr>) src dst' = Some (fold (\<lambda>(k, v). db_write k v) ys dst')" for dst'
    using Cons.IH [OF assms(1), of "xs @ [e]" e' "c\<lparr>cur_pos := q\<rparr>"] Cons.prems(2) cur by simp
  then show ?case
    by (subst copy_cursor_to_table.simps)
      (simp add: seek_next_raw_def q found get_current_def cur split: prod.splits)
qed

lemma copy_all:
  assumes "tbl_ok src"
  shows "copy_cursor_to_table m (cursor_new m) src dst = Some (fold (\<lambda>(k, v). db_write k v) src dst)"
proof (cases src)
  case Nil
  then have "\<not> fst (mdbx_next m (mdbx_open m) src)" using next_open [OF assms] by (simp add: moved_to_def)
  then show ?thesis
    using Nil by (subst copy_cursor_to_table.simps) (auto simp: seek_next_raw_def cursor_new_def split: prod.splits)
next
  case (Cons e ys)
  obtain q where q: "mdbx_next m (mdbx_open m) src = (True, q)" and cur: "mdbx_current m q src = Some e"
    using next_open [OF assms] Cons by (cases "mdbx_next m (mdbx_open m) src") (auto simp: moved_to_def)
  obtain k v where e: "e = (k, v)" by fastforce
  have src: "src = [] @ e # ys" using Cons by simp
  have "copy_cursor_to_table m \<lparr>cur_pos = q, key_prefix = None\<rparr> src dst' =
      Some (fold (\<lambda>(k, v). db_write k v) ys dst')" for dst'
    using copy_from [OF assms src, of "\<lparr>cur_pos = q, key_prefix = None\<rparr>"] cur by simp
  then have "copy_cursor_to_table m (cursor_new m) src dst =
      Some (fold (\<lambda>(k, v). db_write k v) (e # ys) dst)"
    by (subst copy_cursor_to_table.simps)
      (simp add: seek_next_raw_def cursor_new_def q get_current_def cur e)
  then show ?thesis using Cons by simp
qed

end

interpretation ordered_bytes: byte_cursor "ordered_mdbx wraps" for wraps ..

lemma db_read_fold_write:
  "tbl_ok es \<Longrightarrow> db_read k (fold (\<lambda>(k, v). db_write k v) es t) =
     (case db_read k es of Some v \<Rightarrow> Some v | None \<Rightarrow> db_read k t)"
proof (induction es arbitrary: t)
  case Nil
  then show ?case by simp
next
  case (Cons e es)
  have "db_read (fst e) es = None" using Cons.prems by (auto simp: tbl_ok_Cons db_read_None)
  then show ?case
    using Cons by (cases e) (auto simp: tbl_ok_Cons split: option.splits)
qed

lemma tbl_ok_fold_write: "tbl_ok t \<Longrightarrow> tbl_ok (fold (\<lambda>(k, v). db_write k v) es t)"
  by (induction es arbitrary: t) (auto split: prod.splits)

section \<open>Properties\<close>

text \<open>
  C25. Scanning a table with a cursor visits exactly the right entries, in key order: with a key
  prefix exactly the entries whose key starts with it, wherever the engine's seek ends up, and
  without one every entry. Copying a table through a fresh cursor into an empty table gives the
  same table.
\<close>

theorem cursor_scan_exact:
  fixes m :: "('p, 'a::linorder list, 'v) mdbx"
  assumes "mdbx_cursor m" and "tbl_ok t"
  shows "iter_collect m t (cursor_into_iter m (with_key_prefix p (cursor_new m)) t) =
           Some (filter (\<lambda>e. prefix p (fst e)) t) \<and>
         iter_collect m t (cursor_into_iter m (cursor_new m) t) = Some t \<and>
         copy_cursor_to_table m (cursor_new m) t [] = Some t"
proof -
  have m: "byte_cursor m" using assms(1) by (simp add: byte_cursor_def)
  have "fold (\<lambda>(k, v). db_write k v) t [] = t"
    by (rule table_eqI [OF tbl_ok_fold_write [OF tbl_ok_Nil] assms(2)])
      (simp add: db_read_fold_write [OF assms(2)] split: option.splits)
  then show ?thesis
    using byte_cursor.collect_prefix [OF m assms(2)] byte_cursor.collect_all [OF m assms(2)]
      byte_cursor.copy_all [OF m assms(2)] by simp
qed

definition example_mdbx :: "(string position, string, nat) mdbx" where
  "example_mdbx = ordered_mdbx True"

definition example_table :: "(string, nat) table" where
  "example_table = [(''a:1'', 10), (''b:1'', 20), (''b:2'', 30), (''c:1'', 40)]"

theorem cursor_scan_exact_witness:
  "mdbx_cursor example_mdbx \<and> tbl_ok example_table \<and>
   iter_collect example_mdbx example_table
     (cursor_into_iter example_mdbx (with_key_prefix ''b:'' (cursor_new example_mdbx)) example_table) =
     Some [(''b:1'', 20), (''b:2'', 30)]"
proof -
  have m: "mdbx_cursor example_mdbx" by (simp add: example_mdbx_def ordered.mdbx_cursor_axioms)
  have t: "tbl_ok example_table" by (simp add: example_table_def tbl_ok_Cons less_char_def)
  have "filter (\<lambda>e. prefix ''b:'' (fst e)) example_table = [(''b:1'', 20), (''b:2'', 30)]"
    by (simp add: example_table_def)
  then show ?thesis using cursor_scan_exact [OF m t, of "''b:''"] m t by simp
qed

end
