(* ===== verification/Account_Storage.thy ===== *)
theory Account_Storage
  imports Matching_Engine Task_Queue Storage_Table "HOL-Library.Product_Lexorder"
begin

text \<open>
  The account index of \<open>state/src/storage/tx/account_index.rs\<close> with the matching pools,
  order authorizations, validity proofs and Merkle paths stored beside it
  (\<open>matching_pools.rs\<close>, \<open>order_auth.rs\<close>, \<open>proofs.rs\<close>, \<open>merkle_proofs.rs\<close>).

  A family of keys of a table is one field of the record. Families that the code scans are
  ordered tables, in the order of their keys; a scan with the prefix of an account visits the
  entries of that account. Families that are only read and written by key are maps. Proofs,
  witnesses and Merkle paths are opaque to the state. Failures of the storage engine and of
  (de)serialization are not modelled, so that most operations cannot fail.
\<close>

section \<open>Types\<close>

type_synonym b256 = "256 word"

record account_header =
  header_id :: account_id
  header_keychain :: keychain

text \<open>The order of the location names in the keys of balances.\<close>

instantiation balance_location :: linorder
begin

definition less_eq_balance_location :: "balance_location \<Rightarrow> balance_location \<Rightarrow> bool" where
  "less_eq_balance_location a b \<longleftrightarrow> a = Darkpool \<or> b = EOA"

definition less_balance_location :: "balance_location \<Rightarrow> balance_location \<Rightarrow> bool" where
  "less_balance_location a b \<longleftrightarrow> a = Darkpool \<and> b = EOA"

instance
  by standard (auto simp: less_eq_balance_location_def less_balance_location_def intro: balance_location.exhaust)

end

datatype validity_proof_locator = IntentLocator order_id | BalanceLocator account_id address

datatype validity_proof_bundle =
    IntentOnlyFirstFill opaque opaque
  | IntentOnly opaque opaque
  | IntentAndBalanceFirstFill opaque opaque
  | IntentAndBalance opaque opaque
  | NewOutputBalance opaque opaque
  | OutputBalance opaque opaque

datatype merkle_proof_type = IntentPath order_id | BalancePath account_id address

record account_db =
  adb_headers :: "(account_id, account_header) table"
  adb_orders :: "(account_id \<times> order_id, order) table"
  adb_balances :: "(account_id \<times> balance_location \<times> address, balance) table"
  adb_order_index :: "order_id \<rightharpoonup> account_id"
  adb_owner_index :: "(address, account_id) table"
  adb_intent_index :: "b256 \<rightharpoonup> account_id \<times> order_id"
  adb_default_pool :: "account_id \<rightharpoonup> matching_pool_name"
  adb_pool_exists :: "matching_pool_name \<rightharpoonup> bool"
  adb_pool_of :: "(order_id, matching_pool_name) table"
  adb_order_auth :: "order_id \<rightharpoonup> order_auth"
  adb_proofs :: "string \<times> validity_proof_locator \<rightharpoonup> opaque"
  adb_merkle_proofs :: "merkle_proof_type \<rightharpoonup> opaque"
  adb_executor :: "string option"

definition GLOBAL_MATCHING_POOL :: matching_pool_name where
  "GLOBAL_MATCHING_POOL = ''global''"

definition MATCHING_POOL_EXISTS_ERR :: string where
  "MATCHING_POOL_EXISTS_ERR = ''matching pool already exists''"

definition MATCHING_POOL_DOES_NOT_EXIST_ERR :: string where
  "MATCHING_POOL_DOES_NOT_EXIST_ERR = ''matching pool does not exist''"

section \<open>Matching pools\<close>

definition get_matching_pool_for_order :: "order_id \<Rightarrow> account_db \<Rightarrow> matching_pool_name" where
  "get_matching_pool_for_order oid db = unwrap_or GLOBAL_MATCHING_POOL (db_read oid (adb_pool_of db))"

definition matching_pool_exists :: "matching_pool_name \<Rightarrow> account_db \<Rightarrow> bool" where
  "matching_pool_exists pool db =
     (if pool = GLOBAL_MATCHING_POOL then True else adb_pool_exists db pool \<noteq> None)"

definition matching_pool_is_empty :: "matching_pool_name \<Rightarrow> account_db \<Rightarrow> bool" where
  "matching_pool_is_empty pool db = (\<not> list_ex (\<lambda>e. snd e = pool) (adb_pool_of db))"

definition create_matching_pool :: "matching_pool_name \<Rightarrow> account_db \<Rightarrow> storage_error + account_db" where
  "create_matching_pool pool db =
     (if matching_pool_exists pool db then Inl (Rejected MATCHING_POOL_EXISTS_ERR)
      else Inr (db\<lparr>adb_pool_exists := (adb_pool_exists db)(pool \<mapsto> True)\<rparr>))"

definition destroy_matching_pool :: "matching_pool_name \<Rightarrow> account_db \<Rightarrow> account_db" where
  "destroy_matching_pool pool db =
     (let db = fold (\<lambda>(oid, p) db. if p = pool then db\<lparr>adb_pool_of := db_delete oid (adb_pool_of db)\<rparr> else db)
                 (adb_pool_of db) db
      in db\<lparr>adb_pool_exists := (adb_pool_exists db)(pool := None)\<rparr>)"

definition remove_order_from_matching_pool :: "order_id \<Rightarrow> account_db \<Rightarrow> account_db" where
  "remove_order_from_matching_pool oid db = db\<lparr>adb_pool_of := db_delete oid (adb_pool_of db)\<rparr>"

definition assign_order_to_matching_pool ::
    "order_id \<Rightarrow> matching_pool_name \<Rightarrow> account_db \<Rightarrow> storage_error + account_db" where
  "assign_order_to_matching_pool oid pool db =
     (if \<not> matching_pool_exists pool db then Inl (Rejected MATCHING_POOL_DOES_NOT_EXIST_ERR)
      else if pool = GLOBAL_MATCHING_POOL then Inr (remove_order_from_matching_pool oid db)
      else Inr (db\<lparr>adb_pool_of := db_write oid pool (adb_pool_of db)\<rparr>))"

section \<open>Order authorizations\<close>

definition get_order_auth :: "order_id \<Rightarrow> account_db \<Rightarrow> order_auth option" where
  "get_order_auth oid db = adb_order_auth db oid"

definition contains_order_auth :: "order_id \<Rightarrow> account_db \<Rightarrow> bool" where
  "contains_order_auth oid db = (adb_order_auth db oid \<noteq> None)"

definition write_order_auth :: "order_id \<Rightarrow> order_auth \<Rightarrow> account_db \<Rightarrow> account_db" where
  "write_order_auth oid auth db = db\<lparr>adb_order_auth := (adb_order_auth db)(oid \<mapsto> auth)\<rparr>"

definition delete_order_auth :: "order_id \<Rightarrow> account_db \<Rightarrow> account_db" where
  "delete_order_auth oid db = db\<lparr>adb_order_auth := (adb_order_auth db)(oid := None)\<rparr>"

section \<open>Validity proofs and Merkle paths\<close>

fun proof_type_key :: "validity_proof_bundle \<Rightarrow> string" where
  "proof_type_key (IntentOnlyFirstFill _ _) = ''intent-only-first-fill''"
| "proof_type_key (IntentOnly _ _) = ''intent-only''"
| "proof_type_key (IntentAndBalanceFirstFill _ _) = ''intent-and-balance-first-fill''"
| "proof_type_key (IntentAndBalance _ _) = ''intent-and-balance''"
| "proof_type_key (NewOutputBalance _ _) = ''new-output-balance''"
| "proof_type_key (OutputBalance _ _) = ''output-balance''"

fun witness_type_key :: "validity_proof_bundle \<Rightarrow> string" where
  "witness_type_key (IntentOnlyFirstFill _ _) = ''intent-only-first-fill-witness''"
| "witness_type_key (IntentOnly _ _) = ''intent-only-witness''"
| "witness_type_key (IntentAndBalanceFirstFill _ _) = ''intent-and-balance-first-fill-witness''"
| "witness_type_key (IntentAndBalance _ _) = ''intent-and-balance-witness''"
| "witness_type_key (NewOutputBalance _ _) = ''new-output-balance-witness''"
| "witness_type_key (OutputBalance _ _) = ''output-balance-witness''"

definition ALL_VALIDITY_PROOF_KEYS :: "string list" where
  "ALL_VALIDITY_PROOF_KEYS =
     [''intent-only-first-fill'', ''intent-only'', ''intent-and-balance-first-fill'',
      ''intent-and-balance'', ''new-output-balance'', ''output-balance'']"

definition OUTPUT_BALANCE_VALIDITY_PROOF_KEYS :: "string list" where
  "OUTPUT_BALANCE_VALIDITY_PROOF_KEYS = [''new-output-balance'', ''output-balance'']"

definition ALL_VALIDITY_WITNESS_KEYS :: "string list" where
  "ALL_VALIDITY_WITNESS_KEYS =
     [''intent-only-first-fill-witness'', ''intent-only-witness'', ''intent-and-balance-first-fill-witness'',
      ''intent-and-balance-witness'', ''new-output-balance-witness'', ''output-balance-witness'']"

text \<open>The key of an entry is the name of its type and its locator.\<close>

definition get_validity_proof :: "string \<Rightarrow> validity_proof_locator \<Rightarrow> account_db \<Rightarrow> opaque option" where
  "get_validity_proof type_key locator db = adb_proofs db (type_key, locator)"

definition has_output_balance_validity_proof :: "validity_proof_locator \<Rightarrow> account_db \<Rightarrow> bool" where
  "has_output_balance_validity_proof locator db =
     list_ex (\<lambda>key. adb_proofs db (key, locator) \<noteq> None) OUTPUT_BALANCE_VALIDITY_PROOF_KEYS"

definition write_validity_proof ::
    "string \<Rightarrow> validity_proof_locator \<Rightarrow> opaque \<Rightarrow> account_db \<Rightarrow> account_db" where
  "write_validity_proof type_key locator p db = db\<lparr>adb_proofs := (adb_proofs db)((type_key, locator) \<mapsto> p)\<rparr>"

fun bundle_proof :: "validity_proof_bundle \<Rightarrow> opaque" where
  "bundle_proof (IntentOnlyFirstFill p _) = p"
| "bundle_proof (IntentOnly p _) = p"
| "bundle_proof (IntentAndBalanceFirstFill p _) = p"
| "bundle_proof (IntentAndBalance p _) = p"
| "bundle_proof (NewOutputBalance p _) = p"
| "bundle_proof (OutputBalance p _) = p"

fun bundle_witness :: "validity_proof_bundle \<Rightarrow> opaque" where
  "bundle_witness (IntentOnlyFirstFill _ w) = w"
| "bundle_witness (IntentOnly _ w) = w"
| "bundle_witness (IntentAndBalanceFirstFill _ w) = w"
| "bundle_witness (IntentAndBalance _ w) = w"
| "bundle_witness (NewOutputBalance _ w) = w"
| "bundle_witness (OutputBalance _ w) = w"

definition write_validity_proof_bundle ::
    "validity_proof_locator \<Rightarrow> validity_proof_bundle \<Rightarrow> account_db \<Rightarrow> account_db" where
  "write_validity_proof_bundle locator b db =
     write_validity_proof (witness_type_key b) locator (bundle_witness b)
       (write_validity_proof (proof_type_key b) locator (bundle_proof b) db)"

definition delete_validity_proof :: "string \<Rightarrow> validity_proof_locator \<Rightarrow> account_db \<Rightarrow> account_db" where
  "delete_validity_proof type_key locator db = db\<lparr>adb_proofs := (adb_proofs db)((type_key, locator) := None)\<rparr>"

definition delete_all_validity_proofs :: "validity_proof_locator \<Rightarrow> account_db \<Rightarrow> account_db" where
  "delete_all_validity_proofs locator db =
     fold (\<lambda>key. delete_validity_proof key locator) ALL_VALIDITY_WITNESS_KEYS
       (fold (\<lambda>key. delete_validity_proof key locator) ALL_VALIDITY_PROOF_KEYS db)"

definition get_merkle_proof :: "merkle_proof_type \<Rightarrow> account_db \<Rightarrow> opaque option" where
  "get_merkle_proof pt db = adb_merkle_proofs db pt"

definition set_merkle_proof :: "merkle_proof_type \<Rightarrow> opaque \<Rightarrow> account_db \<Rightarrow> account_db" where
  "set_merkle_proof pt path db = db\<lparr>adb_merkle_proofs := (adb_merkle_proofs db)(pt \<mapsto> path)\<rparr>"

section \<open>The account index: queries\<close>

text \<open>A scan over the keys with the prefix of an account.\<close>

definition account_entries :: "account_id \<Rightarrow> (account_id \<times> 'k, 'v) table \<Rightarrow> 'v list" where
  "account_entries aid t = map snd (filter (\<lambda>e. fst (fst e) = aid) t)"

definition get_account_header :: "account_id \<Rightarrow> account_db \<Rightarrow> account_header option" where
  "get_account_header aid db = db_read aid (adb_headers db)"

definition contains_account :: "account_id \<Rightarrow> account_db \<Rightarrow> bool" where
  "contains_account aid db = (get_account_header aid db \<noteq> None)"

definition get_account_default_matching_pool :: "account_id \<Rightarrow> account_db \<Rightarrow> matching_pool_name option" where
  "get_account_default_matching_pool aid db = adb_default_pool db aid"

definition get_account_id_for_order :: "order_id \<Rightarrow> account_db \<Rightarrow> account_id option" where
  "get_account_id_for_order oid db = adb_order_index db oid"

definition tx_get_order :: "order_id \<Rightarrow> account_db \<Rightarrow> order option" where
  "tx_get_order oid db =
     (case get_account_id_for_order oid db of
        None \<Rightarrow> None
      | Some aid \<Rightarrow> db_read (aid, oid) (adb_orders db))"

definition tx_get_balance :: "account_id \<Rightarrow> address \<Rightarrow> balance_location \<Rightarrow> account_db \<Rightarrow> balance option" where
  "tx_get_balance aid token loc db = db_read (aid, loc, token) (adb_balances db)"

definition has_darkpool_balance :: "account_id \<Rightarrow> address \<Rightarrow> account_db \<Rightarrow> bool" where
  "has_darkpool_balance aid m db = (tx_get_balance aid m Darkpool db \<noteq> None)"

definition get_order_matchable_amount :: "order_id \<Rightarrow> account_db \<Rightarrow> amount option" where
  "get_order_matchable_amount oid db =
     (case get_account_id_for_order oid db of
        None \<Rightarrow> None
      | Some aid \<Rightarrow>
          (case tx_get_order oid db of
             None \<Rightarrow> None
           | Some o' \<Rightarrow>
               (case tx_get_balance aid (order_input_token o') (ring_balance_location (ring o')) db of
                  None \<Rightarrow> Some 0
                | Some b \<Rightarrow> Some (min (balance_amount b) (order_amount_in o')))))"

definition get_orders_with_input_token :: "account_id \<Rightarrow> address \<Rightarrow> account_db \<Rightarrow> order_id list" where
  "get_orders_with_input_token aid m db =
     map order_uuid (filter (\<lambda>o'. order_input_token o' = m) (account_entries aid (adb_orders db)))"

definition get_orders_with_output_token :: "account_id \<Rightarrow> address \<Rightarrow> account_db \<Rightarrow> order_id list" where
  "get_orders_with_output_token aid m db =
     map order_uuid (filter (\<lambda>o'. order_output_token o' = m) (account_entries aid (adb_orders db)))"

definition fetch_orders_for_account :: "account_id \<Rightarrow> account_db \<Rightarrow> order list" where
  "fetch_orders_for_account aid db = account_entries aid (adb_orders db)"

definition fetch_balances_for_account :: "account_id \<Rightarrow> account_db \<Rightarrow> balance list" where
  "fetch_balances_for_account aid db = account_entries aid (adb_balances db)"

definition get_account :: "account_id \<Rightarrow> account_db \<Rightarrow> account option" where
  "get_account aid db =
     (case get_account_header aid db of
        None \<Rightarrow> None
      | Some h \<Rightarrow>
          (let os = fetch_orders_for_account aid db;
               bs = fetch_balances_for_account aid db
           in Some ((account_new (header_id h) os bs (header_keychain h))
                \<lparr>default_matching_pool := get_account_default_matching_pool aid db\<rparr>)))"

definition get_all_account_ids :: "account_db \<Rightarrow> account_id list" where
  "get_all_account_ids db = map (header_id \<circ> snd) (adb_headers db)"

definition get_all_accounts :: "account_db \<Rightarrow> account list" where
  "get_all_accounts db = List.map_filter (\<lambda>aid. get_account aid db) (get_all_account_ids db)"

definition get_account_orders :: "account_id \<Rightarrow> account_db \<Rightarrow> order list" where
  "get_account_orders aid db = fetch_orders_for_account aid db"

definition get_account_balances :: "account_id \<Rightarrow> account_db \<Rightarrow> balance list" where
  "get_account_balances aid db = fetch_balances_for_account aid db"

definition get_account_by_owner :: "address \<Rightarrow> account_db \<Rightarrow> account_id option" where
  "get_account_by_owner own db = db_read own (adb_owner_index db)"

definition get_all_owner_index_entries :: "account_db \<Rightarrow> (address \<times> account_id) list" where
  "get_all_owner_index_entries db = adb_owner_index db"

definition get_order_by_intent_hash :: "b256 \<Rightarrow> account_db \<Rightarrow> (account_id \<times> order_id) option" where
  "get_order_by_intent_hash h db = adb_intent_index db h"

section \<open>The account index: updates\<close>

definition new_account :: "account \<Rightarrow> account_db \<Rightarrow> account_db" where
  "new_account acct db =
     db\<lparr>adb_headers := db_write (account_uuid acct)
          \<lparr>header_id = account_uuid acct, header_keychain = account_keychain acct\<rparr> (adb_headers db)\<rparr>"

definition tx_add_order :: "account_id \<Rightarrow> order \<Rightarrow> account_db \<Rightarrow> account_db" where
  "tx_add_order aid o' db =
     db\<lparr>adb_orders := db_write (aid, order_uuid o') o' (adb_orders db),
        adb_order_index := (adb_order_index db)(order_uuid o' \<mapsto> aid)\<rparr>"

definition tx_update_order :: "account_id \<Rightarrow> order \<Rightarrow> account_db \<Rightarrow> account_db" where
  "tx_update_order aid o' db = db\<lparr>adb_orders := db_write (aid, order_uuid o') o' (adb_orders db)\<rparr>"

definition update_balance :: "account_id \<Rightarrow> balance \<Rightarrow> account_db \<Rightarrow> account_db" where
  "update_balance aid b db =
     db\<lparr>adb_balances := db_write (aid, location b, balance_mint b) b (adb_balances db)\<rparr>"

definition update_keychain :: "account_id \<Rightarrow> keychain \<Rightarrow> account_db \<Rightarrow> account_db" where
  "update_keychain aid k db =
     db\<lparr>adb_headers := db_write aid \<lparr>header_id = aid, header_keychain = k\<rparr> (adb_headers db)\<rparr>"

definition set_account_default_matching_pool ::
    "account_id \<Rightarrow> matching_pool_name option \<Rightarrow> account_db \<Rightarrow> account_db" where
  "set_account_default_matching_pool aid pool db = db\<lparr>adb_default_pool := (adb_default_pool db)(aid := pool)\<rparr>"

definition tx_remove_order :: "account_id \<Rightarrow> order_id \<Rightarrow> account_db \<Rightarrow> account_db" where
  "tx_remove_order aid oid db =
     db\<lparr>adb_orders := db_delete (aid, oid) (adb_orders db),
        adb_order_index := (adb_order_index db)(oid := None)\<rparr>"

definition remove_order_with_auth :: "account_id \<Rightarrow> order_id \<Rightarrow> account_db \<Rightarrow> account_db" where
  "remove_order_with_auth aid oid db =
     remove_order_from_matching_pool oid (delete_order_auth oid (tx_remove_order aid oid db))"

definition set_owner_to_account :: "address \<Rightarrow> account_id \<Rightarrow> account_db \<Rightarrow> account_db" where
  "set_owner_to_account own aid db = db\<lparr>adb_owner_index := db_write own aid (adb_owner_index db)\<rparr>"

definition remove_owner_mapping :: "address \<Rightarrow> account_db \<Rightarrow> account_db" where
  "remove_owner_mapping own db = db\<lparr>adb_owner_index := db_delete own (adb_owner_index db)\<rparr>"

definition set_intent_to_order_and_account :: "b256 \<Rightarrow> account_id \<Rightarrow> order_id \<Rightarrow> account_db \<Rightarrow> account_db" where
  "set_intent_to_order_and_account h aid oid db =
     db\<lparr>adb_intent_index := (adb_intent_index db)(h \<mapsto> (aid, oid))\<rparr>"

definition remove_intent_mapping :: "b256 \<Rightarrow> account_db \<Rightarrow> account_db" where
  "remove_intent_mapping h db = db\<lparr>adb_intent_index := (adb_intent_index db)(h := None)\<rparr>"

section \<open>Consistency\<close>

text \<open>
  Every entry is stored under its own key; the order index lists exactly the stored orders,
  each under its account, which exists; an order has an authorization exactly when it is
  stored; and an order is assigned only to a pool that exists and is not the global one.
\<close>

definition account_db_ok :: "account_db \<Rightarrow> bool" where
  "account_db_ok db \<longleftrightarrow>
     tbl_ok (adb_headers db) \<and> tbl_ok (adb_orders db) \<and> tbl_ok (adb_balances db) \<and>
     tbl_ok (adb_owner_index db) \<and> tbl_ok (adb_pool_of db) \<and>
     (\<forall>aid h. db_read aid (adb_headers db) = Some h \<longrightarrow> header_id h = aid) \<and>
     (\<forall>aid oid o'. db_read (aid, oid) (adb_orders db) = Some o' \<longrightarrow>
        order_uuid o' = oid \<and> adb_order_index db oid = Some aid) \<and>
     (\<forall>oid aid. adb_order_index db oid = Some aid \<longrightarrow>
        db_read (aid, oid) (adb_orders db) \<noteq> None \<and> contains_account aid db) \<and>
     (\<forall>aid loc token b. db_read (aid, loc, token) (adb_balances db) = Some b \<longrightarrow>
        location b = loc \<and> balance_mint b = token) \<and>
     (\<forall>oid pool. db_read oid (adb_pool_of db) = Some pool \<longrightarrow>
        pool \<noteq> GLOBAL_MATCHING_POOL \<and> adb_pool_exists db pool \<noteq> None \<and> adb_order_index db oid \<noteq> None) \<and>
     (\<forall>oid. adb_order_auth db oid \<noteq> None \<longleftrightarrow> adb_order_index db oid \<noteq> None)"

definition account_db_new :: account_db where
  "account_db_new =
     \<lparr>adb_headers = [], adb_orders = [], adb_balances = [], adb_order_index = Map.empty,
      adb_owner_index = [], adb_intent_index = Map.empty, adb_default_pool = Map.empty,
      adb_pool_exists = Map.empty, adb_pool_of = [], adb_order_auth = Map.empty,
      adb_proofs = Map.empty, adb_merkle_proofs = Map.empty, adb_executor = None\<rparr>"

named_theorems tx_defs \<open>operations of the account index\<close>

lemmas [tx_defs] =
  get_matching_pool_for_order_def remove_order_from_matching_pool_def
  write_order_auth_def delete_order_auth_def
  get_account_header_def contains_account_def get_account_id_for_order_def tx_get_order_def
  tx_get_balance_def new_account_def tx_add_order_def tx_update_order_def update_balance_def
  update_keychain_def set_account_default_matching_pool_def tx_remove_order_def
  remove_order_with_auth_def set_owner_to_account_def remove_owner_mapping_def
  set_intent_to_order_and_account_def remove_intent_mapping_def

lemma account_db_ok_new: "account_db_ok account_db_new"
  by (simp add: account_db_ok_def account_db_new_def)

lemma fold_delete:
  "fold (\<lambda>(k, v) t. if v = x then db_delete k t else t) es t =
     filter (\<lambda>e. \<forall>e' \<in> set es. snd e' = x \<longrightarrow> fst e' \<noteq> fst e) t"
proof (induction es arbitrary: t)
  case Nil
  then show ?case by simp
next
  case (Cons e es)
  show ?case by (cases e) (auto simp: Cons db_delete_def conj_commute intro!: filter_cong)
qed

lemma destroy_pool_of:
  assumes "tbl_ok (adb_pool_of db)"
  shows "destroy_matching_pool pool db =
    db\<lparr>adb_pool_of := filter (\<lambda>e. snd e \<noteq> pool) (adb_pool_of db),
       adb_pool_exists := (adb_pool_exists db)(pool := None)\<rparr>"
proof -
  have loop: "fold (\<lambda>(oid, p) db. if p = pool then db\<lparr>adb_pool_of := db_delete oid (adb_pool_of db)\<rparr> else db) es db =
      db\<lparr>adb_pool_of := fold (\<lambda>(k, v) t. if v = pool then db_delete k t else t) es (adb_pool_of db)\<rparr>"
    for es and db :: account_db
    by (induction es arbitrary: db) auto
  have "(\<forall>e' \<in> set (adb_pool_of db). snd e' = pool \<longrightarrow> fst e' \<noteq> fst e) \<longleftrightarrow> snd e \<noteq> pool"
    if "e \<in> set (adb_pool_of db)" for e
    using that db_read_iff [OF assms] by (metis option.inject prod.collapse)
  then have "filter (\<lambda>e. \<forall>e' \<in> set (adb_pool_of db). snd e' = pool \<longrightarrow> fst e' \<noteq> fst e) (adb_pool_of db) =
      filter (\<lambda>e. snd e \<noteq> pool) (adb_pool_of db)"
    by (intro filter_cong) auto
  then show ?thesis by (simp add: destroy_matching_pool_def loop fold_delete)
qed

lemma db_read_filter:
  "tbl_ok t \<Longrightarrow> db_read k (filter P t) = (case db_read k t of Some v \<Rightarrow> if P (k, v) then Some v else None | None \<Rightarrow> None)"
  by (induction t) (auto simp: tbl_ok_Cons db_read_None split: option.splits)

lemma account_entries_iff:
  "tbl_ok t \<Longrightarrow> v \<in> set (account_entries aid t) \<longleftrightarrow> (\<exists>k. db_read (aid, k) t = Some v)"
  by (force simp: account_entries_def db_read_iff)

text \<open>What the account holds of the token an order sells, up to the order's amount.\<close>

definition stored_matchable :: "account_id \<Rightarrow> account_db \<Rightarrow> order \<Rightarrow> amount" where
  "stored_matchable aid db o' =
     min (unwrap_or 0 (map_option balance_amount
            (tx_get_balance aid (order_input_token o') (ring_balance_location (ring o')) db)))
         (order_amount_in o')"

lemma matchable_amount_eq:
  "get_order_matchable_amount oid db =
     (case adb_order_index db oid of
        None \<Rightarrow> None
      | Some aid \<Rightarrow> map_option (stored_matchable aid db) (db_read (aid, oid) (adb_orders db)))"
  by (auto simp: get_order_matchable_amount_def stored_matchable_def get_account_id_for_order_def
      tx_get_order_def split: option.splits)

section \<open>Preservation\<close>

lemma account_okD:
  assumes "account_db_ok db"
  shows "tbl_ok (adb_headers db)" "tbl_ok (adb_orders db)" "tbl_ok (adb_balances db)"
    "tbl_ok (adb_owner_index db)" "tbl_ok (adb_pool_of db)"
    "\<And>aid h. db_read aid (adb_headers db) = Some h \<Longrightarrow> header_id h = aid"
    "\<And>aid oid o'. db_read (aid, oid) (adb_orders db) = Some o' \<Longrightarrow>
       order_uuid o' = oid \<and> adb_order_index db oid = Some aid"
    "\<And>oid aid. adb_order_index db oid = Some aid \<Longrightarrow>
       db_read (aid, oid) (adb_orders db) \<noteq> None \<and> contains_account aid db"
    "\<And>aid loc token b. db_read (aid, loc, token) (adb_balances db) = Some b \<Longrightarrow>
       location b = loc \<and> balance_mint b = token"
    "\<And>oid pool. db_read oid (adb_pool_of db) = Some pool \<Longrightarrow>
       pool \<noteq> GLOBAL_MATCHING_POOL \<and> adb_pool_exists db pool \<noteq> None \<and> adb_order_index db oid \<noteq> None"
    "\<And>oid. adb_order_auth db oid \<noteq> None \<longleftrightarrow> adb_order_index db oid \<noteq> None"
  using assms unfolding account_db_ok_def by blast+

lemma account_okI:
  assumes "tbl_ok (adb_headers db)" "tbl_ok (adb_orders db)" "tbl_ok (adb_balances db)"
    "tbl_ok (adb_owner_index db)" "tbl_ok (adb_pool_of db)"
    "\<And>aid h. db_read aid (adb_headers db) = Some h \<Longrightarrow> header_id h = aid"
    "\<And>aid oid o'. db_read (aid, oid) (adb_orders db) = Some o' \<Longrightarrow>
       order_uuid o' = oid \<and> adb_order_index db oid = Some aid"
    "\<And>oid aid. adb_order_index db oid = Some aid \<Longrightarrow>
       db_read (aid, oid) (adb_orders db) \<noteq> None \<and> contains_account aid db"
    "\<And>aid loc token b. db_read (aid, loc, token) (adb_balances db) = Some b \<Longrightarrow>
       location b = loc \<and> balance_mint b = token"
    "\<And>oid pool. db_read oid (adb_pool_of db) = Some pool \<Longrightarrow>
       pool \<noteq> GLOBAL_MATCHING_POOL \<and> adb_pool_exists db pool \<noteq> None \<and> adb_order_index db oid \<noteq> None"
    "\<And>oid. adb_order_auth db oid \<noteq> None \<longleftrightarrow> adb_order_index db oid \<noteq> None"
  shows "account_db_ok db"
  using assms unfolding account_db_ok_def by blast

lemma account_ok_new_account:
  assumes "account_db_ok db"
  shows "account_db_ok (new_account acct db)"
proof -
  note ok = account_okD [OF assms]
  show ?thesis
    by (rule account_okI) (use ok in \<open>auto simp: tx_defs split: if_splits\<close>)
qed

lemma account_ok_update_keychain:
  assumes "account_db_ok db"
  shows "account_db_ok (update_keychain aid k db)"
proof -
  note ok = account_okD [OF assms]
  show ?thesis
    by (rule account_okI) (use ok in \<open>auto simp: tx_defs split: if_splits\<close>)
qed

lemma account_ok_update_balance:
  assumes "account_db_ok db"
  shows "account_db_ok (update_balance aid b db)"
proof -
  note ok = account_okD [OF assms]
  show ?thesis
    by (rule account_okI) (use ok in \<open>auto simp: tx_defs split: if_splits\<close>)
qed

text \<open>Adding an order that is new, or replacing one of the same account.\<close>

lemma account_ok_store_order:
  assumes "account_db_ok db" and "contains_account aid db"
    and "adb_order_index db (order_uuid o') = None \<or> adb_order_index db (order_uuid o') = Some aid"
  shows "account_db_ok (write_order_auth (order_uuid o') auth (tx_add_order aid o' db))"
proof -
  note ok = account_okD [OF assms(1)]
  show ?thesis
  proof (rule account_okI)
    fix a oid x
    let ?db = "write_order_auth (order_uuid o') auth (tx_add_order aid o' db)"
    assume "db_read (a, oid) (adb_orders ?db) = Some x"
    then show "order_uuid x = oid \<and> adb_order_index ?db oid = Some a"
      using ok(7) [of a oid x] assms(3) by (auto simp: tx_defs split: if_splits)
  qed (use ok assms(2) in \<open>auto simp: tx_defs split: if_splits\<close>)
qed

lemma tx_update_as_add:
  "adb_order_index db (order_uuid o') = Some aid \<Longrightarrow> tx_update_order aid o' db = tx_add_order aid o' db"
  by (simp add: tx_defs fun_upd_idem)

lemma account_ok_update_order:
  assumes "account_db_ok db" and "adb_order_index db (order_uuid o') = Some aid"
  shows "account_db_ok (tx_update_order aid o' db)"
proof -
  note ok = account_okD [OF assms(1)]
  obtain auth where auth: "adb_order_auth db (order_uuid o') = Some auth" using ok(11) assms(2) by auto
  have "contains_account aid db" using ok(8) [OF assms(2)] by simp
  then have "account_db_ok (write_order_auth (order_uuid o') auth (tx_add_order aid o' db))"
    using account_ok_store_order [OF assms(1)] assms(2) by blast
  moreover have "write_order_auth (order_uuid o') auth (tx_add_order aid o' db) = tx_update_order aid o' db"
    using auth by (simp add: tx_update_as_add [OF assms(2)]) (simp add: tx_defs fun_upd_idem)
  ultimately show ?thesis by simp
qed

lemma account_ok_assign:
  assumes "account_db_ok db" and "assign_order_to_matching_pool oid pool db = Inr db'"
    and "adb_order_index db oid \<noteq> None"
  shows "account_db_ok db'" and "get_matching_pool_for_order oid' db' =
    (if oid' = oid then pool else get_matching_pool_for_order oid' db)"
    and "db' = db\<lparr>adb_pool_of := adb_pool_of db'\<rparr>"
proof -
  note ok = account_okD [OF assms(1)]
  have db': "matching_pool_exists pool db" "db' = db\<lparr>adb_pool_of :=
      (if pool = GLOBAL_MATCHING_POOL then db_delete oid (adb_pool_of db) else db_write oid pool (adb_pool_of db))\<rparr>"
    using assms(2) by (auto simp: assign_order_to_matching_pool_def tx_defs split: if_splits)
  show "get_matching_pool_for_order oid' db' = (if oid' = oid then pool else get_matching_pool_for_order oid' db)"
    by (simp add: db'(2) tx_defs)
  show "db' = db\<lparr>adb_pool_of := adb_pool_of db'\<rparr>" by (simp add: db'(2))
  show "account_db_ok db'"
    by (rule account_okI) (use ok assms(3) db'(1) in
      \<open>auto simp: db'(2) contains_account_def get_account_header_def matching_pool_exists_def split: if_splits\<close>)
qed

lemma account_ok_remove_order:
  assumes "account_db_ok db" and "adb_order_index db oid = Some aid"
  shows "account_db_ok (remove_order_with_auth aid oid db)"
proof -
  note ok = account_okD [OF assms(1)]
  show ?thesis
  proof (rule account_okI)
    fix a oid' x
    let ?db = "remove_order_with_auth aid oid db"
    assume "db_read (a, oid') (adb_orders ?db) = Some x"
    then show "order_uuid x = oid' \<and> adb_order_index ?db oid' = Some a"
      using ok(7) [of a oid' x] assms(2) by (auto simp: tx_defs split: if_splits)
  qed (use ok in \<open>auto simp: tx_defs split: if_splits\<close>)
qed

lemma account_ok_create_pool:
  assumes "account_db_ok db" and "create_matching_pool pool db = Inr db'"
  shows "account_db_ok db'"
proof -
  have "db' = db\<lparr>adb_pool_exists := (adb_pool_exists db)(pool \<mapsto> True)\<rparr>"
    using assms(2) by (auto simp: create_matching_pool_def split: if_splits)
  then show ?thesis
    using assms(1) by (simp add: account_db_ok_def contains_account_def get_account_header_def) blast
qed

lemma account_ok_destroy_pool:
  assumes "account_db_ok db"
  shows "account_db_ok (destroy_matching_pool pool db)"
proof -
  note ok = account_okD [OF assms]
  show ?thesis
    unfolding destroy_pool_of [OF ok(5)]
    by (rule account_okI) (use ok in
      \<open>auto simp: db_read_filter contains_account_def get_account_header_def split: option.splits if_splits\<close>)
qed

text \<open>The remaining operations do not touch what the invariant is about.\<close>

lemma account_ok_simps [simp]:
  assumes "account_db_ok db"
  shows "account_db_ok (set_intent_to_order_and_account h aid oid db)"
    and "account_db_ok (remove_intent_mapping h db)"
    and "account_db_ok (set_owner_to_account own aid db)"
    and "account_db_ok (remove_owner_mapping own db)"
    and "account_db_ok (set_account_default_matching_pool aid p db)"
    and "account_db_ok (db\<lparr>adb_proofs := pr\<rparr>)"
    and "account_db_ok (set_merkle_proof pt path db)"
  using assms by (simp_all add: account_db_ok_def tx_defs set_merkle_proof_def)

section \<open>The account a database holds\<close>

lemma fold_orders_lookup:
  "fold (\<lambda>o' m. m(order_uuid o' \<mapsto> o')) os m oid =
     (case find (\<lambda>o'. order_uuid o' = oid) (rev os) of Some o' \<Rightarrow> Some o' | None \<Rightarrow> m oid)"
  by (induction os rule: rev_induct) auto

lemma fold_balances_lookup:
  "Option.bind (fold insert_balance bs m token) (\<lambda>f. f loc) =
     (case find (\<lambda>b. balance_mint b = token \<and> location b = loc) (rev bs) of
        Some b \<Rightarrow> Some b
      | None \<Rightarrow> Option.bind (m token) (\<lambda>f. f loc))"
  by (induction bs rule: rev_induct) (auto simp: insert_balance_def unwrap_or_def split: option.splits)

lemma find_SomeD: "find P xs = Some x \<Longrightarrow> x \<in> set xs \<and> P x"
  by (induction xs) (auto split: if_splits)

lemma find_unique:
  assumes "\<And>x. x \<in> set xs \<Longrightarrow> P x \<Longrightarrow> x = y"
  shows "find P xs = (if y \<in> set xs \<and> P y then Some y else None)"
proof (cases "find P xs")
  case None
  then show ?thesis by (auto simp: find_None_iff)
next
  case (Some x)
  then show ?thesis using assms find_SomeD [OF Some] by auto
qed

section \<open>Properties\<close>

text \<open>
  C26. The normalized storage holds the whole account. For an existing account the account put
  together from the header and the two scans has exactly the orders that the order index gives
  to it and exactly its balances, and the matchable amount read from storage is the one computed
  on the account: the smaller of the order's amount and the balance that backs it.
\<close>

theorem account_reconstructed:
  assumes "account_db_ok db" and "contains_account aid db"
  shows "\<exists>acct. get_account aid db = Some acct \<and> account_uuid acct = aid \<and>
     (\<forall>oid. orders acct oid = (if get_account_id_for_order oid db = Some aid then tx_get_order oid db else None)) \<and>
     (\<forall>m l. get_balance acct m l = tx_get_balance aid m l db) \<and>
     (\<forall>oid o'. orders acct oid = Some o' \<longrightarrow>
        get_order_matchable_amount oid db = Some (get_matchable_amount_for_order acct o'))"
proof -
  note ok = account_okD [OF assms(1)]
  obtain h where h: "get_account_header aid db = Some h" using assms(2) by (auto simp: contains_account_def)
  let ?os = "account_entries aid (adb_orders db)" and ?bs = "account_entries aid (adb_balances db)"
  obtain acct where acct: "get_account aid db = Some acct"
    "orders acct = fold (\<lambda>o' m. m(order_uuid o' \<mapsto> o')) ?os Map.empty"
    "balances acct = fold insert_balance ?bs Map.empty" "account_uuid acct = header_id h"
    by (simp add: get_account_def h fetch_orders_for_account_def fetch_balances_for_account_def account_new_def)
  have os: "o' \<in> set ?os \<longleftrightarrow> db_read (aid, order_uuid o') (adb_orders db) = Some o'" for o'
    using ok(7) by (auto simp: account_entries_iff [OF ok(2)])
  have orders: "orders acct oid = (if get_account_id_for_order oid db = Some aid then tx_get_order oid db else None)" for oid
  proof (cases "db_read (aid, oid) (adb_orders db)")
    case None
    have "find (\<lambda>o'. order_uuid o' = oid) (rev ?os) = None" using None os by (auto simp: find_None_iff)
    then show ?thesis using None ok(8) [of oid aid] by (auto simp: acct(2) fold_orders_lookup tx_defs)
  next
    case (Some o')
    have "find (\<lambda>o'. order_uuid o' = oid) (rev ?os) = Some o'"
      using find_unique [of "rev ?os" "\<lambda>o'. order_uuid o' = oid" o'] Some os ok(7) [OF Some] by auto
    then show ?thesis using Some ok(7) [OF Some] by (simp add: acct(2) fold_orders_lookup tx_defs)
  qed
  have bs: "b \<in> set ?bs \<longleftrightarrow> db_read (aid, location b, balance_mint b) (adb_balances db) = Some b" for b
    using ok(9) by (auto simp: account_entries_iff [OF ok(3)])
  have bal: "get_balance acct m l = tx_get_balance aid m l db" for m l
  proof (cases "db_read (aid, l, m) (adb_balances db)")
    case None
    have "find (\<lambda>b. balance_mint b = m \<and> location b = l) (rev ?bs) = None" using None bs by (auto simp: find_None_iff)
    then show ?thesis using None by (simp add: get_balance_def acct(3) fold_balances_lookup tx_get_balance_def)
  next
    case (Some b)
    have "find (\<lambda>b. balance_mint b = m \<and> location b = l) (rev ?bs) = Some b"
      using find_unique [of "rev ?bs" "\<lambda>b. balance_mint b = m \<and> location b = l" b] Some bs ok(9) [OF Some] by auto
    then show ?thesis using Some by (simp add: get_balance_def acct(3) fold_balances_lookup tx_get_balance_def)
  qed
  have "get_order_matchable_amount oid db = Some (get_matchable_amount_for_order acct o')"
    if "orders acct oid = Some o'" for oid o'
    using that orders [of oid]
    by (auto simp: matchable_amount_eq stored_matchable_def get_matchable_amount_for_order_def Let_def bal
        get_account_id_for_order_def tx_get_order_def order_amount_in_def split: if_splits)
  moreover have "account_uuid acct = aid" using h ok(6) acct(4) by (simp add: get_account_header_def)
  ultimately show ?thesis using acct(1) orders bal by blast
qed

text \<open>Account 11 with one order for 100 units and an EOA balance of 30 that backs it.\<close>

definition example_account_db :: account_db where
  "example_account_db =
     write_order_auth 21 (NativelySettledPrivateOrder [])
       (tx_add_order 11 example_order
         (update_balance 11 (new_eoa (example_balance 30))
           (new_account example_account account_db_new)))"

lemma example_order_fields:
  "order_uuid example_order = 21" "order_input_token example_order = 1" "order_amount_in example_order = 100"
  "ring example_order = Ring0" "balance_mint (new_eoa (example_balance a)) = 1"
  "balance_amount (new_eoa (example_balance a)) = a" "location (new_eoa w) = EOA" "account_uuid example_account = 11"
  by (simp_all add: example_order_def order_new_with_ring_def order_input_token_def order_amount_in_def
      balance_mint_def balance_amount_def new_eoa_def balance_new_def example_account_def account_new_def example_defs)

lemma example_account_db_ok: "account_db_ok example_account_db" "contains_account 11 example_account_db"
proof -
  let ?db = "update_balance 11 (new_eoa (example_balance 30)) (new_account example_account account_db_new)"
  have ok: "account_db_ok ?db"
    by (intro account_ok_update_balance account_ok_new_account account_db_ok_new)
  have c: "contains_account 11 ?db" by (simp add: tx_defs example_order_fields)
  have "adb_order_index ?db (order_uuid example_order) = None" by (simp add: tx_defs account_db_new_def)
  then show "account_db_ok example_account_db"
    using account_ok_store_order [OF ok c, of example_order]
    by (simp add: example_account_db_def example_order_fields)
  show "contains_account 11 example_account_db"
    using c by (simp add: example_account_db_def tx_defs)
qed

theorem account_reconstructed_witness:
  "account_db_ok example_account_db \<and> contains_account 11 example_account_db \<and>
   (\<exists>acct. get_account 11 example_account_db = Some acct \<and> orders acct 21 = Some example_order \<and>
      get_matchable_amount_for_order acct example_order = 30)"
proof -
  have "get_account_id_for_order 21 example_account_db = Some 11" "tx_get_order 21 example_account_db = Some example_order"
    "get_order_matchable_amount 21 example_account_db = Some 30"
    by (simp_all add: example_account_db_def matchable_amount_eq stored_matchable_def tx_defs example_order_fields
        account_db_new_def)
  then show ?thesis
    using account_reconstructed [OF example_account_db_ok] example_account_db_ok by auto
qed

end
