(* ===== verification/Account_Applicator.thy ===== *)
theory Account_Applicator
  imports Account_Storage Applicator_Types
begin

text \<open>
  The state transitions on accounts, orders, balances, matching pools and proofs:
  \<open>state/src/applicator/account_index.rs\<close>, \<open>matching_pools.rs\<close>, \<open>order_book.rs\<close>
  and \<open>merkle_proofs.rs\<close>. The state is the account database, the matching engine that
  caches what is matchable, and the messages published on the system bus, in order. A
  transition returns the new state or an error; an error leaves the state as it was.

  The permit of a public order, its hash and the address of the stored executor key are
  computed by third party code: they are the fields of the argument \<open>ps\<close>.
\<close>

section \<open>State\<close>

datatype order_update_type = OrderCreated | OrderUpdated | OrderCancelled

datatype bus_message =
    AdminOrderUpdate account_id order matching_pool_name order_update_type amount
  | AdminBalanceUpdate account_id balance
  | FillMessage account_id order amount bool
  | OwnerIndexChanged address bool

record acct_state =
  acct_db :: account_db
  acct_engine :: matching_engine
  acct_bus :: "bus_message list"

record permit_scheme =
  permit_of :: "intent \<Rightarrow> address \<Rightarrow> opaque"
  permit_hash :: "opaque \<Rightarrow> b256"
  signer_address :: "string \<Rightarrow> string + address"

definition EXECUTOR_KEY :: string where
  "EXECUTOR_KEY = ''executor-key''"

definition ERR_ACCOUNT_NOT_FOUND :: string where
  "ERR_ACCOUNT_NOT_FOUND = ''account not found''"

definition REMOVE_CONSUMED_ORDERS :: bool where
  "REMOVE_CONSUMED_ORDERS = True"

definition reject_order_missing :: "(uuid \<Rightarrow> string) \<Rightarrow> order_id \<Rightarrow> applicator_error" where
  "reject_order_missing show_id oid = AppRejected (''order '' @ show_id oid @ '' not found in state'')"

definition get_executor_key :: "permit_scheme \<Rightarrow> account_db \<Rightarrow> storage_error + address" where
  "get_executor_key ps db =
     and_then (ok_or (err_not_found EXECUTOR_KEY) (adb_executor db)) (\<lambda>hex.
       map_err Other (signer_address ps hex))"

definition publish :: "bus_message \<Rightarrow> acct_state \<Rightarrow> acct_state" where
  "publish msg s = s\<lparr>acct_bus := acct_bus s @ [msg]\<rparr>"

definition publish_admin_order_update ::
    "account_id \<Rightarrow> order \<Rightarrow> matching_pool_name \<Rightarrow> order_update_type \<Rightarrow> amount \<Rightarrow> acct_state \<Rightarrow> acct_state" where
  "publish_admin_order_update aid o' pool ty a s = publish (AdminOrderUpdate aid o' pool ty a) s"

definition publish_admin_balance_update :: "account_id \<Rightarrow> balance \<Rightarrow> acct_state \<Rightarrow> acct_state" where
  "publish_admin_balance_update aid b s = publish (AdminBalanceUpdate aid b) s"

definition publish_fill :: "account_id \<Rightarrow> order \<Rightarrow> amount \<Rightarrow> bool \<Rightarrow> acct_state \<Rightarrow> acct_state" where
  "publish_fill aid o' a filled s = publish (FillMessage aid o' a filled) s"

definition publish_owner_index_changed :: "address \<Rightarrow> bool \<Rightarrow> acct_state \<Rightarrow> acct_state" where
  "publish_owner_index_changed own added s = publish (OwnerIndexChanged own added) s"

section \<open>The matching engine cache\<close>

text \<open>An order that can be matched is booked with its matchable amount, any other is cancelled.\<close>

definition sync_order ::
    "account_id \<Rightarrow> order \<Rightarrow> amount \<Rightarrow> matching_pool_name \<Rightarrow> matching_engine \<Rightarrow> matching_engine" where
  "sync_order aid o' a pool e = (if 0 < a then upsert_order aid o' a pool e else cancel_order o' pool e)"

definition update_matchable_amount :: "account_id \<Rightarrow> account_db \<Rightarrow> order_id \<Rightarrow> matching_engine \<Rightarrow> matching_engine" where
  "update_matchable_amount aid db oid e =
     (case tx_get_order oid db of
        None \<Rightarrow> e
      | Some o' \<Rightarrow>
          sync_order aid o' (unwrap_or 0 (get_order_matchable_amount oid db))
            (get_matching_pool_for_order oid db) e)"

definition update_matchable_amounts :: "account_id \<Rightarrow> balance \<Rightarrow> account_db \<Rightarrow> matching_engine \<Rightarrow> matching_engine" where
  "update_matchable_amounts aid b db e =
     fold (update_matchable_amount aid db) (get_orders_with_input_token aid (balance_mint b) db) e"

section \<open>Account transitions\<close>

definition app_create_account :: "account \<Rightarrow> acct_state \<Rightarrow> applicator_error + acct_state" where
  "app_create_account acct s =
     (if orders acct \<noteq> Map.empty \<or> balances acct \<noteq> Map.empty
      then Inl (AppRejected ''cannot create a non-empty account'')
      else Inr (s\<lparr>acct_db := new_account acct (acct_db s)\<rparr>))"

definition app_add_order_to_account ::
    "permit_scheme \<Rightarrow> account_id \<Rightarrow> order \<Rightarrow> order_auth \<Rightarrow> matching_pool_name \<Rightarrow> acct_state \<Rightarrow>
     applicator_error + acct_state" where
  "app_add_order_to_account ps aid o' auth pool s =
     (let oid = order_uuid o'; db = acct_db s in
      if \<not> contains_account aid db then Inl (AppRejected ERR_ACCOUNT_NOT_FOUND)
      else if \<not> matching_pool_exists pool db then Inl (AppRejected MATCHING_POOL_DOES_NOT_EXIST_ERR)
      else
        and_then (map_err from_storage_error
                    (assign_order_to_matching_pool oid pool (write_order_auth oid auth (tx_add_order aid o' db)))) (\<lambda>db.
        let db = (case auth of
                    PublicOrder p _ \<Rightarrow> set_intent_to_order_and_account (permit_hash ps p) aid oid db
                  | _ \<Rightarrow> db);
            own = owner (inner (order_intent o'));
            is_new_entry = (get_account_by_owner own db = None);
            db = set_owner_to_account own aid db;
            a = unwrap_or 0 (get_order_matchable_amount oid db);
            s = s\<lparr>acct_db := db\<rparr>;
            s = (if is_new_entry then publish_owner_index_changed own True s else s);
            s = (if 0 < a then s\<lparr>acct_engine := upsert_order aid o' a pool (acct_engine s)\<rparr> else s)
        in Inr (publish_admin_order_update aid o' pool OrderCreated a s)))"

definition app_remove_order_from_account ::
    "permit_scheme \<Rightarrow> (uuid \<Rightarrow> string) \<Rightarrow> account_id \<Rightarrow> order_id \<Rightarrow> acct_state \<Rightarrow> applicator_error + acct_state" where
  "app_remove_order_from_account ps show_id aid oid s =
     (let db = acct_db s in
      if \<not> contains_account aid db then Inl (AppRejected ERR_ACCOUNT_NOT_FOUND)
      else
        and_then (ok_or (AppRejected (''order '' @ show_id oid @ '' not found'')) (tx_get_order oid db)) (\<lambda>o'.
        let pool = get_matching_pool_for_order oid db in
        and_then (map_err from_storage_error (get_executor_key ps db)) (\<lambda>executor.
        let h = permit_hash ps (permit_of ps (inner (order_intent o')) executor);
            db = remove_intent_mapping h db;
            db = remove_order_with_auth aid oid db;
            db = delete_all_validity_proofs (IntentLocator oid) db;
            own = owner (inner (order_intent o'));
            should_remove_owner = (get_account_orders aid db = []);
            db = (if should_remove_owner then remove_owner_mapping own db else db);
            s = s\<lparr>acct_db := db\<rparr>;
            s = (if should_remove_owner then publish_owner_index_changed own False s else s);
            s = s\<lparr>acct_engine := cancel_order o' pool (acct_engine s)\<rparr>
        in Inr (publish_admin_order_update aid o' pool OrderCancelled 0 s))))"

text \<open>
  An update to amount zero publishes the fill and then removes the order. An error carries no
  state, so when that removal fails (with no executor key to build the permit from, for one)
  the fill event, which is out by then, is not part of the result.
\<close>

definition app_update_order ::
    "permit_scheme \<Rightarrow> (uuid \<Rightarrow> string) \<Rightarrow> order \<Rightarrow> acct_state \<Rightarrow> applicator_error + acct_state" where
  "app_update_order ps show_id o' s =
     (let oid = order_uuid o'; db = acct_db s in
      and_then (ok_or (AppRejected (''order '' @ show_id oid @ '' not found'')) (tx_get_order oid db)) (\<lambda>old_order.
      and_then (ok_or (AppRejected ''order not associated with account'') (get_account_id_for_order oid db)) (\<lambda>aid.
      let old_amount = order_amount_in old_order;
          new_amount = order_amount_in o'
      in if REMOVE_CONSUMED_ORDERS \<and> new_amount = 0
         then app_remove_order_from_account ps show_id aid oid
                (if new_amount < old_amount then publish_fill aid o' (old_amount - new_amount) True s else s)
         else
           (let db = tx_update_order aid o' db;
                pool = get_matching_pool_for_order oid db;
                a = unwrap_or 0 (get_order_matchable_amount oid db);
                s = s\<lparr>acct_db := db, acct_engine := sync_order aid o' a pool (acct_engine s)\<rparr>;
                s = publish_admin_order_update aid o' pool OrderUpdated a s
            in Inr (if new_amount < old_amount
                    then publish_fill aid o' (old_amount - new_amount) (new_amount = 0) s
                    else s)))))"

definition app_update_account_balance ::
    "account_id \<Rightarrow> balance \<Rightarrow> acct_state \<Rightarrow> applicator_error + acct_state" where
  "app_update_account_balance aid b s =
     (if \<not> contains_account aid (acct_db s) then Inl (AppRejected ERR_ACCOUNT_NOT_FOUND)
      else
        (let db = update_balance aid b (acct_db s);
             s = s\<lparr>acct_db := db, acct_engine := update_matchable_amounts aid b db (acct_engine s)\<rparr>
         in Inr (publish_admin_balance_update aid b s)))"

definition app_update_account_keychain ::
    "account_id \<Rightarrow> keychain \<Rightarrow> acct_state \<Rightarrow> applicator_error + acct_state" where
  "app_update_account_keychain aid k s =
     (if \<not> contains_account aid (acct_db s) then Inl (AppRejected ERR_ACCOUNT_NOT_FOUND)
      else Inr (s\<lparr>acct_db := update_keychain aid k (acct_db s)\<rparr>))"

section \<open>Refreshing an account\<close>

text \<open>
  A filled ring 0 order never grows: what a lagging indexer reports above the stored amount is
  taken off again.
\<close>

definition refresh_clamp :: "order option \<Rightarrow> order \<Rightarrow> order" where
  "refresh_clamp stored o' =
     (case stored of
        None \<Rightarrow> o'
      | Some st \<Rightarrow>
          if ring o' = Ring0 \<and> has_been_filled (metadata st) \<and> order_amount_in st < order_amount_in o'
          then snd (decrement_amount_in (order_amount_in o' - order_amount_in st) o')
          else o')"

text \<open>The stored orders the refresh does not name are removed; they keep their old pool for the engine.\<close>

definition remove_stale_order ::
    "account_id \<Rightarrow> order_id set \<Rightarrow> order \<Rightarrow> account_db \<times> (order \<times> matching_pool_name) list \<Rightarrow>
     account_db \<times> (order \<times> matching_pool_name) list" where
  "remove_stale_order aid keep o' st =
     (let (db, stale) = st in
      if order_uuid o' \<in> keep then (db, stale)
      else (remove_order_with_auth aid (order_uuid o') db,
            stale @ [(o', get_matching_pool_for_order (order_uuid o') db)]))"

record refresh_acc =
  ref_db :: account_db
  ref_orders :: "(order \<times> matching_pool_name) list"
  ref_updates :: "(order \<times> matching_pool_name \<times> order_update_type \<times> amount) list"

definition refresh_one ::
    "account_id \<Rightarrow> order_refresh_data \<Rightarrow> refresh_acc \<Rightarrow> applicator_error + refresh_acc" where
  "refresh_one aid r acc =
     (let db = ref_db acc; pool = refresh_pool r in
      if \<not> matching_pool_exists pool db then Inl (AppRejected MATCHING_POOL_DOES_NOT_EXIST_ERR)
      else
        (let stored = tx_get_order (order_uuid (refresh_order r)) db;
             order_exists = (stored \<noteq> None);
             o' = refresh_clamp stored (refresh_order r);
             db = write_order_auth (order_uuid o') (refresh_auth r) db;
             db = (if order_exists then tx_update_order aid o' db else tx_add_order aid o' db)
         in and_then (map_err from_storage_error (assign_order_to_matching_pool (order_uuid o') pool db)) (\<lambda>db.
              let a = unwrap_or 0 (get_order_matchable_amount (order_uuid o') db);
                  ty = (if order_exists then OrderUpdated else OrderCreated)
              in Inr \<lparr>ref_db = db, ref_orders = ref_orders acc @ [(o', pool)],
                      ref_updates = ref_updates acc @ [(o', pool, ty, a)]\<rparr>)))"

definition cancel_stale :: "account_id \<Rightarrow> order \<times> matching_pool_name \<Rightarrow> acct_state \<Rightarrow> acct_state" where
  "cancel_stale aid st s =
     (let (o', pool) = st;
          s = s\<lparr>acct_engine := cancel_order o' pool (acct_engine s)\<rparr>
      in publish_admin_order_update aid o' pool OrderCancelled 0 s)"

definition sync_refreshed :: "account_id \<Rightarrow> order \<times> matching_pool_name \<Rightarrow> acct_state \<Rightarrow> acct_state" where
  "sync_refreshed aid st s =
     (let (o', pool) = st;
          a = unwrap_or 0 (get_order_matchable_amount (order_uuid o') (acct_db s))
      in s\<lparr>acct_engine := sync_order aid o' a pool (acct_engine s)\<rparr>)"

definition app_refresh_account ::
    "account_id \<Rightarrow> order_refresh_data list \<Rightarrow> balance list \<Rightarrow> acct_state \<Rightarrow> applicator_error + acct_state" where
  "app_refresh_account aid rs bs s =
     (if \<not> contains_account aid (acct_db s) then Inl (AppRejected ERR_ACCOUNT_NOT_FOUND)
      else
        (let db = fold (update_balance aid) bs (acct_db s);
             keep = set (map (order_uuid \<circ> refresh_order) rs);
             (db, stale) = fold (remove_stale_order aid keep) (get_account_orders aid db) (db, [])
         in and_then (try_fold (refresh_one aid) rs \<lparr>ref_db = db, ref_orders = [], ref_updates = []\<rparr>) (\<lambda>acc.
              let s = s\<lparr>acct_db := ref_db acc\<rparr>;
                  s = fold (publish_admin_balance_update aid) bs s;
                  s = fold (\<lambda>(o', pool, ty, a). publish_admin_order_update aid o' pool ty a) (ref_updates acc) s;
                  s = fold (cancel_stale aid) stale s
              in Inr (fold (sync_refreshed aid) (ref_orders acc) s))))"

section \<open>Matching pool and proof transitions\<close>

definition app_create_matching_pool :: "matching_pool_name \<Rightarrow> acct_state \<Rightarrow> applicator_error + acct_state" where
  "app_create_matching_pool pool s =
     and_then (map_err from_storage_error (create_matching_pool pool (acct_db s))) (\<lambda>db.
       Inr (s\<lparr>acct_db := db\<rparr>))"

definition app_destroy_matching_pool :: "matching_pool_name \<Rightarrow> acct_state \<Rightarrow> applicator_error + acct_state" where
  "app_destroy_matching_pool pool s =
     (if \<not> matching_pool_exists pool (acct_db s) then Inl (AppRejected MATCHING_POOL_DOES_NOT_EXIST_ERR)
      else Inr (s\<lparr>acct_db := destroy_matching_pool pool (acct_db s)\<rparr>))"

definition update_matching_engine_after_order_assignment ::
    "(uuid \<Rightarrow> string) \<Rightarrow> order_id \<Rightarrow> matching_pool_name \<Rightarrow> acct_state \<Rightarrow> applicator_error + acct_state" where
  "update_matching_engine_after_order_assignment show_id oid new_pool s =
     (let db = acct_db s; old_pool = get_matching_pool_for_order oid db in
      and_then (ok_or (reject_order_missing show_id oid) (tx_get_order oid db)) (\<lambda>o'.
      let a = unwrap_or 0 (get_order_matchable_amount oid db) in
      and_then (ok_or (AppRejected ''order not associated with account'') (get_account_id_for_order oid db)) (\<lambda>aid.
      let e = acct_engine s;
          e = (if engine_contains_order o' old_pool e then cancel_order o' old_pool e else e)
      in Inr (s\<lparr>acct_engine := engine_update_order aid o' a new_pool e\<rparr>))))"

definition app_assign_order_to_matching_pool ::
    "(uuid \<Rightarrow> string) \<Rightarrow> order_id \<Rightarrow> matching_pool_name \<Rightarrow> acct_state \<Rightarrow> applicator_error + acct_state" where
  "app_assign_order_to_matching_pool show_id oid new_pool s =
     (if \<not> matching_pool_exists new_pool (acct_db s) then Inl (AppRejected MATCHING_POOL_DOES_NOT_EXIST_ERR)
      else
        and_then (update_matching_engine_after_order_assignment show_id oid new_pool s) (\<lambda>s.
        and_then (map_err from_storage_error (assign_order_to_matching_pool oid new_pool (acct_db s))) (\<lambda>db.
          Inr (s\<lparr>acct_db := db\<rparr>))))"

definition app_set_account_default_matching_pool ::
    "account_id \<Rightarrow> matching_pool_name option \<Rightarrow> acct_state \<Rightarrow> applicator_error + acct_state" where
  "app_set_account_default_matching_pool aid pool s =
     (if \<not> contains_account aid (acct_db s) then Inl (AppRejected ERR_ACCOUNT_NOT_FOUND)
      else Inr (s\<lparr>acct_db := set_account_default_matching_pool aid pool (acct_db s)\<rparr>))"

definition app_add_validity_proof ::
    "validity_proof_locator \<Rightarrow> validity_proof_bundle \<Rightarrow> acct_state \<Rightarrow> applicator_error + acct_state" where
  "app_add_validity_proof locator b s =
     (if (case locator of IntentLocator oid \<Rightarrow> tx_get_order oid (acct_db s) = None | BalanceLocator _ _ \<Rightarrow> False)
      then Inr s
      else Inr (s\<lparr>acct_db := write_validity_proof_bundle locator b (acct_db s)\<rparr>))"

definition app_add_merkle_proof :: "merkle_proof_type \<Rightarrow> opaque \<Rightarrow> acct_state \<Rightarrow> applicator_error + acct_state" where
  "app_add_merkle_proof pt path s = Inr (s\<lparr>acct_db := set_merkle_proof pt path (acct_db s)\<rparr>)"

section \<open>The engine is a cache of the database\<close>

text \<open>
  What the engine books under a pair is a stored order of that pair, with the terms of the
  order and for no more than what the account's balance and the order's amount allow.
\<close>

definition entry_ok :: "account_db \<Rightarrow> pair \<Rightarrow> order_id \<Rightarrow> book_order \<Rightarrow> bool" where
  "entry_ok db p oid bo \<longleftrightarrow>
     (\<exists>aid o'. adb_order_index db oid = Some aid \<and> db_read (aid, oid) (adb_orders db) = Some o' \<and>
        order_pair o' = p \<and> bo = book_order_new aid o' (matchable_amount bo) \<and>
        matchable_amount bo \<le> stored_matchable aid db o')"

text \<open>
  While a transition brings the engine up to date, the orders in \<open>D\<close> are still to be
  handled; the pair of every booked order is known.
\<close>

definition booked :: "(order_id \<rightharpoonup> pair) \<Rightarrow> order_id set \<Rightarrow> account_db \<Rightarrow> matching_engine \<Rightarrow> bool" where
  "booked pr D db e \<longleftrightarrow>
     (\<forall>p oid bo. all_lookup e p oid = Some bo \<longrightarrow> pr oid = Some p \<and> (oid \<notin> D \<longrightarrow> entry_ok db p oid bo))"

definition pairs_of :: "account_db \<Rightarrow> order_id \<rightharpoonup> pair" where
  "pairs_of db oid = map_option order_pair (tx_get_order oid db)"

definition pools_of :: "account_db \<Rightarrow> order_id \<Rightarrow> matching_pool_name" where
  "pools_of db oid = get_matching_pool_for_order oid db"

definition acct_ok :: "acct_state \<Rightarrow> bool" where
  "acct_ok s \<longleftrightarrow> account_db_ok (acct_db s) \<and> engine_ok (pools_of (acct_db s)) (acct_engine s) \<and>
     booked (pairs_of (acct_db s)) {} (acct_db s) (acct_engine s)"

lemma entry_ok_pair: "entry_ok db p oid bo \<Longrightarrow> pairs_of db oid = Some p"
  by (auto simp: entry_ok_def pairs_of_def tx_get_order_def get_account_id_for_order_def)

lemma bookedD:
  "booked pr D db e \<Longrightarrow> all_lookup e p oid = Some bo \<Longrightarrow> pr oid = Some p"
  "booked pr D db e \<Longrightarrow> all_lookup e p oid = Some bo \<Longrightarrow> oid \<notin> D \<Longrightarrow> entry_ok db p oid bo"
  by (auto simp: booked_def)

lemma booked_all_ok:
  "booked pr {} db e \<longleftrightarrow>
     (\<forall>p oid bo. all_lookup e p oid = Some bo \<longrightarrow> pr oid = Some p \<and> entry_ok db p oid bo)"
  by (simp add: booked_def)

lemma booked_pairs: "booked pr {} db e \<Longrightarrow> booked (pairs_of db) {} db e"
  by (simp add: booked_def) (metis entry_ok_pair)

text \<open>One order is brought up to date.\<close>

lemma booked_updates_at:
  assumes "booked pr D db e" and "updates_at f p pool oid e e'" and "pr oid = Some p"
    and "\<And>bo. f (all_lookup e p oid) = Some bo \<Longrightarrow> entry_ok db p oid bo"
  shows "booked pr (D - {oid}) db e'"
  unfolding booked_def
proof (intro allI impI)
  fix p' oid' bo
  assume l: "all_lookup e' p' oid' = Some bo"
  show "pr oid' = Some p' \<and> (oid' \<notin> D - {oid} \<longrightarrow> entry_ok db p' oid' bo)"
  proof (cases "oid' = oid")
    case True
    have "p' = p"
    proof (rule ccontr)
      assume "p' \<noteq> p"
      then have "all_lookup e p' oid = Some bo" using l assms(2) True by (auto simp: updates_at_def)
      then show False using bookedD(1) [OF assms(1)] assms(3) \<open>p' \<noteq> p\<close> by auto
    qed
    then show ?thesis using l assms(2-4) True by (auto simp: updates_at_def)
  next
    case False
    then have "all_lookup e p' oid' = Some bo" using l assms(2) by (auto simp: updates_at_def)
    then show ?thesis using bookedD [OF assms(1)] False by auto
  qed
qed

lemma book_order_new_amount [simp]: "matchable_amount (book_order_new aid o' a) = a"
  by (simp add: book_order_new_def)

lemma sync_order_ok:
  assumes "engine_ok pf e" and "booked pr D db e" and "pf (order_uuid o') = pool"
    and "adb_order_index db (order_uuid o') = Some aid" and "db_read (aid, order_uuid o') (adb_orders db) = Some o'"
    and "pr (order_uuid o') = Some (order_pair o')" and "a = stored_matchable aid db o'"
  shows "engine_ok pf (sync_order aid o' a pool e)" and "booked pr (D - {order_uuid o'}) db (sync_order aid o' a pool e)"
proof -
  show "engine_ok pf (sync_order aid o' a pool e)"
    using engine_ok_ops(1) [OF assms(1), of aid o' a] engine_ok_ops(2) [OF assms(1), of o'] assms(3)
    by (simp add: sync_order_def)
  have "entry_ok db (order_pair o') (order_uuid o') (book_order_new aid o' a)"
    using assms(4,5,7) by (auto simp: entry_ok_def)
  then show "booked pr (D - {order_uuid o'}) db (sync_order aid o' a pool e)"
    using booked_updates_at [OF assms(2) upsert_updates_at assms(6)]
      booked_updates_at [OF assms(2) cancel_updates_at assms(6)]
    by (simp add: sync_order_def)
qed

lemma cancel_order_ok:
  assumes "engine_ok pf e" and "booked pr D db e" and "pf (order_uuid o') = pool"
    and "pr (order_uuid o') = Some (order_pair o')"
  shows "engine_ok pf (cancel_order o' pool e)" and "booked pr (D - {order_uuid o'}) db (cancel_order o' pool e)"
    and "all_lookup (cancel_order o' pool e) p (order_uuid o') = None"
proof -
  show "engine_ok pf (cancel_order o' pool e)"
    using engine_ok_ops(2) [OF assms(1), of o'] assms(3) by simp
  show b: "booked pr (D - {order_uuid o'}) db (cancel_order o' pool e)"
    using booked_updates_at [OF assms(2) cancel_updates_at assms(4)] by simp
  show "all_lookup (cancel_order o' pool e) p (order_uuid o') = None"
    using bookedD(1) [OF b, of p "order_uuid o'"] assms(4) cancel_updates_at [of o' pool e]
    by (cases "all_lookup (cancel_order o' pool e) p (order_uuid o')") (auto simp: updates_at_def)
qed

lemma engine_ok_cong:
  assumes "engine_ok pf e" and "\<And>p oid bo. all_lookup e p oid = Some bo \<Longrightarrow> pf' oid = pf oid"
  shows "engine_ok pf' e"
proof -
  have "pool_lookup e p pool oid = (if pool = pf' oid then all_lookup e p oid else None)" for p pool oid
    using assms by (cases "all_lookup e p oid") (auto simp: engine_ok_def views_agree_def)
  then show ?thesis using assms(1) by (simp add: engine_ok_def views_agree_def)
qed

text \<open>A change of the database that an entry does not notice keeps it in order.\<close>

lemma booked_db_mono:
  assumes "booked pr D db e"
    and "\<And>p oid bo. all_lookup e p oid = Some bo \<Longrightarrow> oid \<notin> D' \<Longrightarrow> oid \<notin> D \<and> (entry_ok db p oid bo \<longrightarrow> entry_ok db' p oid bo)"
    and "\<And>p oid bo. all_lookup e p oid = Some bo \<Longrightarrow> pr' oid = pr oid"
  shows "booked pr' D' db' e"
  using assms unfolding booked_def by metis

section \<open>Every transition keeps the cache correct\<close>

lemma acct_ok_publish [simp]:
  "acct_ok (publish msg s) = acct_ok s"
  "acct_ok (publish_admin_order_update aid o' pool ty a s) = acct_ok s"
  "acct_ok (publish_admin_balance_update aid b s) = acct_ok s"
  "acct_ok (publish_fill aid o' a f s) = acct_ok s"
  "acct_ok (publish_owner_index_changed own f s) = acct_ok s"
  by (simp_all add: acct_ok_def publish_def publish_admin_order_update_def publish_admin_balance_update_def
      publish_fill_def publish_owner_index_changed_def)

lemma publish_fields [simp]:
  "acct_db (publish msg s) = acct_db s" "acct_engine (publish msg s) = acct_engine s"
  by (simp_all add: publish_def)

lemma publish_update_fields [simp]:
  "acct_db (publish_admin_order_update aid o' pool ty a s) = acct_db s"
  "acct_db (publish_admin_balance_update aid b s) = acct_db s"
  "acct_db (publish_fill aid o' a f s) = acct_db s"
  "acct_db (publish_owner_index_changed own f s) = acct_db s"
  "acct_engine (publish_admin_order_update aid o' pool ty a s) = acct_engine s"
  "acct_engine (publish_admin_balance_update aid b s) = acct_engine s"
  "acct_engine (publish_fill aid o' a f s) = acct_engine s"
  "acct_engine (publish_owner_index_changed own f s) = acct_engine s"
  by (simp_all add: publish_admin_order_update_def publish_admin_balance_update_def
      publish_fill_def publish_owner_index_changed_def)

lemma acct_ok_alt:
  "account_db_ok (acct_db s) \<Longrightarrow> engine_ok (pools_of (acct_db s)) (acct_engine s) \<Longrightarrow>
   booked pr {} (acct_db s) (acct_engine s) \<Longrightarrow> acct_ok s"
  by (auto simp: acct_ok_def intro: booked_pairs)

lemma acct_okD:
  assumes "acct_ok s"
  shows "account_db_ok (acct_db s)" "engine_ok (pools_of (acct_db s)) (acct_engine s)"
    "booked (pairs_of (acct_db s)) {} (acct_db s) (acct_engine s)"
  using assms by (simp_all add: acct_ok_def)

lemma stored_matchable_cong:
  "(\<And>tok loc. db_read (aid, loc, tok) (adb_balances db') = db_read (aid, loc, tok) (adb_balances db)) \<Longrightarrow>
   stored_matchable aid db' o' = stored_matchable aid db o'"
  by (simp add: stored_matchable_def tx_get_balance_def)

text \<open>An entry depends only on the stored order and on the balances of its account.\<close>

lemma entry_ok_cong:
  assumes "adb_order_index db' oid = adb_order_index db oid"
    and "\<And>aid. adb_order_index db oid = Some aid \<Longrightarrow>
      db_read (aid, oid) (adb_orders db') = db_read (aid, oid) (adb_orders db) \<and>
      (\<forall>tok loc. db_read (aid, loc, tok) (adb_balances db') = db_read (aid, loc, tok) (adb_balances db))"
  shows "entry_ok db' p oid bo = entry_ok db p oid bo"
  unfolding entry_ok_def using assms stored_matchable_cong [of _ db' db] by metis

lemma booked_index:
  "booked pr {} db e \<Longrightarrow> all_lookup e p oid = Some bo \<Longrightarrow> adb_order_index db oid \<noteq> None"
  using bookedD(2) by (fastforce simp: entry_ok_def)

lemma acct_ok_other:
  assumes "acct_ok s" and "account_db_ok db'" and "adb_orders db' = adb_orders (acct_db s)"
    and "adb_order_index db' = adb_order_index (acct_db s)" and "adb_balances db' = adb_balances (acct_db s)"
    and "\<And>oid. pools_of db' oid = pools_of (acct_db s) oid"
  shows "acct_ok (s\<lparr>acct_db := db'\<rparr>)"
proof (rule acct_ok_alt)
  note ok = acct_okD [OF assms(1)]
  show "booked (pairs_of (acct_db s)) {} (acct_db (s\<lparr>acct_db := db'\<rparr>)) (acct_engine (s\<lparr>acct_db := db'\<rparr>))"
    using ok(3) entry_ok_cong [of db' _ "acct_db s"] assms(3-5) by (simp add: booked_def)
  have "pools_of db' = pools_of (acct_db s)" using assms(6) by blast
  then show "engine_ok (pools_of (acct_db (s\<lparr>acct_db := db'\<rparr>))) (acct_engine (s\<lparr>acct_db := db'\<rparr>))"
    using ok(2) by simp
qed (simp add: assms(2))

lemma matchable_stored:
  assumes "adb_order_index db oid = Some aid" and "db_read (aid, oid) (adb_orders db) = Some o'"
  shows "unwrap_or 0 (get_order_matchable_amount oid db) = stored_matchable aid db o'"
  using assms by (simp add: matchable_amount_eq)

lemma tx_get_order_iff:
  "tx_get_order oid db = Some o' \<longleftrightarrow>
     (\<exists>aid. adb_order_index db oid = Some aid \<and> db_read (aid, oid) (adb_orders db) = Some o')"
  by (auto simp: tx_get_order_def get_account_id_for_order_def split: option.splits)

lemma create_account_ok:
  assumes "acct_ok s" and "app_create_account acct s = Inr t"
  shows "acct_ok t"
  using acct_ok_other [OF assms(1) account_ok_new_account [OF acct_okD(1) [OF assms(1)]]] assms(2)
  by (auto simp: app_create_account_def pools_of_def new_account_def get_matching_pool_for_order_def split: if_splits)

lemma update_keychain_ok:
  assumes "acct_ok s" and "app_update_account_keychain aid k s = Inr t"
  shows "acct_ok t"
  using acct_ok_other [OF assms(1) account_ok_update_keychain [OF acct_okD(1) [OF assms(1)]]] assms(2)
  by (auto simp: app_update_account_keychain_def pools_of_def
      update_keychain_def get_matching_pool_for_order_def split: if_splits)

lemma default_pool_ok:
  assumes "acct_ok s" and "app_set_account_default_matching_pool aid p s = Inr t"
  shows "acct_ok t"
  using acct_ok_other [OF assms(1) account_ok_simps(5) [OF acct_okD(1) [OF assms(1)]]] assms(2)
  by (auto simp: app_set_account_default_matching_pool_def pools_of_def
      set_account_default_matching_pool_def get_matching_pool_for_order_def split: if_splits)

lemma create_pool_ok:
  assumes "acct_ok s" and "app_create_matching_pool pool s = Inr t"
  shows "acct_ok t"
proof -
  obtain db where db: "create_matching_pool pool (acct_db s) = Inr db" "t = s\<lparr>acct_db := db\<rparr>"
    using assms(2) by (auto simp: app_create_matching_pool_def res_simps)
  have "db = (acct_db s)\<lparr>adb_pool_exists := (adb_pool_exists (acct_db s))(pool \<mapsto> True)\<rparr>"
    using db(1) by (auto simp: create_matching_pool_def split: if_splits)
  then show ?thesis
    using acct_ok_other [OF assms(1) account_ok_create_pool [OF acct_okD(1) [OF assms(1)] db(1)]]
    by (simp add: db(2) pools_of_def get_matching_pool_for_order_def)
qed

lemma destroy_pool_ok:
  assumes "acct_ok s" and "app_destroy_matching_pool pool s = Inr t" and "matching_pool_is_empty pool (acct_db s)"
  shows "acct_ok t"
proof -
  note ok = acct_okD [OF assms(1)]
  have t: "t = s\<lparr>acct_db := destroy_matching_pool pool (acct_db s)\<rparr>"
    using assms(2) by (auto simp: app_destroy_matching_pool_def split: if_splits)
  have "filter (\<lambda>e. snd e \<noteq> pool) (adb_pool_of (acct_db s)) = adb_pool_of (acct_db s)"
    using assms(3) by (auto simp: matching_pool_is_empty_def list_ex_iff intro: filter_True)
  then have "destroy_matching_pool pool (acct_db s) =
      (acct_db s)\<lparr>adb_pool_exists := (adb_pool_exists (acct_db s))(pool := None)\<rparr>"
    by (simp add: destroy_pool_of account_okD(5) [OF ok(1)])
  then show ?thesis
    using acct_ok_other [OF assms(1) account_ok_destroy_pool [OF ok(1), of pool]]
    by (simp add: t pools_of_def get_matching_pool_for_order_def)
qed

lemma delete_proofs_db:
  "\<exists>pr. fold (\<lambda>key. delete_validity_proof key locator) ks db = db\<lparr>adb_proofs := pr\<rparr>"
proof (induction ks arbitrary: db)
  case Nil
  then show ?case by (intro exI [of _ "adb_proofs db"]) simp
next
  case (Cons k ks)
  obtain pr where "fold (\<lambda>key. delete_validity_proof key locator) ks (delete_validity_proof k locator db) =
      (delete_validity_proof k locator db)\<lparr>adb_proofs := pr\<rparr>" using Cons by blast
  then show ?case by (auto simp: delete_validity_proof_def [of k])
qed

lemma delete_all_proofs_db: "\<exists>pr. delete_all_validity_proofs locator db = db\<lparr>adb_proofs := pr\<rparr>"
proof -
  obtain pr where pr: "fold (\<lambda>key. delete_validity_proof key locator) ALL_VALIDITY_PROOF_KEYS db = db\<lparr>adb_proofs := pr\<rparr>"
    using delete_proofs_db by blast
  obtain pr' where "fold (\<lambda>key. delete_validity_proof key locator) ALL_VALIDITY_WITNESS_KEYS (db\<lparr>adb_proofs := pr\<rparr>) =
      db\<lparr>adb_proofs := pr\<rparr>\<lparr>adb_proofs := pr'\<rparr>"
    using delete_proofs_db by blast
  then show ?thesis by (auto simp: delete_all_validity_proofs_def pr)
qed

lemma proof_ok:
  assumes "acct_ok s" and "app_add_validity_proof locator b s = Inr t"
  shows "acct_ok t"
proof -
  note ok = acct_okD [OF assms(1)]
  have "t = s \<or> t = s\<lparr>acct_db := write_validity_proof_bundle locator b (acct_db s)\<rparr>"
    using assms(2) by (auto simp: app_add_validity_proof_def split: if_splits)
  moreover have "acct_ok (s\<lparr>acct_db := write_validity_proof_bundle locator b (acct_db s)\<rparr>)"
    using ok(1) by (intro acct_ok_other [OF assms(1)])
      (simp_all add: write_validity_proof_bundle_def write_validity_proof_def pools_of_def get_matching_pool_for_order_def)
  ultimately show ?thesis using assms(1) by auto
qed

lemma merkle_ok:
  assumes "acct_ok s"
  shows "acct_ok (s\<lparr>acct_db := set_merkle_proof pt path (acct_db s)\<rparr>)"
  using acct_okD(1) [OF assms] by (intro acct_ok_other [OF assms])
    (simp_all add: pools_of_def get_matching_pool_for_order_def, simp_all add: set_merkle_proof_def)

lemma add_order_ok:
  assumes "acct_ok s" and "app_add_order_to_account ps aid o' auth pool s = Inr t"
    and "adb_order_index (acct_db s) (order_uuid o') = None"
  shows "acct_ok t"
proof -
  let ?db = "acct_db s" and ?oid = "order_uuid o'"
  note ok = acct_okD [OF assms(1)]
  let ?db1 = "write_order_auth ?oid auth (tx_add_order aid o' ?db)"
  have guards: "contains_account aid ?db" "matching_pool_exists pool ?db"
    using assms(2) by (auto simp: app_add_order_to_account_def Let_def split: if_splits)
  obtain db2 where db2: "assign_order_to_matching_pool ?oid pool ?db1 = Inr db2"
    using assms(2) guards by (auto simp: app_add_order_to_account_def Let_def res_simps)
  have ok1: "account_db_ok ?db1" by (rule account_ok_store_order [OF ok(1) guards(1)]) (simp add: assms(3))
  note assign = account_ok_assign [OF ok1 db2]
  have idx: "adb_order_index ?db1 ?oid \<noteq> None" by (simp add: tx_defs)
  have d2: "adb_orders db2 = adb_orders ?db1" "adb_order_index db2 = adb_order_index ?db1"
      "adb_balances db2 = adb_balances ?db"
    by (subst assign(3) [OF idx], simp add: tx_defs)+
  obtain db3 where db3: "db3 = set_owner_to_account (owner (inner (order_intent o'))) aid
      (case auth of PublicOrder p _ \<Rightarrow> set_intent_to_order_and_account (permit_hash ps p) aid ?oid db2 | _ \<Rightarrow> db2)"
    by simp
  have fields: "adb_orders db3 = adb_orders ?db1" "adb_order_index db3 = adb_order_index ?db1"
      "adb_balances db3 = adb_balances ?db" "adb_pool_of db3 = adb_pool_of db2"
    by (simp_all add: db3 d2 set_owner_to_account_def set_intent_to_order_and_account_def split: order_auth.splits)
  have ok3: "account_db_ok db3" using assign(1) [OF idx] by (simp add: db3 split: order_auth.splits)
  let ?a = "unwrap_or 0 (get_order_matchable_amount ?oid db3)"
  have t: "acct_db t = db3" "acct_engine t = (if 0 < ?a then upsert_order aid o' ?a pool (acct_engine s) else acct_engine s)"
    using assms(2) guards db2
    by (auto simp: app_add_order_to_account_def Let_def db3 split: order_auth.splits if_splits)
  have pools: "pools_of db3 oid = (if oid = ?oid then pool else pools_of ?db oid)" for oid
    using assign(2) [OF idx] fields(4) by (simp add: pools_of_def get_matching_pool_for_order_def tx_defs)
  have fresh: "all_lookup (acct_engine s) p ?oid = None" for p
    using booked_index [OF ok(3), of p ?oid] assms(3) by (cases "all_lookup (acct_engine s) p ?oid") auto
  have engine: "engine_ok (pools_of db3) (acct_engine s)"
    by (rule engine_ok_cong [OF ok(2)]) (use fresh pools in \<open>auto simp: if_split_eq1\<close>)
  have "booked ((pairs_of ?db)(?oid \<mapsto> order_pair o')) {} db3 (acct_engine s)"
  proof (rule booked_db_mono [OF ok(3)])
    fix p oid bo
    assume "all_lookup (acct_engine s) p oid = Some bo"
    then have "oid \<noteq> ?oid" using fresh by auto
    moreover have "entry_ok db3 p oid bo = entry_ok ?db p oid bo"
      using calculation by (intro entry_ok_cong) (simp_all add: fields tx_defs)
    ultimately show "oid \<notin> {} \<and> (entry_ok ?db p oid bo \<longrightarrow> entry_ok db3 p oid bo)"
      "((pairs_of ?db)(?oid \<mapsto> order_pair o')) oid = pairs_of ?db oid" by simp_all
  qed
  moreover have stored: "adb_order_index db3 ?oid = Some aid" "db_read (aid, ?oid) (adb_orders db3) = Some o'"
    by (simp_all add: fields tx_defs)
  ultimately have "engine_ok (pools_of db3) (sync_order aid o' ?a pool (acct_engine s))"
      "booked ((pairs_of ?db)(?oid \<mapsto> order_pair o')) {} db3 (sync_order aid o' ?a pool (acct_engine s))"
    using sync_order_ok [OF engine, of _ "{}" db3 o' pool aid] pools matchable_stored [OF stored] by auto
  then show ?thesis
    using acct_ok_alt [of t] ok3 t engine \<open>booked ((pairs_of ?db)(?oid \<mapsto> order_pair o')) {} db3 (acct_engine s)\<close>
    by (cases "0 < ?a") (auto simp: sync_order_def)
qed

text \<open>The database after the removal of an order.\<close>

lemma remove_order_fields:
  assumes "account_db_ok db" and "adb_order_index db oid = Some aid"
  shows "adb_order_index (remove_order_with_auth aid oid db) = (adb_order_index db)(oid := None)"
    and "db_read (a, oid') (adb_orders (remove_order_with_auth aid oid db)) =
      (if oid' = oid then None else db_read (a, oid') (adb_orders db))"
    and "adb_balances (remove_order_with_auth aid oid db) = adb_balances db"
    and "pools_of (remove_order_with_auth aid oid db) oid' =
      (if oid' = oid then GLOBAL_MATCHING_POOL else pools_of db oid')"
proof -
  have "db_read (a, oid) (adb_orders db) = None" if "a \<noteq> aid"
    using account_okD(7) [OF assms(1), of a oid] assms(2) that by (cases "db_read (a, oid) (adb_orders db)") auto
  then show "db_read (a, oid') (adb_orders (remove_order_with_auth aid oid db)) =
      (if oid' = oid then None else db_read (a, oid') (adb_orders db))"
    by (cases "a = aid") (auto simp: tx_defs)
qed (simp_all add: tx_defs pools_of_def)

lemma remove_order_ok:
  assumes "acct_ok s" and "app_remove_order_from_account ps show_id aid oid s = Inr t"
    and "adb_order_index (acct_db s) oid = Some aid"
  shows "acct_ok t"
proof -
  let ?db = "acct_db s"
  note ok = acct_okD [OF assms(1)]
  obtain o' executor where o': "tx_get_order oid ?db = Some o'" "get_executor_key ps ?db = Inr executor"
    using assms(2) by (auto simp: app_remove_order_from_account_def Let_def res_simps split: if_splits)
  let ?db1 = "remove_intent_mapping (permit_hash ps (permit_of ps (inner (order_intent o')) executor)) ?db"
  let ?db2 = "remove_order_with_auth aid oid ?db1"
  obtain pr where pr: "delete_all_validity_proofs (IntentLocator oid) ?db2 = ?db2\<lparr>adb_proofs := pr\<rparr>"
    using delete_all_proofs_db by blast
  have idx1: "adb_order_index ?db1 oid = Some aid" using assms(3) by (simp add: tx_defs)
  note rm = remove_order_fields [OF account_ok_simps(2) [OF ok(1)] idx1]
  have "acct_engine t = cancel_order o' (pools_of ?db oid) (acct_engine s) \<and>
      (acct_db t = ?db2\<lparr>adb_proofs := pr\<rparr> \<or>
       acct_db t = remove_owner_mapping (owner (inner (order_intent o'))) (?db2\<lparr>adb_proofs := pr\<rparr>))"
    using assms(2) o' by (auto simp: app_remove_order_from_account_def Let_def pr pools_of_def split: if_splits)
  then have t: "acct_engine t = cancel_order o' (pools_of ?db oid) (acct_engine s)"
      and db: "acct_db t = ?db2\<lparr>adb_proofs := pr\<rparr> \<or>
       acct_db t = remove_owner_mapping (owner (inner (order_intent o'))) (?db2\<lparr>adb_proofs := pr\<rparr>)" by simp_all
  have "account_db_ok ?db2" by (rule account_ok_remove_order [OF account_ok_simps(2) [OF ok(1)] idx1])
  then have okt: "account_db_ok (acct_db t)" using db by auto
  have fields: "adb_order_index (acct_db t) = (adb_order_index ?db)(oid := None)"
      "\<And>a oid'. db_read (a, oid') (adb_orders (acct_db t)) = (if oid' = oid then None else db_read (a, oid') (adb_orders ?db))"
      "adb_balances (acct_db t) = adb_balances ?db"
      "\<And>oid'. oid' \<noteq> oid \<Longrightarrow> pools_of (acct_db t) oid' = pools_of ?db oid'"
    using db rm by (auto simp: remove_owner_mapping_def remove_intent_mapping_def pools_of_def get_matching_pool_for_order_def)
  have uuid: "order_uuid o' = oid" using account_okD(7) [OF ok(1)] o'(1) by (auto simp: tx_get_order_iff)
  have pair: "pairs_of ?db (order_uuid o') = Some (order_pair o')" using o'(1) uuid by (simp add: pairs_of_def)
  have "booked (pairs_of ?db) {oid} (acct_db t) (acct_engine s)"
    using ok(3) by (rule booked_db_mono) (use entry_ok_cong [of "acct_db t" _ ?db] in \<open>auto simp: fields\<close>)
  then have "booked (pairs_of ?db) {} (acct_db t) (acct_engine t)"
    using cancel_order_ok(2) [OF ok(2), where pr = "pairs_of ?db" and D = "{oid}" and db = "acct_db t" and o' = o'] pair uuid t by simp
  moreover have engine: "engine_ok (pools_of ?db) (acct_engine t)" and none: "\<And>p. all_lookup (acct_engine t) p oid = None"
    using cancel_order_ok(1,3) [OF ok(2,3), where o' = o'] pair uuid t by simp_all
  have "pools_of (acct_db t) oid' = pools_of ?db oid'" if "all_lookup (acct_engine t) p oid' = Some bo" for p oid' bo
    using none that fields(4) by (cases "oid' = oid") auto
  ultimately show ?thesis using acct_ok_alt okt engine_ok_cong [OF engine] by blast
qed

lemma update_order_ok:
  assumes "acct_ok s" and "app_update_order ps show_id o' s = Inr t"
    and "\<And>old. tx_get_order (order_uuid o') (acct_db s) = Some old \<Longrightarrow> order_pair o' = order_pair old"
  shows "acct_ok t"
proof -
  let ?db = "acct_db s" and ?oid = "order_uuid o'"
  note ok = acct_okD [OF assms(1)]
  obtain old aid where old: "tx_get_order ?oid ?db = Some old" "adb_order_index ?db ?oid = Some aid"
    using assms(2) by (auto simp: app_update_order_def Let_def res_simps get_account_id_for_order_def)
  show ?thesis
  proof (cases "order_amount_in o' = 0")
    case True
    then obtain s' where "app_remove_order_from_account ps show_id aid ?oid s' = Inr t"
        and s': "s' = s \<or> (\<exists>a. s' = publish_fill aid o' a True s)"
      using assms(2) old
      by (auto simp: app_update_order_def Let_def REMOVE_CONSUMED_ORDERS_def get_account_id_for_order_def split: if_splits)
    then show ?thesis using remove_order_ok [of s' ps show_id aid ?oid t] assms(1) old(2) by auto
  next
    case False
    let ?db' = "tx_update_order aid o' ?db"
    let ?a = "unwrap_or 0 (get_order_matchable_amount ?oid ?db')"
    have t: "acct_db t = ?db'" "acct_engine t = sync_order aid o' ?a (pools_of ?db' ?oid) (acct_engine s)"
      using assms(2) old False
      by (auto simp: app_update_order_def Let_def REMOVE_CONSUMED_ORDERS_def get_account_id_for_order_def
          pools_of_def split: if_splits)
    have stored: "adb_order_index ?db' ?oid = Some aid" "db_read (aid, ?oid) (adb_orders ?db') = Some o'"
      using old(2) by (simp_all add: tx_defs)
    have pools: "pools_of ?db' = pools_of ?db" by (auto simp: pools_of_def tx_defs)
    have "entry_ok ?db' p oid bo = entry_ok ?db p oid bo" if "oid \<noteq> ?oid" for p oid bo
      using that by (intro entry_ok_cong) (simp_all add: tx_update_order_def)
    then have "booked (pairs_of ?db) {?oid} ?db' (acct_engine s)"
      using ok(3) by (simp add: booked_def)
    moreover have "pairs_of ?db ?oid = Some (order_pair o')"
      using old(1) assms(3) by (simp add: pairs_of_def)
    ultimately have "engine_ok (pools_of ?db) (acct_engine t)" "booked (pairs_of ?db) {} ?db' (acct_engine t)"
      using sync_order_ok [OF ok(2), of "pairs_of ?db" "{?oid}" ?db' o' _ aid ?a] matchable_stored [OF stored] stored
      by (simp_all add: t(2) pools)
    then show ?thesis
      using acct_ok_alt [of t] account_ok_update_order [OF ok(1) old(2)] pools t(1) by auto
  qed
qed

text \<open>The loop over the orders a balance backs.\<close>

lemma update_matchable_loop:
  assumes "engine_ok (pools_of db) e" and "booked (pairs_of db) D db e" and "account_db_ok db"
    and "\<And>oid. oid \<in> set ids \<Longrightarrow> adb_order_index db oid = Some aid"
  shows "engine_ok (pools_of db) (fold (update_matchable_amount aid db) ids e) \<and>
    booked (pairs_of db) (D - set ids) db (fold (update_matchable_amount aid db) ids e)"
  using assms
proof (induction ids arbitrary: e D)
  case Nil
  then show ?case by simp
next
  case (Cons oid ids)
  have idx: "adb_order_index db oid = Some aid" using Cons.prems(4) by simp
  obtain o' where o': "db_read (aid, oid) (adb_orders db) = Some o'"
    using account_okD(8) [OF assms(3) idx] by auto
  have uuid: "order_uuid o' = oid" using account_okD(7) [OF assms(3) o'] by simp
  have get: "tx_get_order oid db = Some o'" using idx o' by (auto simp: tx_get_order_iff)
  have pair: "pairs_of db oid = Some (order_pair o')" by (simp add: pairs_of_def get)
  have step: "update_matchable_amount aid db oid e = sync_order aid o' (stored_matchable aid db o') (pools_of db oid) e"
    using matchable_stored [OF idx o'] by (simp add: update_matchable_amount_def get pools_of_def)
  have "engine_ok (pools_of db) (update_matchable_amount aid db oid e)"
      "booked (pairs_of db) (D - {oid}) db (update_matchable_amount aid db oid e)"
    using sync_order_ok [OF Cons.prems(1,2), of o' "pools_of db oid" aid "stored_matchable aid db o'"] idx o' uuid pair
    by (simp_all add: step)
  then show ?case using Cons.IH [of _ "D - {oid}"] Cons.prems(4) assms(3) by (simp add: Diff_insert2 [symmetric])
qed

lemma input_token_orders_iff:
  assumes "account_db_ok db"
  shows "oid \<in> set (get_orders_with_input_token aid tok db) \<longleftrightarrow>
    (\<exists>o'. db_read (aid, oid) (adb_orders db) = Some o' \<and> order_input_token o' = tok)"
proof
  assume "oid \<in> set (get_orders_with_input_token aid tok db)"
  then obtain o' where o': "o' \<in> set (account_entries aid (adb_orders db))" "order_input_token o' = tok" "oid = order_uuid o'"
    by (auto simp: get_orders_with_input_token_def)
  obtain k where k: "db_read (aid, k) (adb_orders db) = Some o'"
    using o'(1) account_entries_iff [OF account_okD(2) [OF assms]] by blast
  have "k = oid" using account_okD(7) [OF assms k] o'(3) by simp
  then show "\<exists>o'. db_read (aid, oid) (adb_orders db) = Some o' \<and> order_input_token o' = tok" using k o'(2) by blast
next
  assume "\<exists>o'. db_read (aid, oid) (adb_orders db) = Some o' \<and> order_input_token o' = tok"
  then obtain o' where o': "db_read (aid, oid) (adb_orders db) = Some o'" "order_input_token o' = tok" by blast
  have "o' \<in> set (account_entries aid (adb_orders db))"
    using o'(1) account_entries_iff [OF account_okD(2) [OF assms]] by blast
  moreover have "order_uuid o' = oid" using account_okD(7) [OF assms o'(1)] by simp
  ultimately show "oid \<in> set (get_orders_with_input_token aid tok db)"
    using o'(2) by (auto simp: get_orders_with_input_token_def)
qed

lemma update_balance_ok:
  assumes "acct_ok s" and "app_update_account_balance aid b s = Inr t"
  shows "acct_ok t"
proof -
  let ?db = "acct_db s" and ?db' = "update_balance aid b (acct_db s)"
  note ok = acct_okD [OF assms(1)]
  let ?ids = "get_orders_with_input_token aid (balance_mint b) ?db'"
  have t: "acct_db t = ?db'" "acct_engine t = fold (update_matchable_amount aid ?db') ?ids (acct_engine s)"
    using assms(2) by (auto simp: app_update_account_balance_def update_matchable_amounts_def Let_def split: if_splits)
  have ok': "account_db_ok ?db'" by (rule account_ok_update_balance [OF ok(1)])
  have same: "pools_of ?db' = pools_of ?db" "pairs_of ?db' = pairs_of ?db"
      "adb_orders ?db' = adb_orders ?db" "adb_order_index ?db' = adb_order_index ?db"
    by (simp_all add: fun_eq_iff pools_of_def pairs_of_def tx_defs cong: option.case_cong)
  have mem: "oid \<in> set ?ids \<longleftrightarrow> (\<exists>o'. db_read (aid, oid) (adb_orders ?db) = Some o' \<and> order_input_token o' = balance_mint b)" for oid
    using input_token_orders_iff [OF ok'] by (simp add: same(3))
  have "entry_ok ?db' p oid bo" if ent: "entry_ok ?db p oid bo" and out: "oid \<notin> set ?ids" for p oid bo
  proof -
    obtain aid' o' where o': "adb_order_index ?db oid = Some aid'" "db_read (aid', oid) (adb_orders ?db) = Some o'"
      using ent unfolding entry_ok_def by blast
    have "stored_matchable aid' ?db' o' = stored_matchable aid' ?db o'"
      using out o' mem by (auto simp: stored_matchable_def tx_defs)
    then show ?thesis using ent o' by (simp add: entry_ok_def same)
  qed
  then have "booked (pairs_of ?db') (set ?ids) ?db' (acct_engine s)"
    using ok(3) same(2) by (auto simp: booked_def)
  moreover have "adb_order_index ?db' oid = Some aid" if "oid \<in> set ?ids" for oid
    using that account_okD(7) [OF ok(1), of aid oid] mem same(4) by metis
  ultimately show ?thesis
    using update_matchable_loop [of ?db' "acct_engine s" "set ?ids" ?ids aid] ok(2) ok' same(1) t acct_ok_alt [of t] by auto
qed

end
