(* ===== verification/Account_Refresh.thy ===== *)
theory Account_Refresh
  imports Account_Applicator
begin

text \<open>
  The transitions that touch more than one order of the matching engine: moving an order to
  another pool, reservations and matches, and the refresh of a whole account. Each keeps the
  engine a cache of the database.
\<close>

section \<open>Moving an order to another pool\<close>

lemma book_map_cancel: "book_map (cancel_order o' pool e) k = None \<longleftrightarrow> book_map e k = None"
  by (auto simp: cancel_order_def Let_def split: option.splits)

lemma entry_ok_pools:
  "entry_ok (db\<lparr>adb_pool_of := po\<rparr>) p oid bo = entry_ok db p oid bo"
  by (rule entry_ok_cong) simp_all

text \<open>The engine when the order has left its old pool.\<close>

lemma leave_pool:
  assumes "engine_ok pf e" and "booked pr {} db e" and "pr (order_uuid o') = Some (order_pair o')"
  defines "e1 \<equiv> (if engine_contains_order o' (pf (order_uuid o')) e then cancel_order o' (pf (order_uuid o')) e else e)"
  shows "engine_ok pf e1" and "booked pr {} db e1" and "all_lookup e1 p (order_uuid o') = None"
    and "book_map e1 k = None \<longleftrightarrow> book_map e k = None"
proof -
  note c = cancel_order_ok [OF assms(1,2) refl assms(3)]
  show "engine_ok pf e1" "booked pr {} db e1" "book_map e1 k = None \<longleftrightarrow> book_map e k = None"
    using assms(1,2) c(1,2) by (simp_all add: e1_def book_map_cancel)
  have "all_lookup e p (order_uuid o') = None" if out: "\<not> engine_contains_order o' (pf (order_uuid o')) e"
  proof (rule ccontr)
    assume some: "all_lookup e p (order_uuid o') \<noteq> None"
    then have "p = order_pair o'" using bookedD(1) [OF assms(2)] assms(3) by fastforce
    moreover have "pool_lookup e p (pf (order_uuid o')) (order_uuid o') = all_lookup e p (order_uuid o')"
      using assms(1) by (simp add: engine_ok_def views_agree_def)
    ultimately show False
      using out some by (auto simp: engine_contains_order_def pool_lookup_def contains_order_def split: option.splits)
  qed
  then show "all_lookup e1 p (order_uuid o') = None" using c(3) by (simp add: e1_def)
qed

lemma assign_pool_ok:
  assumes "acct_ok s" and "app_assign_order_to_matching_pool show_id oid pool s = Inr t"
    and "\<And>o'. tx_get_order oid (acct_db s) = Some o' \<Longrightarrow> book_map (acct_engine s) (order_pair o', pool) \<noteq> None"
  shows "acct_ok t"
proof -
  let ?db = "acct_db s"
  note ok = acct_okD [OF assms(1)]
  obtain o' aid db' where o': "tx_get_order oid ?db = Some o'" "adb_order_index ?db oid = Some aid"
      and db': "assign_order_to_matching_pool oid pool ?db = Inr db'"
    using assms(2) by (auto simp: app_assign_order_to_matching_pool_def update_matching_engine_after_order_assignment_def
        Let_def res_simps get_account_id_for_order_def split: if_splits)
  have stored: "db_read (aid, oid) (adb_orders ?db) = Some o'" using o' by (auto simp: tx_get_order_iff)
  have uuid: "order_uuid o' = oid" using account_okD(7) [OF ok(1) stored] by simp
  let ?e1 = "if engine_contains_order o' (pools_of ?db oid) (acct_engine s)
      then cancel_order o' (pools_of ?db oid) (acct_engine s) else acct_engine s"
  have t: "acct_db t = db'" "acct_engine t = engine_update_order aid o' (stored_matchable aid ?db o') pool ?e1"
    using assms(2) o' db' matchable_stored [OF o'(2) stored]
    by (auto simp: app_assign_order_to_matching_pool_def update_matching_engine_after_order_assignment_def
        Let_def get_account_id_for_order_def pools_of_def split: if_splits)
  have pair: "pairs_of ?db (order_uuid o') = Some (order_pair o')" using o'(1) uuid by (simp add: pairs_of_def)
  note left = leave_pool [OF ok(2,3) pair, unfolded uuid]
  note assign = account_ok_assign [OF ok(1) db']
  have idx: "adb_order_index ?db oid \<noteq> None" using o'(2) by simp
  have pools: "pools_of db' = (pools_of ?db)(oid := pool)"
    using assign(2) [OF idx] by (auto simp: pools_of_def)
  have entry: "entry_ok db' p i bo = entry_ok ?db p i bo" for p i bo
    by (subst assign(3) [OF idx]) (rule entry_ok_pools)
  have "engine_ok (pools_of db') ?e1"
    using left(1) by (rule engine_ok_cong) (use left(3) in \<open>auto simp: pools\<close>)
  moreover have bm: "book_map ?e1 (order_pair o', pool) \<noteq> None" unfolding left(4) by (rule assms(3) [OF o'(1)])
  ultimately have "engine_ok (pools_of db') (acct_engine t)"
    using engine_ok_ops(3) [where e = ?e1 and pf = "pools_of db'" and o' = o'] by (simp only: t(2) pools uuid fun_upd_same simp_thms)
  moreover have "booked (pairs_of ?db) ({} - {order_uuid o'}) db' (acct_engine t)"
    unfolding t(2)
  proof (rule booked_updates_at)
    show "booked (pairs_of ?db) {} db' ?e1" using left(2) by (simp add: booked_def entry)
    show "updates_at (\<lambda>_. Some (book_order_new aid o' (stored_matchable aid ?db o'))) (order_pair o') pool
        (order_uuid o') ?e1 (engine_update_order aid o' (stored_matchable aid ?db o') pool ?e1)"
      using left(1) by (intro update_updates_at bm) (simp add: engine_ok_def)
    show "pairs_of ?db (order_uuid o') = Some (order_pair o')" by (rule pair)
    show "entry_ok db' (order_pair o') (order_uuid o') bo"
      if "Some (book_order_new aid o' (stored_matchable aid ?db o')) = Some bo" for bo
      unfolding entry using that o'(2) stored uuid by (auto simp: entry_ok_def)
  qed
  ultimately show ?thesis using acct_ok_alt [of t] assign(1) [OF idx] t(1) by simp
qed

section \<open>Reservations and matches\<close>

lemma entry_ok_reserved:
  assumes "entry_ok db p oid bo"
  shows "entry_ok db p oid (reserved_order a bo)"
proof -
  obtain aid o' where e: "adb_order_index db oid = Some aid" "db_read (aid, oid) (adb_orders db) = Some o'"
      "order_pair o' = p" "matchable_amount bo \<le> stored_matchable aid db o'"
      and bo: "bo = book_order_new aid o' (matchable_amount bo)"
    using assms unfolding entry_ok_def by blast
  let ?a = "matchable_amount bo - min a (matchable_amount bo)"
  have "?a \<le> stored_matchable aid db o'"
    using e(4) word_sub_le [of "min a (matchable_amount bo)" "matchable_amount bo"] by simp
  moreover have "reserved_order a bo = book_order_new aid o' ?a"
    by (subst (1 2 3) bo) (simp add: reserved_order_def book_order_new_def)
  ultimately show ?thesis unfolding entry_ok_def using e(1-3) by (intro exI [of _ aid] exI [of _ o']) simp
qed

lemma booked_reserved:
  assumes "booked pr D db e" and "updates_at (map_option (reserved_order a)) p pool oid e e'"
  shows "booked pr D db e'"
  unfolding booked_def
proof (intro allI impI)
  fix p' oid' bo
  assume l: "all_lookup e' p' oid' = Some bo"
  have "all_lookup e p' oid' = Some bo \<or> (\<exists>bo'. all_lookup e p' oid' = Some bo' \<and> bo = reserved_order a bo')"
    using l assms(2) by (auto simp: updates_at_def split: if_splits)
  then show "pr oid' = Some p' \<and> (oid' \<notin> D \<longrightarrow> entry_ok db p' oid' bo)"
    using bookedD [OF assms(1)] entry_ok_reserved by blast
qed

lemma reserve_ok:
  assumes "acct_ok s" and "pool = get_matching_pool_for_order (order_uuid o') (acct_db s)"
  shows "acct_ok (s\<lparr>acct_engine := reserve_order o' a pool (acct_engine s)\<rparr>)"
proof -
  note ok = acct_okD [OF assms(1)]
  show ?thesis
    using ok(1) engine_ok_ops(4) [OF ok(2), of o' a] booked_reserved [OF ok(3) reserve_updates_at]
    by (simp add: acct_ok_def pools_of_def assms(2))
qed

lemma find_match_ok:
  assumes "acct_ok s" and "find_match_helper excl rg ip rng pool ts ext (acct_engine s) = Some (r, e')"
  shows "acct_ok (s\<lparr>acct_engine := e'\<rparr>)"
proof -
  note ok = acct_okD [OF assms(1)]
  have books: "books_ok (acct_engine s)" using ok(2) by (simp add: engine_ok_def)
  have "booked (pairs_of (acct_db s)) {} (acct_db s) e'"
    using books
  proof (cases rule: find_match_helper_cases [where excl = excl and rg = rg and ip = ip and rng = rng
      and pool = pool and ts = ts and ext = ext])
    case no_match
    then show ?thesis using assms(2) ok(3) by simp
  next
    case (found cp b oid a bounds m)
    then show ?thesis
      using assms(2) ok(3) booked_reserved [OF ok(3) reserve_match_updates_at [OF found(2)]] by (cases ext) auto
  qed
  then show ?thesis using ok(1) engine_ok_find [OF ok(2) assms(2)] by (simp add: acct_ok_def)
qed

section \<open>Refreshing an account\<close>

text \<open>What the loop over the stale orders leaves of the database, and what it collects.\<close>

definition stale_of :: "order_id set \<Rightarrow> account_db \<Rightarrow> order list \<Rightarrow> (order \<times> matching_pool_name) list" where
  "stale_of keep db os =
     map (\<lambda>o'. (o', pools_of db (order_uuid o'))) (filter (\<lambda>o'. order_uuid o' \<notin> keep) os)"

lemma remove_stale_loop:
  assumes "account_db_ok db" and "contains_account aid db" and "distinct (map order_uuid os)"
    and "\<And>o'. o' \<in> set os \<Longrightarrow> adb_order_index db (order_uuid o') = Some aid"
    and "fold (remove_stale_order aid keep) os (db, st) = (db', st')"
  shows "account_db_ok db' \<and> contains_account aid db' \<and> adb_balances db' = adb_balances db \<and>
    st' = st @ stale_of keep db os \<and>
    (\<forall>oid. adb_order_index db' oid = (if oid \<in> order_uuid ` set os - keep then None else adb_order_index db oid)) \<and>
    (\<forall>a oid. db_read (a, oid) (adb_orders db') =
       (if oid \<in> order_uuid ` set os - keep then None else db_read (a, oid) (adb_orders db))) \<and>
    (\<forall>oid. oid \<notin> order_uuid ` set os - keep \<longrightarrow> pools_of db' oid = pools_of db oid)"
  using assms
proof (induction os arbitrary: db st)
  case Nil
  then show ?case by (simp add: stale_of_def)
next
  case (Cons o' os)
  let ?oid = "order_uuid o'"
  show ?case
  proof (cases "?oid \<in> keep")
    case True
    have "fold (remove_stale_order aid keep) os (db, st) = (db', st')"
      using Cons.prems(5) True by (simp add: remove_stale_order_def [of _ _ o'])
    then show ?thesis using Cons.IH [OF Cons.prems(1,2)] Cons.prems(3,4) True by (simp add: stale_of_def insert_Diff_if)
  next
    case False
    have idx: "adb_order_index db ?oid = Some aid" using Cons.prems(4) by simp
    let ?db1 = "remove_order_with_auth aid ?oid db"
    note rm = remove_order_fields [OF Cons.prems(1) idx]
    have c: "contains_account aid ?db1" using Cons.prems(2) by (simp add: tx_defs)
    have fresh: "?oid \<notin> order_uuid ` set os" using Cons.prems(3) by simp
    then have ne: "\<And>x. x \<in> set os \<Longrightarrow> order_uuid x \<noteq> ?oid" by (metis imageI)
    then have idx1: "\<And>x. x \<in> set os \<Longrightarrow> adb_order_index ?db1 (order_uuid x) = Some aid"
      using Cons.prems(4) by (simp add: rm(1))
    have "fold (remove_stale_order aid keep) os (?db1, st @ [(o', pools_of db ?oid)]) = (db', st')"
      using Cons.prems(5) False by (simp add: remove_stale_order_def [of _ _ o'] pools_of_def)
    note ih = Cons.IH [OF account_ok_remove_order [OF Cons.prems(1) idx] c _ idx1 this]
    have "stale_of keep ?db1 os = stale_of keep db os"
      using ne by (simp add: stale_of_def rm(4))
    then show ?thesis using ih Cons.prems(3) False fresh by (auto simp: rm stale_of_def)
  qed
qed

text \<open>One refreshed order is stored under its account, in the pool it names.\<close>

lemma refresh_one_fields:
  assumes "refresh_one aid r acc = Inr acc'" and "account_db_ok (ref_db acc)" and "contains_account aid (ref_db acc)"
    and "adb_order_index (ref_db acc) oid = None \<or> adb_order_index (ref_db acc) oid = Some aid"
    and "oid = order_uuid (refresh_order r)"
  defines "o' \<equiv> refresh_clamp (tx_get_order oid (ref_db acc)) (refresh_order r)"
  shows "account_db_ok (ref_db acc')" and "contains_account aid (ref_db acc')"
    and "ref_orders acc' = ref_orders acc @ [(o', refresh_pool r)]"
    and "adb_order_index (ref_db acc') = (adb_order_index (ref_db acc))(oid \<mapsto> aid)"
    and "db_read (aid, oid) (adb_orders (ref_db acc')) = Some o'"
    and "i \<noteq> oid \<Longrightarrow> db_read (a, i) (adb_orders (ref_db acc')) = db_read (a, i) (adb_orders (ref_db acc))"
    and "adb_balances (ref_db acc') = adb_balances (ref_db acc)"
    and "pools_of (ref_db acc') i = (if i = oid then refresh_pool r else pools_of (ref_db acc) i)"
proof -
  let ?db = "ref_db acc" and ?pool = "refresh_pool r"
  have uuid: "order_uuid o' = oid"
    by (simp add: o'_def refresh_clamp_def decrement_amount_in_def Let_def assms(5) split: option.splits prod.splits)
  have store: "(if tx_get_order oid ?db \<noteq> None then tx_update_order aid o' (write_order_auth oid (refresh_auth r) ?db)
      else tx_add_order aid o' (write_order_auth oid (refresh_auth r) ?db)) =
      write_order_auth oid (refresh_auth r) (tx_add_order aid o' ?db)"
    using assms(4) by (auto simp: tx_defs uuid fun_upd_idem split: option.splits)
  let ?db1 = "write_order_auth oid (refresh_auth r) (tx_add_order aid o' ?db)"
  obtain db2 where db2: "assign_order_to_matching_pool oid ?pool ?db1 = Inr db2" "ref_db acc' = db2"
      and orders: "ref_orders acc' = ref_orders acc @ [(o', ?pool)]"
    using assms(1) unfolding refresh_one_def Let_def assms(5) [symmetric] o'_def [symmetric] uuid store
    by (auto simp: res_simps split: if_splits)
  show "ref_orders acc' = ref_orders acc @ [(o', refresh_pool r)]" by (rule orders)
  have ok1: "account_db_ok ?db1"
    using account_ok_store_order [OF assms(2,3), of o'] assms(4) by (simp add: uuid)
  have idx: "adb_order_index ?db1 oid \<noteq> None" by (simp add: tx_defs uuid)
  note assign = account_ok_assign [OF ok1 db2(1) idx]
  show "account_db_ok (ref_db acc')" using assign(1) by (simp add: db2(2))
  have f: "adb_orders db2 = adb_orders ?db1" "adb_order_index db2 = adb_order_index ?db1"
      "adb_balances db2 = adb_balances ?db" "adb_headers db2 = adb_headers ?db"
    by (subst assign(3), simp add: tx_defs)+
  show "contains_account aid (ref_db acc')" using assms(3) f(4) by (simp add: db2(2) contains_account_def get_account_header_def)
  show "adb_order_index (ref_db acc') = (adb_order_index (ref_db acc))(oid \<mapsto> aid)"
      "db_read (aid, oid) (adb_orders (ref_db acc')) = Some o'"
      "adb_balances (ref_db acc') = adb_balances (ref_db acc)"
    by (simp_all add: db2(2) f tx_defs uuid)
  show "db_read (a, i) (adb_orders (ref_db acc')) = db_read (a, i) (adb_orders (ref_db acc))" if "i \<noteq> oid"
    using that by (simp add: db2(2) f tx_defs uuid)
  show "pools_of (ref_db acc') i = (if i = oid then refresh_pool r else pools_of (ref_db acc) i)"
    using assign(2) by (simp add: pools_of_def db2(2) tx_defs)
qed

lemma tx_get_order_cong:
  "adb_order_index db' oid = adb_order_index db oid \<Longrightarrow>
   (\<And>a. db_read (a, oid) (adb_orders db') = db_read (a, oid) (adb_orders db)) \<Longrightarrow>
   tx_get_order oid db' = tx_get_order oid db"
  by (simp add: tx_get_order_def get_account_id_for_order_def split: option.splits)

lemma refresh_clamp_keeps [simp]:
  "order_uuid (refresh_clamp st o') = order_uuid o'" "order_pair (refresh_clamp st o') = order_pair o'"
  by (simp_all add: refresh_clamp_def decrement_amount_in_def Let_def order_pair_def order_input_token_def
      order_output_token_def split: option.splits prod.splits)

text \<open>
  The database after the loop over the refreshed orders: each of them is stored under the
  account and in its pool, and nothing else has changed.
\<close>

definition refreshed ::
    "account_id \<Rightarrow> order_refresh_data list \<Rightarrow> account_db \<Rightarrow> account_db \<Rightarrow> (order \<times> matching_pool_name) list \<Rightarrow> bool" where
  "refreshed aid rs db db' L \<longleftrightarrow>
     (let ids = (order_uuid \<circ> fst) ` set L in
      account_db_ok db' \<and> adb_balances db' = adb_balances db \<and> ids = order_uuid ` refresh_order ` set rs \<and>
      (\<forall>oid. adb_order_index db' oid = (if oid \<in> ids then Some aid else adb_order_index db oid)) \<and>
      (\<forall>oid. oid \<notin> ids \<longrightarrow> pools_of db' oid = pools_of db oid) \<and>
      (\<forall>oid a. oid \<notin> ids \<longrightarrow> db_read (a, oid) (adb_orders db') = db_read (a, oid) (adb_orders db)) \<and>
      (\<forall>(o', pool) \<in> set L. db_read (aid, order_uuid o') (adb_orders db') = Some o' \<and>
         pools_of db' (order_uuid o') = pool) \<and>
      (\<forall>(o', pool) \<in> set L. \<exists>r \<in> set rs. order_uuid (refresh_order r) = order_uuid o' \<and> refresh_pool r = pool \<and>
         refresh_clamp (tx_get_order (order_uuid o') db) (refresh_order r) = o'))"

lemma refreshedD:
  assumes "refreshed aid rs db db' L"
  defines "ids \<equiv> (order_uuid \<circ> fst) ` set L"
  shows "account_db_ok db'" and "adb_balances db' = adb_balances db" and "ids = order_uuid ` refresh_order ` set rs"
    and "adb_order_index db' oid = (if oid \<in> ids then Some aid else adb_order_index db oid)"
    and "oid \<notin> ids \<Longrightarrow> pools_of db' oid = pools_of db oid"
    and "oid \<notin> ids \<Longrightarrow> db_read (a, oid) (adb_orders db') = db_read (a, oid) (adb_orders db)"
    and "(o', pool) \<in> set L \<Longrightarrow> db_read (aid, order_uuid o') (adb_orders db') = Some o' \<and>
         pools_of db' (order_uuid o') = pool"
    and "(o', pool) \<in> set L \<Longrightarrow> \<exists>r \<in> set rs. order_uuid (refresh_order r) = order_uuid o' \<and> refresh_pool r = pool \<and>
         refresh_clamp (tx_get_order (order_uuid o') db) (refresh_order r) = o'"
  using assms(1) unfolding refreshed_def Let_def ids_def [symmetric] by (auto 0 3)

lemma refresh_loop:
  assumes "try_fold (refresh_one aid) rs acc = Inr acc'" and "account_db_ok (ref_db acc)" and "contains_account aid (ref_db acc)"
    and "distinct (map (order_uuid \<circ> refresh_order) rs)"
    and "\<And>r. r \<in> set rs \<Longrightarrow> adb_order_index (ref_db acc) (order_uuid (refresh_order r)) \<in> {None, Some aid}"
  shows "\<exists>L. ref_orders acc' = ref_orders acc @ L \<and> refreshed aid rs (ref_db acc) (ref_db acc') L"
  using assms
proof (induction rs arbitrary: acc)
  case Nil
  then show ?case by (simp add: refreshed_def)
next
  case (Cons r rs)
  let ?oid = "order_uuid (refresh_order r)"
  let ?o = "refresh_clamp (tx_get_order ?oid (ref_db acc)) (refresh_order r)"
  obtain acc1 where acc1: "refresh_one aid r acc = Inr acc1" "try_fold (refresh_one aid) rs acc1 = Inr acc'"
    using Cons.prems(1) by (auto simp: res_simps)
  have "adb_order_index (ref_db acc) ?oid = None \<or> adb_order_index (ref_db acc) ?oid = Some aid"
    using Cons.prems(5) [of r] by simp
  note f = refresh_one_fields [OF acc1(1) Cons.prems(2,3) this refl]
  have new: "\<forall>x \<in> set rs. order_uuid (refresh_order x) \<noteq> ?oid" using Cons.prems(4) by (auto simp: image_iff)
  have idx: "\<And>x. x \<in> set rs \<Longrightarrow> adb_order_index (ref_db acc1) (order_uuid (refresh_order x)) \<in> {None, Some aid}"
    using Cons.prems(5) new f(4) by simp
  have "distinct (map (order_uuid \<circ> refresh_order) rs)" using Cons.prems(4) by (simp add: comp_def)
  from Cons.IH [OF acc1(2) f(1,2) this idx] obtain L where
    L: "ref_orders acc' = ref_orders acc1 @ L" "refreshed aid rs (ref_db acc1) (ref_db acc') L" by blast
  note D = refreshedD [OF L(2)]
  have out: "?oid \<notin> (order_uuid \<circ> fst) ` set L" using new D(3) by auto
  have "refreshed aid (r # rs) (ref_db acc) (ref_db acc') ((?o, refresh_pool r) # L)"
    unfolding refreshed_def Let_def
  proof (intro conjI allI impI)
    show "\<forall>(o', pool) \<in> set ((?o, refresh_pool r) # L). db_read (aid, order_uuid o') (adb_orders (ref_db acc')) = Some o' \<and>
       pools_of (ref_db acc') (order_uuid o') = pool"
      using D(7) D(5,6) [OF out] f(5,8) by auto
    have "tx_get_order i (ref_db acc1) = tx_get_order i (ref_db acc)" if "i \<noteq> ?oid" for i
      using that f(4,6) by (intro tx_get_order_cong) simp_all
    moreover have "order_uuid (fst x) \<noteq> ?oid" if "x \<in> set L" for x using out that by force
    ultimately show "\<forall>(o', pool) \<in> set ((?o, refresh_pool r) # L). \<exists>r \<in> set (r # rs).
        order_uuid (refresh_order r) = order_uuid o' \<and> refresh_pool r = pool \<and>
        refresh_clamp (tx_get_order (order_uuid o') (ref_db acc)) (refresh_order r) = o'"
      using D(8) by fastforce
  qed (use D(1-6) f in simp_all)
  then show ?case using L(1) f(3) by auto
qed

section \<open>The engine after a refresh\<close>

lemma publish_fold_fields [simp]:
  "acct_db (fold (publish_admin_balance_update aid) bs s) = acct_db s"
  "acct_engine (fold (publish_admin_balance_update aid) bs s) = acct_engine s"
  by (induction bs arbitrary: s) simp_all

lemma publish_orders_fields [simp]:
  "acct_db (fold (\<lambda>(o', pool, ty, a). publish_admin_order_update aid o' pool ty a) us s) = acct_db s"
  "acct_engine (fold (\<lambda>(o', pool, ty, a). publish_admin_order_update aid o' pool ty a) us s) = acct_engine s"
  by (induction us arbitrary: s) (simp_all split: prod.splits)

lemma cancel_stale_fields:
  "acct_db (fold (cancel_stale aid) st s) = acct_db s"
  "acct_engine (fold (cancel_stale aid) st s) = fold (\<lambda>(o', pool). cancel_order o' pool) st (acct_engine s)"
  by (induction st arbitrary: s) (simp_all add: cancel_stale_def Let_def split: prod.splits)

lemma sync_refreshed_fields:
  "acct_db (fold (sync_refreshed aid) L s) = acct_db s"
  "acct_engine (fold (sync_refreshed aid) L s) =
     fold (\<lambda>(o', pool). sync_order aid o' (unwrap_or 0 (get_order_matchable_amount (order_uuid o') (acct_db s))) pool)
       L (acct_engine s)"
  by (induction L arbitrary: s) (simp_all add: sync_refreshed_def Let_def split: prod.splits)

lemma cancel_loop:
  assumes "engine_ok pf e" and "booked pr D db e"
    and "\<And>o' pool. (o', pool) \<in> set st \<Longrightarrow> pf (order_uuid o') = pool \<and> pr (order_uuid o') = Some (order_pair o')"
  shows "engine_ok pf (fold (\<lambda>(o', pool). cancel_order o' pool) st e) \<and>
    booked pr (D - (order_uuid \<circ> fst) ` set st) db (fold (\<lambda>(o', pool). cancel_order o' pool) st e)"
  using assms
proof (induction st arbitrary: e D)
  case Nil
  then show ?case by simp
next
  case (Cons x st)
  obtain o' pool where x: "x = (o', pool)" by fastforce
  have "pf (order_uuid o') = pool" "pr (order_uuid o') = Some (order_pair o')" using Cons.prems(3) x by auto
  note c = cancel_order_ok(1,2) [OF Cons.prems(1,2) this]
  have "\<And>o' pool. (o', pool) \<in> set st \<Longrightarrow> pf (order_uuid o') = pool \<and> pr (order_uuid o') = Some (order_pair o')"
    using Cons.prems(3) by (meson list.set_intros(2))
  from Cons.IH [OF c this] show ?case by (simp add: x Diff_insert2 [symmetric])
qed

lemma sync_loop:
  assumes "engine_ok pf e" and "booked pr D db e"
    and "\<And>o' pool. (o', pool) \<in> set L \<Longrightarrow> pf (order_uuid o') = pool \<and> pr (order_uuid o') = Some (order_pair o') \<and>
      adb_order_index db (order_uuid o') = Some aid \<and> db_read (aid, order_uuid o') (adb_orders db) = Some o'"
  defines "f \<equiv> \<lambda>(o', pool). sync_order aid o' (unwrap_or 0 (get_order_matchable_amount (order_uuid o') db)) pool"
  shows "engine_ok pf (fold f L e) \<and> booked pr (D - (order_uuid \<circ> fst) ` set L) db (fold f L e)"
  using assms(1-3)
proof (induction L arbitrary: e D)
  case Nil
  then show ?case by simp
next
  case (Cons x L)
  obtain o' pool where x: "x = (o', pool)" by fastforce
  have o': "pf (order_uuid o') = pool" "adb_order_index db (order_uuid o') = Some aid"
      "db_read (aid, order_uuid o') (adb_orders db) = Some o'" "pr (order_uuid o') = Some (order_pair o')"
    using Cons.prems(3) x by auto
  note c = sync_order_ok [OF Cons.prems(1,2) o' matchable_stored [OF o'(2,3)]]
  have "\<And>o' pool. (o', pool) \<in> set L \<Longrightarrow> pf (order_uuid o') = pool \<and> pr (order_uuid o') = Some (order_pair o') \<and>
      adb_order_index db (order_uuid o') = Some aid \<and> db_read (aid, order_uuid o') (adb_orders db) = Some o'"
    using Cons.prems(3) by (meson list.set_intros(2))
  from Cons.IH [OF c this] show ?case by (simp add: x f_def Diff_insert2 [symmetric])
qed

lemma update_balances_fields:
  assumes "account_db_ok db"
  shows "account_db_ok (fold (update_balance aid) bs db) \<and>
    adb_orders (fold (update_balance aid) bs db) = adb_orders db \<and>
    adb_order_index (fold (update_balance aid) bs db) = adb_order_index db \<and>
    adb_pool_of (fold (update_balance aid) bs db) = adb_pool_of db \<and>
    contains_account a (fold (update_balance aid) bs db) = contains_account a db \<and>
    (\<forall>k. a \<noteq> aid \<longrightarrow> db_read (a, k) (adb_balances (fold (update_balance aid) bs db)) = db_read (a, k) (adb_balances db))"
  using assms
proof (induction bs arbitrary: db)
  case (Cons b bs)
  then show ?case using Cons.IH [OF account_ok_update_balance [OF Cons.prems, of aid b]] by (simp add: tx_defs)
qed simp

text \<open>
  A refresh that names every order once and names no order stored under another account, and
  one that moreover reports for every stored order the pair and the pool it is stored with. The
  transition checks neither: the orders and their pools come from the indexer.
\<close>

definition refresh_names :: "account_id \<Rightarrow> order_refresh_data list \<Rightarrow> account_db \<Rightarrow> bool" where
  "refresh_names aid rs db \<longleftrightarrow>
     distinct (map (order_uuid \<circ> refresh_order) rs) \<and>
     (\<forall>r \<in> set rs. \<forall>a. adb_order_index db (order_uuid (refresh_order r)) = Some a \<longrightarrow> a = aid)"

definition refresh_guard :: "account_id \<Rightarrow> order_refresh_data list \<Rightarrow> account_db \<Rightarrow> bool" where
  "refresh_guard aid rs db \<longleftrightarrow> refresh_names aid rs db \<and>
     (\<forall>r \<in> set rs. adb_order_index db (order_uuid (refresh_order r)) \<noteq> None \<longrightarrow>
        pairs_of db (order_uuid (refresh_order r)) = Some (order_pair (refresh_order r)) \<and>
        pools_of db (order_uuid (refresh_order r)) = refresh_pool r)"

lemmas refresh_guard_defs = refresh_guard_def refresh_names_def

lemma account_orders_iff:
  assumes "account_db_ok db"
  shows "o' \<in> set (get_account_orders aid db) \<longleftrightarrow> db_read (aid, order_uuid o') (adb_orders db) = Some o'"
  using account_okD(7) [OF assms] account_entries_iff [OF account_okD(2) [OF assms], of o' aid]
  by (auto simp: get_account_orders_def fetch_orders_for_account_def)

lemma account_orders_distinct:
  assumes "account_db_ok db"
  shows "distinct (map order_uuid (get_account_orders aid db))"
proof -
  let ?es = "filter (\<lambda>e. fst (fst e) = aid) (adb_orders db)"
  have "distinct (map fst ?es)"
    using account_okD(2) [OF assms] by (simp add: tbl_ok_def strict_sorted_iff distinct_map_filter)
  moreover have "map fst ?es = map (\<lambda>e. (aid, order_uuid (snd e))) ?es"
    using account_okD(2,7) [OF assms] by (auto simp: db_read_iff prod_eq_iff)
  ultimately have "distinct (map (\<lambda>e. (aid, order_uuid (snd e))) ?es)" by simp
  then show ?thesis
    by (simp add: get_account_orders_def fetch_orders_for_account_def account_entries_def distinct_map inj_on_def)
qed

definition own_orders :: "account_id \<Rightarrow> account_db \<Rightarrow> order_id set" where
  "own_orders aid db = {oid. adb_order_index db oid = Some aid}"

lemma account_order_ids:
  assumes "account_db_ok db"
  shows "order_uuid ` set (get_account_orders aid db) = own_orders aid db"
proof
  show "order_uuid ` set (get_account_orders aid db) \<subseteq> own_orders aid db"
  proof
    fix oid
    assume "oid \<in> order_uuid ` set (get_account_orders aid db)"
    then obtain o' where "db_read (aid, oid) (adb_orders db) = Some o'" using account_orders_iff [OF assms] by blast
    then show "oid \<in> own_orders aid db" using account_okD(7) [OF assms] unfolding own_orders_def by blast
  qed
  show "own_orders aid db \<subseteq> order_uuid ` set (get_account_orders aid db)"
  proof
    fix oid
    assume "oid \<in> own_orders aid db"
    then obtain o' where o': "db_read (aid, oid) (adb_orders db) = Some o'"
      using account_okD(8) [OF assms] by (auto simp: own_orders_def)
    then have "order_uuid o' = oid" using account_okD(7) [OF assms] by blast
    then show "oid \<in> order_uuid ` set (get_account_orders aid db)" using o' account_orders_iff [OF assms] by blast
  qed
qed

text \<open>The database when the balances are written and the stale orders removed.\<close>

lemma refresh_stale:
  assumes "account_db_ok db" and "contains_account aid db" and "db1 = fold (update_balance aid) bs db"
    and "fold (remove_stale_order aid keep) (get_account_orders aid db1) (db1, []) = (db2, S)"
  shows "account_db_ok db2" and "contains_account aid db2"
    and "a \<noteq> aid \<Longrightarrow> db_read (a, k) (adb_balances db2) = db_read (a, k) (adb_balances db)"
    and "adb_order_index db2 oid = (if oid \<in> own_orders aid db - keep then None else adb_order_index db oid)"
    and "oid \<notin> own_orders aid db - keep \<Longrightarrow> db_read (a, oid) (adb_orders db2) = db_read (a, oid) (adb_orders db)"
    and "oid \<notin> own_orders aid db - keep \<Longrightarrow> pools_of db2 oid = pools_of db oid"
    and "(order_uuid \<circ> fst) ` set S = own_orders aid db - keep"
    and "(o', pool) \<in> set S \<Longrightarrow> tx_get_order (order_uuid o') db = Some o' \<and> pools_of db (order_uuid o') = pool"
proof -
  let ?os = "get_account_orders aid db1"
  have ok1: "account_db_ok db1" and c1: "contains_account aid db1"
      and b: "adb_orders db1 = adb_orders db" "adb_order_index db1 = adb_order_index db" "pools_of db1 = pools_of db"
      and bal: "\<And>a k. a \<noteq> aid \<Longrightarrow> db_read (a, k) (adb_balances db1) = db_read (a, k) (adb_balances db)"
    using update_balances_fields [OF assms(1), of aid bs] assms(2,3)
    by (auto simp: pools_of_def [abs_def] get_matching_pool_for_order_def)
  have own: "order_uuid ` set ?os = own_orders aid db"
    using account_order_ids [OF ok1] by (simp add: own_orders_def b(2))
  have idx: "\<And>o'. o' \<in> set ?os \<Longrightarrow> adb_order_index db1 (order_uuid o') = Some aid"
    using own by (auto simp: own_orders_def b(2))
  note loop = remove_stale_loop [OF ok1 c1 account_orders_distinct [OF ok1] idx assms(4), unfolded own]
  show "account_db_ok db2" "contains_account aid db2" using loop by blast+
  show "a \<noteq> aid \<Longrightarrow> db_read (a, k) (adb_balances db2) = db_read (a, k) (adb_balances db)" using loop bal by auto
  show "adb_order_index db2 oid = (if oid \<in> own_orders aid db - keep then None else adb_order_index db oid)"
    using loop b(2) by metis
  show "oid \<notin> own_orders aid db - keep \<Longrightarrow> db_read (a, oid) (adb_orders db2) = db_read (a, oid) (adb_orders db)"
    using loop b(1) by metis
  show "oid \<notin> own_orders aid db - keep \<Longrightarrow> pools_of db2 oid = pools_of db oid" using loop b(3) by metis
  have S: "S = stale_of keep db1 ?os" using loop by simp
  show "(order_uuid \<circ> fst) ` set S = own_orders aid db - keep"
    unfolding own [symmetric] S by (auto simp: stale_of_def image_iff)
  show "(o', pool) \<in> set S \<Longrightarrow> tx_get_order (order_uuid o') db = Some o' \<and> pools_of db (order_uuid o') = pool"
    using idx account_orders_iff [OF ok1] by (auto simp: S stale_of_def b tx_get_order_iff)
qed

text \<open>
  The state after a refresh: the orders of the account are removed from the database unless
  they are named, the named ones are stored, and the engine is brought up to date in that order.
\<close>

definition refresh_effect ::
    "account_id \<Rightarrow> order_refresh_data list \<Rightarrow> acct_state \<Rightarrow> acct_state \<Rightarrow>
     (order \<times> matching_pool_name) list \<Rightarrow> (order \<times> matching_pool_name) list \<Rightarrow> bool" where
  "refresh_effect aid rs s t S L \<longleftrightarrow>
     (let db = acct_db s; db' = acct_db t; ids = (order_uuid \<circ> fst) ` set L in
      account_db_ok db' \<and> ids = order_uuid ` refresh_order ` set rs \<and>
      (order_uuid \<circ> fst) ` set S = own_orders aid db - ids \<and>
      (\<forall>(o', pool) \<in> set S. tx_get_order (order_uuid o') db = Some o' \<and> pools_of db (order_uuid o') = pool) \<and>
      (\<forall>(o', pool) \<in> set L. adb_order_index db' (order_uuid o') = Some aid \<and>
         db_read (aid, order_uuid o') (adb_orders db') = Some o' \<and> pools_of db' (order_uuid o') = pool) \<and>
      (\<forall>(o', pool) \<in> set L. \<exists>r \<in> set rs. order_uuid (refresh_order r) = order_uuid o' \<and> refresh_pool r = pool \<and>
         refresh_clamp (tx_get_order (order_uuid o') db) (refresh_order r) = o') \<and>
      (\<forall>oid. oid \<notin> ids \<longrightarrow> adb_order_index db' oid = (if oid \<in> own_orders aid db then None else adb_order_index db oid)) \<and>
      (\<forall>oid. oid \<notin> ids \<union> own_orders aid db \<longrightarrow> pools_of db' oid = pools_of db oid \<and>
         (\<forall>a. db_read (a, oid) (adb_orders db') = db_read (a, oid) (adb_orders db))) \<and>
      (\<forall>a k. a \<noteq> aid \<longrightarrow> db_read (a, k) (adb_balances db') = db_read (a, k) (adb_balances db)) \<and>
      acct_engine t =
        fold (\<lambda>(o', pool). sync_order aid o' (unwrap_or 0 (get_order_matchable_amount (order_uuid o') db')) pool) L
          (fold (\<lambda>(o', pool). cancel_order o' pool) S (acct_engine s)))"

lemma refresh_has_effect:
  assumes "account_db_ok (acct_db s)" and "app_refresh_account aid rs bs s = Inr t" and "refresh_names aid rs (acct_db s)"
  shows "\<exists>S L. refresh_effect aid rs s t S L"
proof -
  let ?db = "acct_db s" and ?db1 = "fold (update_balance aid) bs (acct_db s)"
  let ?keep = "order_uuid ` refresh_order ` set rs"
  have c: "contains_account aid ?db" using assms(2) by (auto simp: app_refresh_account_def split: if_splits)
  obtain db2 S where f: "fold (remove_stale_order aid ?keep) (get_account_orders aid ?db1) (?db1, []) = (db2, S)" by fastforce
  note st = refresh_stale [OF assms(1) c refl f]
  obtain acc where acc: "try_fold (refresh_one aid) rs \<lparr>ref_db = db2, ref_orders = [], ref_updates = []\<rparr> = Inr acc"
      and t: "acct_db t = ref_db acc" "acct_engine t =
        fold (\<lambda>(o', pool). sync_order aid o' (unwrap_or 0 (get_order_matchable_amount (order_uuid o') (ref_db acc))) pool)
          (ref_orders acc) (fold (\<lambda>(o', pool). cancel_order o' pool) S (acct_engine s))"
    using assms(2) c f
    by (auto simp: app_refresh_account_def Let_def image_comp res_simps sync_refreshed_fields cancel_stale_fields)
  have "adb_order_index db2 (order_uuid (refresh_order r)) \<in> {None, Some aid}" if "r \<in> set rs" for r
    using assms(3) st(4) that by (cases "adb_order_index ?db (order_uuid (refresh_order r))") (auto simp: refresh_names_def)
  moreover have "distinct (map (order_uuid \<circ> refresh_order) rs)" using assms(3) by (simp add: refresh_names_def)
  ultimately obtain L where L: "ref_orders acc = L" "refreshed aid rs db2 (ref_db acc) L"
    using refresh_loop [OF acc] st(1,2) by auto
  note D = refreshedD [OF L(2)]
  have "refresh_effect aid rs s t S L"
    unfolding refresh_effect_def Let_def t(1)
  proof (intro conjI allI impI)
    show "\<forall>(o', pool) \<in> set L. adb_order_index (ref_db acc) (order_uuid o') = Some aid \<and>
         db_read (aid, order_uuid o') (adb_orders (ref_db acc)) = Some o' \<and> pools_of (ref_db acc) (order_uuid o') = pool"
    proof (intro ballI, clarify)
      fix o' pool
      assume in_L: "(o', pool) \<in> set L"
      then have "order_uuid o' \<in> (order_uuid \<circ> fst) ` set L" by force
      then show "adb_order_index (ref_db acc) (order_uuid o') = Some aid \<and>
         db_read (aid, order_uuid o') (adb_orders (ref_db acc)) = Some o' \<and> pools_of (ref_db acc) (order_uuid o') = pool"
        using D(4) D(7) [OF in_L] by simp
    qed
    show "\<forall>(o', pool) \<in> set S. tx_get_order (order_uuid o') ?db = Some o' \<and> pools_of ?db (order_uuid o') = pool"
      using st(8) by auto
    have "tx_get_order oid db2 = tx_get_order oid ?db" if "oid \<in> ?keep" for oid
      using st(4,5) that by (intro tx_get_order_cong) simp_all
    moreover have "order_uuid o' \<in> ?keep" if "(o', pool) \<in> set L" for o' pool using that D(3) by force
    ultimately show "\<forall>(o', pool) \<in> set L. \<exists>r \<in> set rs. order_uuid (refresh_order r) = order_uuid o' \<and>
        refresh_pool r = pool \<and> refresh_clamp (tx_get_order (order_uuid o') ?db) (refresh_order r) = o'"
      using D(8) by fastforce
    fix oid a k
    let ?ids = "(order_uuid \<circ> fst) ` set L"
    show "adb_order_index (ref_db acc) oid = (if oid \<in> own_orders aid ?db then None else adb_order_index ?db oid)"
      if "oid \<notin> ?ids" using D(4) [of oid] st(4) [of oid] that unfolding D(3) by auto
    show "pools_of (ref_db acc) oid = pools_of ?db oid" if "oid \<notin> ?ids \<union> own_orders aid ?db"
      using D(5) st(6) that by simp
    show "db_read (a, oid) (adb_orders (ref_db acc)) = db_read (a, oid) (adb_orders ?db)" if "oid \<notin> ?ids \<union> own_orders aid ?db"
      using D(6) st(5) that by simp
    show "db_read (a, k) (adb_balances (ref_db acc)) = db_read (a, k) (adb_balances ?db)" if "a \<noteq> aid"
      using D(2) st(3) that by simp
    show "account_db_ok (ref_db acc)" "?ids = ?keep" by (rule D(1,3))+
    show "(order_uuid \<circ> fst) ` set S = own_orders aid ?db - ?ids" unfolding D(3) by (rule st(7))
    show "acct_engine t =
        fold (\<lambda>(o', pool). sync_order aid o' (unwrap_or 0 (get_order_matchable_amount (order_uuid o') (ref_db acc))) pool) L
          (fold (\<lambda>(o', pool). cancel_order o' pool) S (acct_engine s))"
      using t(2) unfolding L(1) .
  qed
  then show ?thesis by blast
qed

text \<open>The pairs and pools that hold while the engine is brought up to date.\<close>

lemma refresh_guardD:
  assumes "refresh_guard aid rs db" and "oid \<in> order_uuid ` refresh_order ` set rs" and "adb_order_index db oid \<noteq> None"
  shows "oid \<in> own_orders aid db"
    and "r \<in> set rs \<Longrightarrow> order_uuid (refresh_order r) = oid \<Longrightarrow>
      pairs_of db oid = Some (order_pair (refresh_order r)) \<and> pools_of db oid = refresh_pool r"
  using assms by (auto simp: refresh_guard_defs own_orders_def)

lemma refresh_effect_named:
  assumes "refresh_effect aid rs s t S L" and "(o', pool) \<in> set L"
  shows "\<exists>r \<in> set rs. order_uuid (refresh_order r) = order_uuid o' \<and> refresh_pool r = pool \<and>
    refresh_clamp (tx_get_order (order_uuid o') (acct_db s)) (refresh_order r) = o'"
proof -
  have "\<forall>(o', pool) \<in> set L. \<exists>r \<in> set rs. order_uuid (refresh_order r) = order_uuid o' \<and> refresh_pool r = pool \<and>
      refresh_clamp (tx_get_order (order_uuid o') (acct_db s)) (refresh_order r) = o'"
    using assms(1) unfolding refresh_effect_def Let_def by (elim conjE)
  from bspec [OF this assms(2)] show ?thesis by simp
qed

lemma refresh_named:
  assumes "refresh_effect aid rs s t S L" and "refresh_guard aid rs (acct_db s)"
    and "oid \<in> (order_uuid \<circ> fst) ` set L" and "adb_order_index (acct_db s) oid \<noteq> None"
  shows "oid \<in> own_orders aid (acct_db s)" and "pairs_of (acct_db t) oid = pairs_of (acct_db s) oid"
    and "pools_of (acct_db t) oid = pools_of (acct_db s) oid"
proof -
  have ids: "oid \<in> order_uuid ` refresh_order ` set rs" using assms(1,3) by (simp add: refresh_effect_def Let_def)
  note g = refresh_guardD [OF assms(2) ids assms(4)]
  show "oid \<in> own_orders aid (acct_db s)" by (rule g(1))
  obtain o' pool where o': "(o', pool) \<in> set L" "order_uuid o' = oid" using assms(3) by auto
  then have L: "adb_order_index (acct_db t) oid = Some aid" "db_read (aid, oid) (adb_orders (acct_db t)) = Some o'"
      "pools_of (acct_db t) oid = pool"
    using assms(1) by (auto simp: refresh_effect_def Let_def)
  obtain r where "r \<in> set rs" "order_uuid (refresh_order r) = oid" "order_pair (refresh_order r) = order_pair o'"
      "refresh_pool r = pool"
    using refresh_effect_named [OF assms(1) o'(1)] o'(2) refresh_clamp_keeps(2) by metis
  moreover have "pairs_of (acct_db t) oid = Some (order_pair o')"
    using L by (simp add: pairs_of_def tx_get_order_def get_account_id_for_order_def)
  ultimately show "pairs_of (acct_db t) oid = pairs_of (acct_db s) oid" "pools_of (acct_db t) oid = pools_of (acct_db s) oid"
    using g(2) L(3) by auto
qed

lemma refresh_engine_start:
  assumes "acct_ok s" and "refresh_effect aid rs s t S L" and "refresh_guard aid rs (acct_db s)"
  defines "ids \<equiv> (order_uuid \<circ> fst) ` set L"
  shows "engine_ok (override_on (pools_of (acct_db s)) (pools_of (acct_db t)) ids) (acct_engine s)"
    and "booked (override_on (pairs_of (acct_db s)) (pairs_of (acct_db t)) ids) (own_orders aid (acct_db s))
      (acct_db t) (acct_engine s)"
proof -
  let ?db = "acct_db s" and ?db' = "acct_db t" and ?e = "acct_engine s"
  note ok = acct_okD [OF assms(1)]
  note E = assms(2) [unfolded refresh_effect_def Let_def, folded ids_def]
  note named = refresh_named [OF assms(2,3), folded ids_def]
  have same: "override_on (pairs_of ?db) (pairs_of ?db') ids oid = pairs_of ?db oid"
      "override_on (pools_of ?db) (pools_of ?db') ids oid = pools_of ?db oid" if "all_lookup ?e p oid = Some bo" for p oid bo
    using named [of oid] booked_index [OF ok(3) that] by (simp_all add: override_on_def)
  show "engine_ok (override_on (pools_of ?db) (pools_of ?db') ids) ?e"
    by (rule engine_ok_cong [OF ok(2)]) (rule same(2))
  show "booked (override_on (pairs_of ?db) (pairs_of ?db') ids) (own_orders aid ?db) ?db' ?e"
  proof (rule booked_db_mono [OF ok(3)])
    fix p oid bo
    assume l: "all_lookup ?e p oid = Some bo"
    show "override_on (pairs_of ?db) (pairs_of ?db') ids oid = pairs_of ?db oid" by (rule same(1) [OF l])
    assume out: "oid \<notin> own_orders aid ?db"
    then have ni: "oid \<notin> ids" using named(1) booked_index [OF ok(3) l] by blast
    have "entry_ok ?db' p oid bo = entry_ok ?db p oid bo"
    proof (rule entry_ok_cong)
      show "adb_order_index ?db' oid = adb_order_index ?db oid" using E ni out by auto
      fix a
      assume "adb_order_index ?db oid = Some a"
      then have "a \<noteq> aid" using out by (auto simp: own_orders_def)
      then show "db_read (a, oid) (adb_orders ?db') = db_read (a, oid) (adb_orders ?db) \<and>
          (\<forall>tok loc. db_read (a, loc, tok) (adb_balances ?db') = db_read (a, loc, tok) (adb_balances ?db))"
        using E ni out by auto
    qed
    then show "oid \<notin> {} \<and> (entry_ok ?db p oid bo \<longrightarrow> entry_ok ?db' p oid bo)" by simp
  qed
qed

lemma refresh_ok:
  assumes "acct_ok s" and "app_refresh_account aid rs bs s = Inr t" and "refresh_guard aid rs (acct_db s)"
  shows "acct_ok t"
proof -
  let ?db = "acct_db s" and ?db' = "acct_db t" and ?e = "acct_engine s"
  obtain S L where eff: "refresh_effect aid rs s t S L"
    using refresh_has_effect [OF acct_okD(1) [OF assms(1)] assms(2)] assms(3) by (auto simp: refresh_guard_def)
  note E = eff [unfolded refresh_effect_def Let_def]
  let ?ids = "(order_uuid \<circ> fst) ` set L"
  define pr where "pr = override_on (pairs_of ?db) (pairs_of ?db') ?ids"
  define pf where "pf = override_on (pools_of ?db) (pools_of ?db') ?ids"
  note start = refresh_engine_start [OF assms(1) eff assms(3), folded pr_def pf_def]
  have S: "pf (order_uuid o') = pool \<and> pr (order_uuid o') = Some (order_pair o')" if "(o', pool) \<in> set S" for o' pool
  proof -
    have "order_uuid o' \<in> (order_uuid \<circ> fst) ` set S" using that by force
    then have "order_uuid o' \<notin> ?ids" using E by auto
    then show ?thesis using E that by (auto simp: pf_def pr_def override_on_def pairs_of_def)
  qed
  let ?e1 = "fold (\<lambda>(o', pool). cancel_order o' pool) S ?e"
  have c: "engine_ok pf ?e1" "booked pr (own_orders aid ?db - (order_uuid \<circ> fst) ` set S) ?db' ?e1"
    using cancel_loop [OF start S] by simp_all
  have L: "pf (order_uuid o') = pool \<and> pr (order_uuid o') = Some (order_pair o') \<and>
      adb_order_index ?db' (order_uuid o') = Some aid \<and> db_read (aid, order_uuid o') (adb_orders ?db') = Some o'"
    if "(o', pool) \<in> set L" for o' pool
  proof -
    have "order_uuid o' \<in> ?ids" using that by force
    then show ?thesis using E that by (auto simp: pf_def pr_def override_on_def pairs_of_def tx_get_order_def get_account_id_for_order_def)
  qed
  have left: "own_orders aid ?db - (order_uuid \<circ> fst) ` set S - ?ids = {}" using E by blast
  have t: "acct_engine t =
      fold (\<lambda>(o', pool). sync_order aid o' (unwrap_or 0 (get_order_matchable_amount (order_uuid o') ?db')) pool) L ?e1"
    using E by blast
  have fin: "engine_ok pf (acct_engine t)" "booked pr {} ?db' (acct_engine t)"
    using sync_loop [where L = L, OF c L] unfolding left t by blast+
  have "engine_ok (pools_of ?db') (acct_engine t)"
  proof (rule engine_ok_cong [OF fin(1)])
    fix p oid bo
    assume "all_lookup (acct_engine t) p oid = Some bo"
    then have "adb_order_index ?db' oid \<noteq> None" by (rule booked_index [OF fin(2)])
    then have "oid \<in> ?ids \<or> oid \<notin> own_orders aid ?db" using E by auto
    then show "pools_of ?db' oid = pf oid" using E by (auto simp: pf_def override_on_def)
  qed
  then show ?thesis using acct_ok_alt [of t] fin(2) E by simp
qed

end
