(* ===== verification/Account_Machine.thy ===== *)
theory Account_Machine
  imports Account_Refresh
begin

text \<open>
  The account state machine: every account transition of \<open>state/src/applicator\<close>, together
  with the reservations and matches of the matching engine workers, and the invariant that the
  engine is a cache of the database as long as the transitions are orderly.
\<close>

section \<open>The machine\<close>

text \<open>
  An action is a transition of the applicator, or a reservation or a match of a worker.
  \<open>acct_exec\<close> is the state it leaves, with any arguments, and None where the applicator rejects
  the transition or the worker panics.
\<close>

datatype acct_action =
    ActCreateAccount account
  | ActAddOrderToAccount account_id order order_auth matching_pool_name
  | ActRemoveOrderFromAccount account_id order_id
  | ActUpdateOrder order
  | ActUpdateAccountBalance account_id balance
  | ActUpdateAccountKeychain account_id keychain
  | ActRefreshAccount account_id "order_refresh_data list" "balance list"
  | ActCreateMatchingPool matching_pool_name
  | ActDestroyMatchingPool matching_pool_name
  | ActAssignOrderToMatchingPool order_id matching_pool_name
  | ActSetAccountDefaultMatchingPool account_id "matching_pool_name option"
  | ActAddValidityProof validity_proof_locator validity_proof_bundle
  | ActAddMerkleProof merkle_proof_type opaque
  | ActReserveOrder order amount matching_pool_name
  | ActFindMatch account_id privacy_ring pair amount_range matching_pool_name ts_price bool

definition accepted :: "'e + 'a \<Rightarrow> 'a option" where
  "accepted r = (case r of Inl _ \<Rightarrow> None | Inr x \<Rightarrow> Some x)"

fun acct_exec :: "permit_scheme \<Rightarrow> (uuid \<Rightarrow> string) \<Rightarrow> acct_action \<Rightarrow> acct_state \<Rightarrow> acct_state option" where
  "acct_exec ps show_id (ActCreateAccount acct) s = accepted (app_create_account acct s)"
| "acct_exec ps show_id (ActAddOrderToAccount aid o' auth pool) s = accepted (app_add_order_to_account ps aid o' auth pool s)"
| "acct_exec ps show_id (ActRemoveOrderFromAccount aid oid) s = accepted (app_remove_order_from_account ps show_id aid oid s)"
| "acct_exec ps show_id (ActUpdateOrder o') s = accepted (app_update_order ps show_id o' s)"
| "acct_exec ps show_id (ActUpdateAccountBalance aid b) s = accepted (app_update_account_balance aid b s)"
| "acct_exec ps show_id (ActUpdateAccountKeychain aid k) s = accepted (app_update_account_keychain aid k s)"
| "acct_exec ps show_id (ActRefreshAccount aid rs bs) s = accepted (app_refresh_account aid rs bs s)"
| "acct_exec ps show_id (ActCreateMatchingPool pool) s = accepted (app_create_matching_pool pool s)"
| "acct_exec ps show_id (ActDestroyMatchingPool pool) s = accepted (app_destroy_matching_pool pool s)"
| "acct_exec ps show_id (ActAssignOrderToMatchingPool oid pool) s =
     accepted (app_assign_order_to_matching_pool show_id oid pool s)"
| "acct_exec ps show_id (ActSetAccountDefaultMatchingPool aid p) s = accepted (app_set_account_default_matching_pool aid p s)"
| "acct_exec ps show_id (ActAddValidityProof locator b) s = accepted (app_add_validity_proof locator b s)"
| "acct_exec ps show_id (ActAddMerkleProof pt path) s = accepted (app_add_merkle_proof pt path s)"
| "acct_exec ps show_id (ActReserveOrder o' a pool) s = Some (s\<lparr>acct_engine := reserve_order o' a pool (acct_engine s)\<rparr>)"
| "acct_exec ps show_id (ActFindMatch excl rg ip rng pool ts ext) s =
     map_option (\<lambda>(r, e'). s\<lparr>acct_engine := e'\<rparr>) (find_match_helper excl rg ip rng pool ts ext (acct_engine s))"

text \<open>
  The cache is exact only for orderly actions, and the applicator does not check that they are:
  an order is added under an identifier that is not in use, is removed by the account that owns it
  and is updated without changing its pair; a refresh names each order once and reports its owner,
  pair and pool as they are stored; a pool is destroyed only when it is empty; an order is moved only
  to a pool that has a book for its pair; and a reservation names the pool of its order. Some callers
  check some of this beforehand, outside the transition (the emptiness of a pool, for one); no caller
  checks that a pool has a book, and the pools of a refresh are what the indexer says.
\<close>

fun orderly :: "acct_action \<Rightarrow> acct_state \<Rightarrow> bool" where
  "orderly (ActAddOrderToAccount aid o' auth pool) s = (get_account_id_for_order (order_uuid o') (acct_db s) = None)"
| "orderly (ActRemoveOrderFromAccount aid oid) s = (get_account_id_for_order oid (acct_db s) = Some aid)"
| "orderly (ActUpdateOrder o') s =
     (case tx_get_order (order_uuid o') (acct_db s) of None \<Rightarrow> True | Some old \<Rightarrow> order_pair o' = order_pair old)"
| "orderly (ActRefreshAccount aid rs bs) s = refresh_guard aid rs (acct_db s)"
| "orderly (ActDestroyMatchingPool pool) s = matching_pool_is_empty pool (acct_db s)"
| "orderly (ActAssignOrderToMatchingPool oid pool) s =
     (case tx_get_order oid (acct_db s) of
        None \<Rightarrow> True
      | Some o' \<Rightarrow> book_map (acct_engine s) (order_pair o', pool) \<noteq> None)"
| "orderly (ActReserveOrder o' a pool) s = (pool = get_matching_pool_for_order (order_uuid o') (acct_db s))"
| "orderly _ s = True"

definition acct_step :: "permit_scheme \<Rightarrow> (uuid \<Rightarrow> string) \<Rightarrow> acct_state \<Rightarrow> acct_state \<Rightarrow> bool" where
  "acct_step ps show_id s t \<longleftrightarrow> (\<exists>act. orderly act s \<and> acct_exec ps show_id act s = Some t)"

definition acct_init :: "acct_state \<Rightarrow> bool" where
  "acct_init s \<longleftrightarrow>
     acct_db s = account_db_new\<lparr>adb_executor := adb_executor (acct_db s)\<rparr> \<and> acct_engine s = engine_new"

lemma acct_init_ok: "acct_init s \<Longrightarrow> acct_ok s"
proof -
  assume i: "acct_init s"
  let ?x = "adb_executor (acct_db s)"
  have "account_db_ok (account_db_new\<lparr>adb_executor := ?x\<rparr>)"
    using account_db_ok_new by (simp add: account_db_ok_def contains_account_def get_account_header_def)
  moreover have "engine_ok pf engine_new" "booked pr {} db engine_new" for pf pr db
    by (simp_all add: engine_ok_def engine_new_def books_ok_def views_agree_def booked_def pool_lookup_def all_lookup_def)
  ultimately show "acct_ok s" using i unfolding acct_init_def acct_ok_def by metis
qed

lemma accepted_iff [simp]: "accepted r = Some x \<longleftrightarrow> r = Inr x"
  by (simp add: accepted_def split: sum.splits)

lemma acct_stepI: "acct_exec ps show_id act s = Some t \<Longrightarrow> orderly act s \<Longrightarrow> acct_step ps show_id s t"
  by (auto simp: acct_step_def)

lemma orderly_exec_ok:
  assumes "acct_ok s" and "orderly act s" and "acct_exec ps show_id act s = Some t"
  shows "acct_ok t"
  using assms(2,3)
proof (cases act)
  case (ActAddOrderToAccount aid o' auth pool)
  show ?thesis
    by (rule add_order_ok [OF assms(1)]) (use assms(2,3) ActAddOrderToAccount in \<open>simp_all add: get_account_id_for_order_def\<close>)
next
  case (ActRemoveOrderFromAccount aid oid)
  show ?thesis
    by (rule remove_order_ok [OF assms(1)]) (use assms(2,3) ActRemoveOrderFromAccount in \<open>simp_all add: get_account_id_for_order_def\<close>)
next
  case (ActUpdateOrder o')
  show ?thesis by (rule update_order_ok [OF assms(1)]) (use assms(2,3) ActUpdateOrder in auto)
next
  case (ActRefreshAccount aid rs bs)
  show ?thesis by (rule refresh_ok [OF assms(1)]) (use assms(2,3) ActRefreshAccount in simp_all)
next
  case (ActDestroyMatchingPool pool)
  show ?thesis by (rule destroy_pool_ok [OF assms(1)]) (use assms(2,3) ActDestroyMatchingPool in simp_all)
next
  case (ActAssignOrderToMatchingPool oid pool)
  show ?thesis by (rule assign_pool_ok [OF assms(1)]) (use assms(2,3) ActAssignOrderToMatchingPool in auto)
next
  case (ActReserveOrder o' a pool)
  then have t: "t = s\<lparr>acct_engine := reserve_order o' a pool (acct_engine s)\<rparr>" using assms(3) by simp
  show ?thesis unfolding t by (rule reserve_ok [OF assms(1)]) (use assms(2) ActReserveOrder in simp)
next
  case (ActFindMatch excl rg ip rng pool ts ext)
  then obtain x where r: "find_match_helper excl rg ip rng pool ts ext (acct_engine s) = Some (fst x, snd x)"
      and t: "t = s\<lparr>acct_engine := snd x\<rparr>"
    using assms(3) by (cases "find_match_helper excl rg ip rng pool ts ext (acct_engine s)") (simp_all add: case_prod_beta)
  show ?thesis unfolding t by (rule find_match_ok [OF assms(1) r])
next
  case (ActAddMerkleProof pt path)
  then show ?thesis using assms(3) merkle_ok [OF assms(1), of pt path] by (simp add: app_add_merkle_proof_def)
next
  case (ActCreateAccount acct)
  show ?thesis by (rule create_account_ok [OF assms(1)]) (use assms(3) ActCreateAccount in simp)
next
  case (ActUpdateAccountBalance aid b)
  show ?thesis by (rule update_balance_ok [OF assms(1)]) (use assms(3) ActUpdateAccountBalance in simp)
next
  case (ActUpdateAccountKeychain aid k)
  show ?thesis by (rule update_keychain_ok [OF assms(1)]) (use assms(3) ActUpdateAccountKeychain in simp)
next
  case (ActCreateMatchingPool pool)
  show ?thesis by (rule create_pool_ok [OF assms(1)]) (use assms(3) ActCreateMatchingPool in simp)
next
  case (ActSetAccountDefaultMatchingPool aid p)
  show ?thesis by (rule default_pool_ok [OF assms(1)]) (use assms(3) ActSetAccountDefaultMatchingPool in simp)
next
  case (ActAddValidityProof locator b)
  show ?thesis by (rule proof_ok [OF assms(1)]) (use assms(3) ActAddValidityProof in simp)
qed

lemma acct_step_ok: "acct_step ps show_id s t \<Longrightarrow> acct_ok s \<Longrightarrow> acct_ok t"
  unfolding acct_step_def by (elim exE conjE) (rule orderly_exec_ok)

interpretation acct_sys: invariant_system acct_init "acct_step ps show_id" acct_ok for ps show_id
  by unfold_locales (rule acct_init_ok, assumption, rule acct_step_ok)

lemmas reachable_acct_ok = acct_sys.reachable_inv

section \<open>An example run\<close>

text \<open>
  Account 11 is created, receives 30 units of token 1 and places a public order for 100 units
  in the global pool. The permit is the low byte of the intent's amount.
\<close>

definition example_ps :: permit_scheme where
  "example_ps = \<lparr>permit_of = \<lambda>i _. [ucast (amount_in i)], permit_hash = \<lambda>p. ucast (hd (p @ [0])),
     signer_address = \<lambda>_. Inr 0\<rparr>"

definition example_show :: "uuid \<Rightarrow> string" where
  "example_show _ = ''id''"

definition example_acct0 :: acct_state where
  "example_acct0 = \<lparr>acct_db = account_db_new\<lparr>adb_executor := Some ''key''\<rparr>, acct_engine = engine_new, acct_bus = []\<rparr>"

definition example_acct1 :: acct_state where
  "example_acct1 = projr (app_create_account (example_account\<lparr>balances := Map.empty\<rparr>) example_acct0)"

definition example_acct2 :: acct_state where
  "example_acct2 = projr (app_update_account_balance 11 (new_eoa (example_balance 30)) example_acct1)"

definition example_acct3 :: acct_state where
  "example_acct3 = projr (app_add_order_to_account example_ps 11 example_order (PublicOrder [100] []) ''global'' example_acct2)"

lemma example_step1: "app_create_account (example_account\<lparr>balances := Map.empty\<rparr>) example_acct0 = Inr example_acct1"
  by (simp add: example_acct1_def app_create_account_def example_account_def account_new_def)

lemma example_db1:
  "acct_db example_acct1 = account_db_new\<lparr>adb_executor := Some ''key'',
     adb_headers := [(11, \<lparr>header_id = 11, header_keychain = account_keychain example_account\<rparr>)]\<rparr>"
  "acct_engine example_acct1 = engine_new"
  by (simp_all add: example_acct1_def app_create_account_def example_account_def account_new_def new_account_def
      example_acct0_def account_db_new_def)

lemma example_step2: "app_update_account_balance 11 (new_eoa (example_balance 30)) example_acct1 = Inr example_acct2"
  by (simp add: example_acct2_def app_update_account_balance_def example_db1 tx_defs account_db_new_def Let_def)

lemma example_db2:
  "acct_db example_acct2 = (acct_db example_acct1)\<lparr>adb_balances := [((11, EOA, 1), new_eoa (example_balance 30))]\<rparr>"
  "acct_engine example_acct2 = engine_new"
  by (simp_all add: example_acct2_def app_update_account_balance_def example_db1 tx_defs account_db_new_def Let_def
      example_order_fields update_matchable_amounts_def get_orders_with_input_token_def account_entries_def)

lemma example_step3:
  "app_add_order_to_account example_ps 11 example_order (PublicOrder [100] []) ''global'' example_acct2 = Inr example_acct3"
  by (simp add: example_acct3_def app_add_order_to_account_def example_db2 example_db1 tx_defs account_db_new_def Let_def
      matching_pool_exists_def GLOBAL_MATCHING_POOL_def assign_order_to_matching_pool_def)

lemma example_db3:
  "tx_get_order 21 (acct_db example_acct3) = Some example_order"
  "get_account_id_for_order 21 (acct_db example_acct3) = Some 11"
  "get_matching_pool_for_order 21 (acct_db example_acct3) = ''global''"
  "get_order_matchable_amount 21 (acct_db example_acct3) = Some 30"
  "acct_engine example_acct3 = upsert_order 11 example_order 30 ''global'' engine_new"
  "adb_executor (acct_db example_acct3) = Some ''key''"
  "get_order_by_intent_hash 100 (acct_db example_acct3) = Some (11, 21)"
  "contains_account 11 (acct_db example_acct3)"
  by (simp_all add: example_acct3_def app_add_order_to_account_def example_db2 example_db1 tx_defs account_db_new_def Let_def
      matching_pool_exists_def GLOBAL_MATCHING_POOL_def assign_order_to_matching_pool_def matchable_amount_eq
      stored_matchable_def example_order_fields get_order_by_intent_hash_def example_ps_def)

lemma example_reachable2: "reachable acct_init (acct_step example_ps example_show) example_acct2"
proof (rule reach_step [OF reach_step [OF reach_init]])
  show "acct_init example_acct0" by (simp add: acct_init_def example_acct0_def account_db_new_def)
  show "acct_step example_ps example_show example_acct0 example_acct1" by (rule acct_stepI [of _ _ "ActCreateAccount (example_account\<lparr>balances := Map.empty\<rparr>)"]) (simp_all add: example_step1)
  show "acct_step example_ps example_show example_acct1 example_acct2" by (rule acct_stepI [of _ _ "ActUpdateAccountBalance 11 (new_eoa (example_balance 30))"]) (simp_all add: example_step2)
qed

lemma example_reachable: "reachable acct_init (acct_step example_ps example_show) example_acct3"
  by (rule reach_step [OF example_reachable2],
      rule acct_stepI [of _ _ "ActAddOrderToAccount 11 example_order (PublicOrder [100] []) ''global''"])
    (simp_all add: example_step3 example_db2 example_db1 tx_defs account_db_new_def)

text \<open>A fill of 40 units leaves 60 of the order.\<close>

definition example_filled :: order where
  "example_filled = (let o' = snd (decrement_amount_in 40 example_order) in o'\<lparr>metadata := (metadata o')\<lparr>has_been_filled := True\<rparr>\<rparr>)"

definition example_acct4 :: acct_state where
  "example_acct4 = projr (app_update_order example_ps example_show example_filled example_acct3)"

lemma example_filled_fields:
  "order_uuid example_filled = 21" "order_amount_in example_filled = 60" "order_pair example_filled = order_pair example_order"
  "has_been_filled (metadata example_filled)" "amount_in (inner (order_intent example_filled)) = 60"
  by (simp_all add: example_filled_def decrement_amount_in_def Let_def order_amount_in_def order_pair_def
      example_order_def order_new_with_ring_def example_defs)

lemma example_step4:
  "app_update_order example_ps example_show example_filled example_acct3 = Inr example_acct4"
  "acct_db example_acct4 = tx_update_order 11 example_filled (acct_db example_acct3)"
  by (simp_all add: example_acct4_def app_update_order_def example_filled_fields example_db3 Let_def example_order_fields)

lemma example_reachable4: "reachable acct_init (acct_step example_ps example_show) example_acct4"
  by (rule reach_step [OF example_reachable], rule acct_stepI [of _ _ "ActUpdateOrder example_filled"])
    (simp_all add: example_step4(1) example_filled_fields example_db3)

lemma example_db4:
  "tx_get_order 21 (acct_db example_acct4) = Some example_filled" "get_account_id_for_order 21 (acct_db example_acct4) = Some 11"
  "get_matching_pool_for_order 21 (acct_db example_acct4) = ''global''" "contains_account 11 (acct_db example_acct4)"
  using example_db3(1-3,8) by (auto simp: example_step4(2) tx_defs example_filled_fields split: option.splits)

section \<open>Properties\<close>

lemma entry_ok_amounts:
  assumes "entry_ok db p oid bo"
  obtains aid o' where "get_account_id_for_order oid db = Some aid" "tx_get_order oid db = Some o'" "order_pair o' = p"
    "bo = book_order_new aid o' (matchable_amount bo)"
    "get_order_matchable_amount oid db = Some (stored_matchable aid db o')" "matchable_amount bo \<le> stored_matchable aid db o'"
proof -
  obtain aid o' where e: "adb_order_index db oid = Some aid" "db_read (aid, oid) (adb_orders db) = Some o'"
      "order_pair o' = p" "bo = book_order_new aid o' (matchable_amount bo)" "matchable_amount bo \<le> stored_matchable aid db o'"
    using assms unfolding entry_ok_def by blast
  show thesis
    using that [of aid o'] e by (simp add: get_account_id_for_order_def tx_get_order_def matchable_amount_eq)
qed

lemma pool_entry_ok:
  assumes "acct_ok s" and "pool_lookup (acct_engine s) p pool oid = Some bo"
  shows "entry_ok (acct_db s) p oid bo" and "get_matching_pool_for_order oid (acct_db s) = pool"
proof -
  note ok = acct_okD [OF assms(1)]
  have "pool = pools_of (acct_db s) oid \<and> all_lookup (acct_engine s) p oid = Some bo"
    using ok(2) assms(2) by (auto simp: engine_ok_def views_agree_def split: if_splits)
  then show "entry_ok (acct_db s) p oid bo" "get_matching_pool_for_order oid (acct_db s) = pool"
    using bookedD(2) [OF ok(3)] by (auto simp: pools_of_def)
qed




lemma example_covered_match:
  "\<exists>m e'. find_match_helper 6 Ring1 (pair_new 2 1) (1, 20) ''global'' example_price False (acct_engine example_acct3) = Some (Some m, e')"
proof -
  let ?e = "acct_engine example_acct3"
  have pair: "order_pair example_order = pair_new 1 2" "pair_reverse (pair_new 2 1) = pair_new 1 2"
    by (simp_all add: order_pair_def example_order_def order_new_with_ring_def example_defs pair_reverse_def pair_new_def)
  have books: "books_ok ?e" using acct_okD(2) [OF reachable_acct_ok [OF example_reachable]] by (simp add: engine_ok_def)
  obtain b where b: "book_map ?e (pair_new 1 2, ''global'') = Some b" "b = upsert_book 11 example_order 30 book_new"
    by (simp add: example_db3 upsert_order_def Let_def pair engine_new_def)
  have one: "fp_inverse (ts_price_fp example_price) = Some fp_one" by (simp add: example_price_def fp_inverse_one)
  have l: "order_map b 21 = Some (book_order_new 11 example_order 30)"
    by (simp add: b(2) upsert_book_map example_order_fields)
  have el: "eligible 6 Ring1 fp_one (1, 20) False (book_order_new 11 example_order 30)"
    by (simp add: eligible_def book_order_new_def example_order_def order_new_with_ring_def order_metadata_new_def
        order_min_price_def order_min_fill_size_def example_defs can_cross_with_def)
  have ok: "book_ok b" by (rule books_ok_book [OF books b(1)])
  obtain res where res: "find_match 6 Ring1 fp_one (1, 20) False b = Some res" using bk.find_total [OF ok] by blast
  have "book_order_new 11 example_order 30 \<in> ran (order_map b)" using l by (rule ranI)
  then have "res \<noteq> None" using bk.find_None_iff [OF ok, of 6 Ring1 fp_one "(1, 20)" False] res el by auto
  then obtain r where "find_match 6 Ring1 fp_one (1, 20) False b = Some (Some r)" using res by blast
  then show ?thesis
    using b(1) one by (cases r) (simp add: find_match_helper_def Let_def pair example_price_def example_range build_match_result_def)
qed





definition example_refresh :: order_refresh_data where
  "example_refresh = \<lparr>refresh_order = example_order, refresh_pool = ''global'', refresh_auth = PublicOrder [100] []\<rparr>"

lemma example_refresh_accepted: "\<exists>t. app_refresh_account 11 [example_refresh] [] example_acct4 = Inr t"
proof -
  let ?db = "acct_db example_acct4"
  obtain db2 S where "fold (remove_stale_order 11 {21}) (get_account_orders 11 ?db) (?db, []) = (db2, S)" by fastforce
  then show ?thesis
    using example_db4(4)
    by (simp add: app_refresh_account_def Let_def example_refresh_def example_order_fields refresh_one_def
        matching_pool_exists_def assign_order_to_matching_pool_def GLOBAL_MATCHING_POOL_def)
qed


lemma all_pools_cancel: "all_pools_book (cancel_order o' pool e) p = None \<longleftrightarrow> all_pools_book e p = None"
  by (auto simp: cancel_order_def Let_def split: option.splits)

text \<open>
  C33. Moving an order to a pool that has no book for its pair takes the order off every pool.
  The transition is accepted and records the new pool, but the engine is updated only in books
  that exist: no pool shows the order any more, while the book over all pools still offers it.
\<close>

theorem pool_move_splits_views:
  assumes "reachable acct_init (acct_step ps show_id) s" and "tx_get_order oid (acct_db s) = Some o'"
    and "matching_pool_exists pool (acct_db s)" and "book_map (acct_engine s) (order_pair o', pool) = None"
    and "all_pools_book (acct_engine s) (order_pair o') \<noteq> None"
  shows "\<exists>t. app_assign_order_to_matching_pool show_id oid pool s = Inr t \<and>
     get_matching_pool_for_order oid (acct_db t) = pool \<and>
     (\<forall>p. pool_lookup (acct_engine t) (order_pair o') p oid = None) \<and>
     all_lookup (acct_engine t) (order_pair o') oid \<noteq> None"
proof -
  let ?db = "acct_db s" and ?e = "acct_engine s"
  note ok = acct_okD [OF reachable_acct_ok [OF assms(1)]]
  obtain aid where aid: "adb_order_index ?db oid = Some aid" "db_read (aid, oid) (adb_orders ?db) = Some o'"
    using assms(2) by (auto simp: tx_get_order_iff)
  have uuid: "order_uuid o' = oid" using account_okD(7) [OF ok(1) aid(2)] by simp
  have pair: "pairs_of ?db (order_uuid o') = Some (order_pair o')" using assms(2) uuid by (simp add: pairs_of_def)
  note left = leave_pool [OF ok(2,3) pair, unfolded uuid]
  let ?e1 = "if engine_contains_order o' (pools_of ?db oid) ?e then cancel_order o' (pools_of ?db oid) ?e else ?e"
  have none: "pool_lookup ?e1 (order_pair o') p oid = None" for p
    using left(1,3) unfolding engine_ok_def views_agree_def by metis
  obtain db' where db': "assign_order_to_matching_pool oid pool ?db = Inr db'"
    using assms(3) by (cases "pool = GLOBAL_MATCHING_POOL") (auto simp: assign_order_to_matching_pool_def)
  have pool: "get_matching_pool_for_order oid db' = pool" using account_ok_assign(2) [OF ok(1) db', of oid] aid(1) by simp
  let ?t = "s\<lparr>acct_engine := engine_update_order aid o' (stored_matchable aid ?db o') pool ?e1, acct_db := db'\<rparr>"
  have t: "app_assign_order_to_matching_pool show_id oid pool s = Inr ?t"
    using assms(2,3) aid db' matchable_stored [OF aid]
    by (simp add: app_assign_order_to_matching_pool_def update_matching_engine_after_order_assignment_def Let_def
        get_account_id_for_order_def pools_of_def)
  have no_book: "book_map ?e1 (order_pair o', pool) = None" unfolding left(4) by (rule assms(4))
  obtain b where b: "all_pools_book ?e1 (order_pair o') = Some b"
    using assms(5) all_pools_cancel [of o' "pools_of ?db oid" ?e "order_pair o'"] by (cases "all_pools_book ?e1 (order_pair o')") (auto split: if_splits)
  have upd: "engine_update_order aid o' a pool ?e1 =
      ?e1\<lparr>all_pools_book := (all_pools_book ?e1)(order_pair o' \<mapsto> update_order aid o' a b)\<rparr>" for a
    using no_book b by (simp add: engine_update_order_def Let_def)
  have "pool_lookup (acct_engine ?t) (order_pair o') p oid = None" for p
    using none by (simp add: upd pool_lookup_def)
  moreover have "all_lookup (acct_engine ?t) (order_pair o') oid \<noteq> None"
    by (simp add: upd all_lookup_def bk.lookup_update uuid)
  ultimately show ?thesis using t pool by (intro exI [of _ ?t]) simp
qed

definition example_acct5 :: acct_state where
  "example_acct5 = projr (app_create_matching_pool ''side'' example_acct3)"

lemma example_db5:
  "app_create_matching_pool ''side'' example_acct3 = Inr example_acct5"
  "acct_db example_acct5 = (acct_db example_acct3)\<lparr>adb_pool_exists := [''side'' \<mapsto> True]\<rparr>"
  "acct_engine example_acct5 = acct_engine example_acct3"
proof -
  have "adb_pool_exists (acct_db example_acct3) = Map.empty"
    by (simp add: example_acct3_def app_add_order_to_account_def example_db2 example_db1 tx_defs account_db_new_def Let_def
        matching_pool_exists_def GLOBAL_MATCHING_POOL_def assign_order_to_matching_pool_def example_ps_def)
  then show "app_create_matching_pool ''side'' example_acct3 = Inr example_acct5"
      "acct_db example_acct5 = (acct_db example_acct3)\<lparr>adb_pool_exists := [''side'' \<mapsto> True]\<rparr>"
      "acct_engine example_acct5 = acct_engine example_acct3"
    by (simp_all add: example_acct5_def app_create_matching_pool_def create_matching_pool_def matching_pool_exists_def
        GLOBAL_MATCHING_POOL_def)
qed

lemma example_reachable5: "reachable acct_init (acct_step example_ps example_show) example_acct5"
  by (rule reach_step [OF example_reachable], rule acct_stepI [of _ _ "ActCreateMatchingPool ''side''"])
    (simp_all add: example_db5(1))

theorem pool_move_splits_views_witness:
  "\<exists>t. app_assign_order_to_matching_pool example_show 21 ''side'' example_acct5 = Inr t \<and>
     pool_lookup (acct_engine t) (order_pair example_order) ''side'' 21 = None \<and>
     all_lookup (acct_engine t) (order_pair example_order) 21 \<noteq> None"
proof -
  have r: "reachable acct_init (acct_step example_ps example_show) example_acct5"
    by (rule example_reachable5)
  have o': "tx_get_order 21 (acct_db example_acct5) = Some example_order"
    using example_db3(1) by (simp add: example_db5(2) tx_get_order_iff)
  have "matching_pool_exists ''side'' (acct_db example_acct5)"
      "book_map (acct_engine example_acct5) (order_pair example_order, ''side'') = None"
      "all_pools_book (acct_engine example_acct5) (order_pair example_order) \<noteq> None"
    by (simp_all add: example_db5 example_db3 matching_pool_exists_def upsert_order_def Let_def engine_new_def)
  then show ?thesis using pool_move_splits_views [OF r o', of "''side''"] by blast
qed

lemma pool_lookup_elsewhere:
  assumes "order_uuid o' \<noteq> oid \<or> pool' \<noteq> pool"
  shows "pool_lookup (cancel_order o' pool' e) p pool oid = pool_lookup e p pool oid"
    and "pool_lookup (sync_order aid o' a pool' e) p pool oid = pool_lookup e p pool oid"
  using assms cancel_updates_at [of o' pool' e] upsert_updates_at [of aid o' a pool' e]
  by (auto simp: sync_order_def updates_at_def)

lemma cancel_loop_elsewhere:
  "(\<And>o' pl. (o', pl) \<in> set S \<Longrightarrow> order_uuid o' \<noteq> oid \<or> pl \<noteq> pool) \<Longrightarrow>
   pool_lookup (fold (\<lambda>(o', pool). cancel_order o' pool) S e) p pool oid = pool_lookup e p pool oid"
  by (induction S arbitrary: e) (force simp: pool_lookup_elsewhere(1))+

lemma sync_loop_elsewhere:
  "(\<And>o' pl. (o', pl) \<in> set L \<Longrightarrow> order_uuid o' \<noteq> oid \<or> pl \<noteq> pool) \<Longrightarrow>
   pool_lookup (fold (\<lambda>(o', pool). sync_order aid o' (f o') pool) L e) p pool oid = pool_lookup e p pool oid"
  by (induction L arbitrary: e) (force simp: pool_lookup_elsewhere(2))+

lemma refresh_effectD:
  assumes "refresh_effect aid rs s t S L"
  shows "(order_uuid \<circ> fst) ` set L = order_uuid ` refresh_order ` set rs"
    and "(order_uuid \<circ> fst) ` set S = own_orders aid (acct_db s) - (order_uuid \<circ> fst) ` set L"
    and "(o', pool) \<in> set L \<Longrightarrow> pools_of (acct_db t) (order_uuid o') = pool"
    and "acct_engine t = fold (\<lambda>(o', pool). sync_order aid o'
        (unwrap_or 0 (get_order_matchable_amount (order_uuid o') (acct_db t))) pool) L
        (fold (\<lambda>(o', pool). cancel_order o' pool) S (acct_engine s))"
proof -
  note E = assms [unfolded refresh_effect_def Let_def]
  show "(order_uuid \<circ> fst) ` set L = order_uuid ` refresh_order ` set rs" using E by (elim conjE)
  show "(order_uuid \<circ> fst) ` set S = own_orders aid (acct_db s) - (order_uuid \<circ> fst) ` set L"
    using E by (elim conjE)
  show "acct_engine t = fold (\<lambda>(o', pool). sync_order aid o'
        (unwrap_or 0 (get_order_matchable_amount (order_uuid o') (acct_db t))) pool) L
        (fold (\<lambda>(o', pool). cancel_order o' pool) S (acct_engine s))"
    using E by (elim conjE)
  have "\<forall>(o', pool) \<in> set L. adb_order_index (acct_db t) (order_uuid o') = Some aid \<and>
      db_read (aid, order_uuid o') (adb_orders (acct_db t)) = Some o' \<and> pools_of (acct_db t) (order_uuid o') = pool"
    using E by (elim conjE)
  from bspec [OF this] show "pools_of (acct_db t) (order_uuid o') = pool" if "(o', pool) \<in> set L"
    using that by fastforce
qed

text \<open>
  C18. A refresh that reports another pool for an order leaves the order in its old pool's book.
  The transition is accepted and records the reported pool, but it updates the engine in that pool
  only: the old pool goes on offering the order, at the terms and for the amount of before the refresh.
\<close>

theorem refresh_keeps_old_pool_book:
  assumes "reachable acct_init (acct_step ps show_id) s" and "refresh_names aid rs (acct_db s)"
    and "app_refresh_account aid rs bs s = Inr t" and "r \<in> set rs"
    and "pool_lookup (acct_engine s) p old (order_uuid (refresh_order r)) = Some bo" and "refresh_pool r \<noteq> old"
  shows "get_matching_pool_for_order (order_uuid (refresh_order r)) (acct_db t) = refresh_pool r \<and>
     pool_lookup (acct_engine t) p old (order_uuid (refresh_order r)) = Some bo"
proof -
  let ?oid = "order_uuid (refresh_order r)"
  obtain S L where eff: "refresh_effect aid rs s t S L"
    using refresh_has_effect [OF acct_okD(1) [OF reachable_acct_ok [OF assms(1)]] assms(3,2)] by blast
  note E = refresh_effectD [OF eff]
  have pool: "pl = refresh_pool r" if in_L: "(o', pl) \<in> set L" and uuid: "order_uuid o' = ?oid" for o' pl
  proof -
    obtain r' where "r' \<in> set rs" "order_uuid (refresh_order r') = ?oid" "refresh_pool r' = pl"
      using refresh_effect_named [OF eff in_L] uuid by auto
    then show ?thesis using assms(2,4) by (auto simp: refresh_names_def distinct_map inj_on_def)
  qed
  have oid: "?oid \<in> (order_uuid \<circ> fst) ` set L" using assms(4) unfolding E(1) by blast
  then obtain o' pl where o': "(o', pl) \<in> set L" "order_uuid o' = ?oid" by auto
  then have "pools_of (acct_db t) ?oid = pl" using E(3) [OF o'(1)] by simp
  then have db: "get_matching_pool_for_order ?oid (acct_db t) = refresh_pool r"
    using pool [OF o'] by (simp add: pools_of_def)
  have "?oid \<notin> (order_uuid \<circ> fst) ` set S" using oid unfolding E(2) by blast
  then have S: "order_uuid o' \<noteq> ?oid \<or> pl \<noteq> old" if "(o', pl) \<in> set S" for o' pl
    using that by force
  have L: "order_uuid o' \<noteq> ?oid \<or> pl \<noteq> old" if "(o', pl) \<in> set L" for o' pl
    using pool [OF that] assms(6) by auto
  have "pool_lookup (acct_engine t) p old ?oid = Some bo"
    using assms(5) by (simp add: E(4) sync_loop_elsewhere [OF L] cancel_loop_elsewhere [OF S])
  then show ?thesis using db by blast
qed

lemma example_moved_accepted:
  "\<exists>t. app_refresh_account 11 [example_refresh\<lparr>refresh_pool := ''side''\<rparr>] [] example_acct5 = Inr t"
proof -
  let ?db = "acct_db example_acct5"
  have orders: "get_account_orders 11 ?db = [example_order]"
    by (simp add: example_db5(2) example_acct3_def app_add_order_to_account_def example_db2 example_db1 tx_defs
        account_db_new_def Let_def matching_pool_exists_def GLOBAL_MATCHING_POOL_def
        assign_order_to_matching_pool_def get_account_orders_def fetch_orders_for_account_def account_entries_def
        example_order_fields)
  have "contains_account 11 ?db" "matching_pool_exists ''side'' ?db"
    using example_db3(8) by (simp_all add: example_db5(2) contains_account_def get_account_header_def matching_pool_exists_def)
  then show ?thesis
    by (simp add: app_refresh_account_def Let_def orders example_refresh_def example_order_fields refresh_one_def
        remove_stale_order_def assign_order_to_matching_pool_def tx_defs matching_pool_exists_def GLOBAL_MATCHING_POOL_def)
qed

theorem refresh_keeps_old_pool_book_witness:
  "\<exists>t. app_refresh_account 11 [example_refresh\<lparr>refresh_pool := ''side''\<rparr>] [] example_acct5 = Inr t \<and>
     get_matching_pool_for_order 21 (acct_db t) = ''side'' \<and>
     pool_lookup (acct_engine t) (order_pair example_order) ''global'' 21 = Some (book_order_new 11 example_order 30)"
proof -
  let ?r = "example_refresh\<lparr>refresh_pool := ''side''\<rparr>"
  obtain t where t: "app_refresh_account 11 [?r] [] example_acct5 = Inr t" using example_moved_accepted by blast
  have "adb_order_index (acct_db example_acct5) 21 = Some 11"
    using example_db3(2) by (simp add: example_db5(2) get_account_id_for_order_def)
  then have n: "refresh_names 11 [?r] (acct_db example_acct5)"
    by (simp add: refresh_names_def example_refresh_def example_order_fields)
  have "pool_lookup (acct_engine example_acct5) (order_pair example_order) ''global'' (order_uuid (refresh_order ?r)) =
      Some (book_order_new 11 example_order 30)"
    using upsert_updates_at [of 11 example_order 30 "''global''" engine_new]
    by (simp add: example_db5(3) example_db3 updates_at_def example_order_fields example_refresh_def)
  from refresh_keeps_old_pool_book [OF example_reachable5 n t _ this]
  show ?thesis using t by (simp add: example_refresh_def example_order_fields)
qed

text \<open>
  C34. The intent index outlives a public order that was partially filled. The index entry is
  written under the hash of the permit the owner signed, but the removal looks for the hash of
  a permit built from what is left of the intent. When the two hashes differ the removed order
  is still found by its intent hash, and the identifier it gives leads nowhere.
\<close>

theorem filled_order_leaves_intent:
  assumes "app_add_order_to_account ps aid o1 (PublicOrder p sig) pool s = Inr s1"
    and "order_uuid o2 = order_uuid o1" and "order_amount_in o2 \<noteq> 0" and "app_update_order ps show_id o2 s1 = Inr s2"
    and "get_executor_key ps (acct_db s) = Inr ex" and "permit_hash ps (permit_of ps (inner (order_intent o2)) ex) \<noteq> permit_hash ps p"
  shows "\<exists>t. app_remove_order_from_account ps show_id aid (order_uuid o1) s2 = Inr t \<and>
     tx_get_order (order_uuid o1) (acct_db t) = None \<and>
     get_order_by_intent_hash (permit_hash ps p) (acct_db t) = Some (aid, order_uuid o1)"
proof -
  let ?oid = "order_uuid o1"
  have c: "contains_account aid (acct_db s)" "matching_pool_exists pool (acct_db s)"
    using assms(1) by (auto simp: app_add_order_to_account_def Let_def split: if_splits)
  obtain db2 where db2: "assign_order_to_matching_pool ?oid pool
      (write_order_auth ?oid (PublicOrder p sig) (tx_add_order aid o1 (acct_db s))) = Inr db2"
    using assms(1) c by (auto simp: app_add_order_to_account_def Let_def res_simps)
  have f: "adb_order_index db2 ?oid = Some aid" "adb_executor db2 = adb_executor (acct_db s)" "adb_headers db2 = adb_headers (acct_db s)"
      "db_read (aid, ?oid) (adb_orders db2) = Some o1"
    using db2 by (auto simp: assign_order_to_matching_pool_def tx_defs split: if_splits)
  have s1: "acct_db s1 = set_owner_to_account (owner (inner (order_intent o1))) aid
      (set_intent_to_order_and_account (permit_hash ps p) aid ?oid db2)"
    using assms(1) c db2 by (auto simp: app_add_order_to_account_def Let_def split: if_splits)
  have g: "tx_get_order ?oid (acct_db s1) = Some o1" "get_account_id_for_order ?oid (acct_db s1) = Some aid"
    using f by (simp_all add: s1 tx_defs)
  have s2: "acct_db s2 = tx_update_order aid o2 (acct_db s1)"
    using assms(2-4) g by (auto simp: app_update_order_def Let_def split: if_splits)
  have h: "tx_get_order ?oid (acct_db s2) = Some o2" "contains_account aid (acct_db s2)" "get_executor_key ps (acct_db s2) = Inr ex"
    using f c(1) assms(2,5) by (simp_all add: s2 s1 tx_defs get_executor_key_def)
  have idx: "adb_intent_index (acct_db s2) (permit_hash ps p) = Some (aid, ?oid)" by (simp add: s2 s1 tx_defs)
  obtain pr where pr: "delete_all_validity_proofs (IntentLocator ?oid)
      (remove_order_with_auth aid ?oid (remove_intent_mapping (permit_hash ps (permit_of ps (inner (order_intent o2)) ex)) (acct_db s2))) =
      (remove_order_with_auth aid ?oid (remove_intent_mapping (permit_hash ps (permit_of ps (inner (order_intent o2)) ex)) (acct_db s2)))
        \<lparr>adb_proofs := pr\<rparr>"
    using delete_all_proofs_db by blast
  show ?thesis
    using h idx assms(6)
    by (simp add: app_remove_order_from_account_def Let_def pr) (auto simp: get_order_by_intent_hash_def tx_defs)
qed

theorem filled_order_leaves_intent_witness:
  "\<exists>t. app_remove_order_from_account example_ps example_show 11 21 example_acct4 = Inr t \<and>
     tx_get_order 21 (acct_db t) = None \<and> get_order_by_intent_hash 100 (acct_db t) = Some (11, 21)"
  using filled_order_leaves_intent [OF example_step3 _ _ example_step4(1), of 0]
  by (simp add: example_filled_fields example_order_fields get_executor_key_def example_db2 example_db1 example_ps_def)

end
