(* ===== verification/Raft_Log.thy ===== *)
theory Raft_Log
  imports Storage_Table
begin

text \<open>
  The raft log of \<open>state/src/storage/tx/raft_log.rs\<close> and the log store of
  \<open>state/src/replication/log_store.rs\<close> on top of it. Entries are stored under the big
  endian bytes of their index. The loops that truncate, purge and read run on the storage
  cursor, whose engine is the argument \<open>m\<close>; they are partial functions, and that they
  return is proved. The payload of an entry and the membership of a snapshot are type
  parameters; a vote is only stored and returned.
\<close>

section \<open>Types\<close>

record log_id =
  leader_term :: u64
  leader_node :: u64
  log_index :: u64

record 'p raft_entry =
  entry_log_id :: log_id
  payload :: 'p

record 'm snapshot_meta =
  snap_last_log_id :: "log_id option"
  snap_membership :: 'm
  snapshot_id :: string

record ('p, 'm) raft_db =
  raft_logs :: "(u8 list, 'p raft_entry) table"
  last_purged :: "log_id option"
  last_vote :: "opaque option"
  snapshot_metadata :: "'m snapshot_meta option"

record log_state =
  state_last_log_id :: "log_id option"
  state_last_purged :: "log_id option"

datatype range_bound = Included u64 | Excluded u64 | Unbounded

definition ERR_LOG_NOT_FOUND :: string where
  "ERR_LOG_NOT_FOUND = ''Log entry not found''"

definition parse_lsn :: "u8 list \<Rightarrow> u64" where
  "parse_lsn b = of_nat (from_be_bytes b)"

definition lsn_to_key :: "u64 \<Rightarrow> u8 list" where
  "lsn_to_key lsn = to_be_bytes 8 (unat lsn)"

section \<open>Log access\<close>

type_synonym ('q, 'p) log_cursor = "('q, u8 list, 'p raft_entry) mdbx"

definition first_raft_log ::
    "('q, 'p) log_cursor \<Rightarrow> ('p, 'm) raft_db \<Rightarrow> (u64 \<times> 'p raft_entry) option" where
  "first_raft_log m db =
     map_option (\<lambda>(k, v). (parse_lsn k, v))
       (get_current m (seek_first m (cursor_new m) (raft_logs db)) (raft_logs db))"

definition first_raft_log_index :: "('q, 'p) log_cursor \<Rightarrow> ('p, 'm) raft_db \<Rightarrow> u64 option" where
  "first_raft_log_index m db = map_option fst (first_raft_log m db)"

definition last_raft_log ::
    "('q, 'p) log_cursor \<Rightarrow> ('p, 'm) raft_db \<Rightarrow> (u64 \<times> 'p raft_entry) option" where
  "last_raft_log m db =
     map_option (\<lambda>(k, v). (parse_lsn k, v))
       (get_current m (seek_last m (cursor_new m) (raft_logs db)) (raft_logs db))"

definition last_raft_log_index :: "('q, 'p) log_cursor \<Rightarrow> ('p, 'm) raft_db \<Rightarrow> u64 option" where
  "last_raft_log_index m db = map_option fst (last_raft_log m db)"

definition read_log_entry :: "u64 \<Rightarrow> ('p, 'm) raft_db \<Rightarrow> string + 'p raft_entry" where
  "read_log_entry i db = ok_or ERR_LOG_NOT_FOUND (db_read (lsn_to_key i) (raft_logs db))"

definition set_last_purged_log_id :: "log_id \<Rightarrow> ('p, 'm) raft_db \<Rightarrow> ('p, 'm) raft_db" where
  "set_last_purged_log_id lid db = db\<lparr>last_purged := Some lid\<rparr>"

definition set_last_vote :: "opaque \<Rightarrow> ('p, 'm) raft_db \<Rightarrow> ('p, 'm) raft_db" where
  "set_last_vote vote db = db\<lparr>last_vote := Some vote\<rparr>"

definition set_snapshot_metadata :: "'m snapshot_meta \<Rightarrow> ('p, 'm) raft_db \<Rightarrow> ('p, 'm) raft_db" where
  "set_snapshot_metadata meta db = db\<lparr>snapshot_metadata := Some meta\<rparr>"

definition append_log_entries :: "'p raft_entry list \<Rightarrow> ('p, 'm) raft_db \<Rightarrow> ('p, 'm) raft_db" where
  "append_log_entries es db =
     fold (\<lambda>e db. db\<lparr>raft_logs := db_write (lsn_to_key (log_index (entry_log_id e))) e (raft_logs db)\<rparr>) es db"

partial_function (option) truncate_loop ::
    "('q, 'p) log_cursor \<Rightarrow> u64 \<Rightarrow> ('q, u8) db_cursor \<Rightarrow> (u8 list, 'p raft_entry) table \<Rightarrow>
     (u8 list, 'p raft_entry) table option" where
  "truncate_loop m i c t =
     (case get_current m c t of
        None \<Rightarrow> Some t
      | Some (k, _) \<Rightarrow>
          if i \<le> parse_lsn k then (let (c, t) = cursor_delete m c t in truncate_loop m i c t)
          else Some t)"

definition truncate_logs :: "('q, 'p) log_cursor \<Rightarrow> u64 \<Rightarrow> ('p, 'm) raft_db \<Rightarrow> ('p, 'm) raft_db option" where
  "truncate_logs m i db =
     (let (found, c) = seek m (lsn_to_key i) (cursor_new m) (raft_logs db) in
      if \<not> found then Some db
      else map_option (\<lambda>t. db\<lparr>raft_logs := t\<rparr>) (truncate_loop m i c (raft_logs db)))"

partial_function (option) purge_loop ::
    "('q, 'p) log_cursor \<Rightarrow> u64 \<Rightarrow> ('q, u8) db_cursor \<Rightarrow> (u8 list, 'p raft_entry) table \<Rightarrow>
     (u8 list, 'p raft_entry) table option" where
  "purge_loop m i c t =
     (case get_current m c t of
        None \<Rightarrow> Some t
      | Some (k, _) \<Rightarrow>
          if parse_lsn k \<le> i then (let (c, t) = cursor_delete m c t in purge_loop m i c t)
          else Some t)"

definition purge_logs :: "('q, 'p) log_cursor \<Rightarrow> u64 \<Rightarrow> ('p, 'm) raft_db \<Rightarrow> ('p, 'm) raft_db option" where
  "purge_logs m i db =
     map_option (\<lambda>t. db\<lparr>raft_logs := t\<rparr>)
       (purge_loop m i (seek_first m (cursor_new m) (raft_logs db)) (raft_logs db))"

section \<open>The log store\<close>

text \<open>
  An excluded bound is moved by one, wrapping at the ends of the range of indexes (a build with
  overflow checks panics there instead).
\<close>

definition parse_low_high :: "range_bound \<Rightarrow> range_bound \<Rightarrow> u64 \<times> u64" where
  "parse_low_high start_bound end_bound =
     ((case start_bound of Included lo \<Rightarrow> lo | Excluded lo \<Rightarrow> lo + 1 | Unbounded \<Rightarrow> 0),
      (case end_bound of Included hi \<Rightarrow> hi | Excluded hi \<Rightarrow> hi - 1 | Unbounded \<Rightarrow> - 1))"

partial_function (option) read_range ::
    "('q, 'p) log_cursor \<Rightarrow> (u8 list, 'p raft_entry) table \<Rightarrow> u64 \<Rightarrow>
     ('q, u8, 'p raft_entry) db_cursor_iter \<Rightarrow> 'p raft_entry list option" where
  "read_range m t high it =
     (case iter_next m t it of
        (None, it) \<Rightarrow> Some []
      | (Some (k, e), it) \<Rightarrow>
          if high < parse_lsn k then Some []
          else Option.bind (read_range m t high it) (\<lambda>es. Some (e # es)))"

definition try_get_log_entries ::
    "('q, 'p) log_cursor \<Rightarrow> range_bound \<Rightarrow> range_bound \<Rightarrow> ('p, 'm) raft_db \<Rightarrow> 'p raft_entry list option" where
  "try_get_log_entries m start_bound end_bound db =
     (let (low, high) = parse_low_high start_bound end_bound in
      if high < low then Some []
      else
        (let (found, c) = seek m (lsn_to_key low) (cursor_new m) (raft_logs db) in
         if \<not> found then Some []
         else read_range m (raft_logs db) high (cursor_into_iter m c (raft_logs db))))"

definition get_log_state :: "('q, 'p) log_cursor \<Rightarrow> ('p, 'm) raft_db \<Rightarrow> log_state" where
  "get_log_state m db =
     (let last_purged_log_id =
            (case last_purged db of
               Some lid \<Rightarrow> Some lid
             | None \<Rightarrow>
                 (case first_raft_log m db of
                    Some (first_idx, first_entry) \<Rightarrow>
                      if 1 < first_idx
                      then (let lid = entry_log_id first_entry in Some (lid\<lparr>log_index := log_index lid - 1\<rparr>))
                      else None
                  | None \<Rightarrow> None));
          last_log_id =
            (case last_raft_log m db of
               Some (_, e) \<Rightarrow> Some (entry_log_id e)
             | None \<Rightarrow> last_purged_log_id)
      in \<lparr>state_last_log_id = last_log_id, state_last_purged = last_purged_log_id\<rparr>)"

definition save_vote :: "opaque \<Rightarrow> ('p, 'm) raft_db \<Rightarrow> ('p, 'm) raft_db" where
  "save_vote vote db = set_last_vote vote db"

definition read_vote :: "('p, 'm) raft_db \<Rightarrow> opaque option" where
  "read_vote db = last_vote db"

definition log_append :: "'p raft_entry list \<Rightarrow> ('p, 'm) raft_db \<Rightarrow> ('p, 'm) raft_db" where
  "log_append es db = append_log_entries es db"

definition log_truncate :: "('q, 'p) log_cursor \<Rightarrow> log_id \<Rightarrow> ('p, 'm) raft_db \<Rightarrow> ('p, 'm) raft_db option" where
  "log_truncate m lid db = truncate_logs m (log_index lid) db"

definition log_purge :: "('q, 'p) log_cursor \<Rightarrow> log_id \<Rightarrow> ('p, 'm) raft_db \<Rightarrow> ('p, 'm) raft_db option" where
  "log_purge m lid db = map_option (set_last_purged_log_id lid) (purge_logs m (log_index lid) db)"

section \<open>Keys\<close>

lemma from_be_bytes_Cons: "from_be_bytes (b # bs) = unat b * 256 ^ length bs + from_be_bytes bs"
proof (induction bs rule: rev_induct)
  case Nil
  then show ?case by (simp add: from_be_bytes_def)
next
  case (snoc x bs)
  have "from_be_bytes (b # bs @ [x]) = from_be_bytes (b # bs) * 256 + unat x"
    using from_be_bytes_snoc [of "b # bs" x] by simp
  then show ?case by (simp add: snoc from_be_bytes_snoc algebra_simps)
qed

lemma be_bytes_less_iff:
  "length bs = length cs \<Longrightarrow> bs < cs \<longleftrightarrow> from_be_bytes bs < from_be_bytes cs"
proof (induction bs cs rule: list_induct2)
  case Nil
  then show ?case by simp
next
  case (Cons b bs c cs)
  let ?n = "256 ^ length bs :: nat"
  have lt: "from_be_bytes bs < ?n" "from_be_bytes cs < ?n"
    using from_be_bytes_bound [of bs] from_be_bytes_bound [of cs] Cons.hyps by simp_all
  have step: "unat x * ?n + u < unat y * ?n + v" if "unat x < unat y" "u < ?n" for x y :: u8 and u v
  proof -
    have "unat x * ?n + u < Suc (unat x) * ?n" using that(2) by simp
    also have "\<dots> \<le> unat y * ?n" using that(1) by (intro mult_le_mono1) simp
    finally show ?thesis by simp
  qed
  consider "unat b < unat c" | "unat c < unat b" | "b = c" by (metis linorder_neqE_nat word_unat_eq_iff)
  then show ?case
  proof cases
    case 1
    then show ?thesis using step [OF 1 lt(1)] Cons.hyps by (simp add: from_be_bytes_Cons word_less_nat_alt)
  next
    case 2
    then show ?thesis
      using step [OF 2 lt(2), of "from_be_bytes bs"] Cons.hyps
      by (auto simp: from_be_bytes_Cons word_less_nat_alt)
  next
    case 3
    then show ?thesis using Cons by (simp add: from_be_bytes_Cons)
  qed
qed

lemma from_lsn_key: "from_be_bytes (lsn_to_key i) = unat i"
proof -
  have "unat i < 256 ^ 8" using unsigned_less [of i] by simp
  then show ?thesis by (simp only: lsn_to_key_def from_to_be_bytes mod_less)
qed

lemma parse_lsn_key [simp]: "parse_lsn (lsn_to_key i) = i"
  by (simp add: parse_lsn_def from_lsn_key)

lemma lsn_key_less [simp]: "lsn_to_key i < lsn_to_key j \<longleftrightarrow> i < j"
proof -
  have "length (lsn_to_key i) = length (lsn_to_key j)" by (simp add: lsn_to_key_def)
  then show ?thesis by (simp add: be_bytes_less_iff from_lsn_key word_less_nat_alt)
qed

lemma lsn_key_eq [simp]: "lsn_to_key i = lsn_to_key j \<longleftrightarrow> i = j"
  by (metis parse_lsn_key)

lemma lsn_key_le [simp]: "lsn_to_key i \<le> lsn_to_key j \<longleftrightarrow> i \<le> j"
  by (metis lsn_key_less not_less)

section \<open>The loops\<close>

text \<open>Every entry is stored under the key of its index.\<close>

definition logs_ok :: "(u8 list, 'p raft_entry) table \<Rightarrow> bool" where
  "logs_ok t \<longleftrightarrow> tbl_ok t \<and> (\<forall>(k, e) \<in> set t. k = lsn_to_key (log_index (entry_log_id e)))"

definition entry_index :: "'p raft_entry \<Rightarrow> u64" where
  "entry_index e = log_index (entry_log_id e)"

lemma logs_ok_key: "logs_ok t \<Longrightarrow> e \<in> set t \<Longrightarrow> fst e = lsn_to_key (entry_index (snd e))"
  by (auto simp: logs_ok_def entry_index_def)

lemma logs_ok_tbl: "logs_ok t \<Longrightarrow> tbl_ok t"
  by (simp add: logs_ok_def)

lemma logs_ok_filter: "logs_ok t \<Longrightarrow> logs_ok (filter P t)"
  by (auto simp: logs_ok_def)

lemma logs_ok_append: "logs_ok (t @ u) \<Longrightarrow> logs_ok t \<and> logs_ok u"
  by (auto simp: logs_ok_def tbl_ok_append)

lemma db_delete_split:
  assumes "tbl_ok (xs @ (k, v) # ys)"
  shows "db_delete k (xs @ (k, v) # ys) = xs @ ys"
proof -
  have "filter (\<lambda>e. fst e \<noteq> k) xs = xs" "filter (\<lambda>e. fst e \<noteq> k) ys = ys"
    using assms by (auto simp: tbl_ok_append tbl_ok_Cons intro!: filter_True)
  then show ?thesis by (simp add: db_delete_def)
qed

lemma iter_collect_Cons:
  assumes "iter_collect m t it = Some (e # es)"
  obtains it' where "iter_next m t it = (Some e, it')" "iter_collect m t it' = Some es"
  using assms
  by (subst (asm) iter_collect.simps) (auto split: prod.splits option.splits simp: bind_eq_Some_conv)

lemma iter_collect_Nil:
  assumes "iter_collect m t it = Some []"
  obtains it' where "iter_next m t it = (None, it')"
  using assms
  by (subst (asm) iter_collect.simps) (auto split: prod.splits option.splits simp: bind_eq_Some_conv)

lemma read_range_collect:
  "iter_collect m t it = Some es \<Longrightarrow>
   read_range m t high it = Some (map snd (takeWhile (\<lambda>e. parse_lsn (fst e) \<le> high) es))"
proof (induction es arbitrary: it)
  case Nil
  then obtain it' where "iter_next m t it = (None, it')" by (rule iter_collect_Nil)
  then show ?case by (subst read_range.simps) simp
next
  case (Cons e es)
  from Cons.prems obtain it' where it: "iter_next m t it = (Some e, it')" "iter_collect m t it' = Some es"
    by (rule iter_collect_Cons)
  then show ?case using Cons.IH [OF it(2)] by (subst read_range.simps) (auto split: prod.splits)
qed

lemma takeWhile_sorted_filter:
  assumes "logs_ok es"
  shows "takeWhile (\<lambda>e. parse_lsn (fst e) \<le> high) es = filter (\<lambda>e. entry_index (snd e) \<le> high) es"
  using assms
proof (induction es)
  case Nil
  then show ?case by simp
next
  case (Cons e es)
  have key: "fst x = lsn_to_key (entry_index (snd x))" if "x \<in> set (e # es)" for x
    using logs_ok_key [OF Cons.prems that] .
  have less: "entry_index (snd e) < entry_index (snd x)" if "x \<in> set es" for x
    using Cons.prems that key [of e] key [of x] by (fastforce simp: logs_ok_def tbl_ok_Cons)
  have ok: "logs_ok es" using Cons.prems logs_ok_append [of "[e]" es] by simp
  show ?case
  proof (cases "entry_index (snd e) \<le> high")
    case True
    then show ?thesis using Cons.IH [OF ok] key [of e] by simp
  next
    case False
    then have "filter (\<lambda>e. entry_index (snd e) \<le> high) es = []"
      using less by (fastforce simp: filter_empty_conv)
    then show ?thesis using False key [of e] by simp
  qed
qed

locale log_cursor_contract = byte_cursor m for m :: "('q, 'p) log_cursor"
begin

lemma truncate_loop_result:
  assumes "logs_ok (xs @ ys)" and "\<forall>e \<in> set xs. entry_index (snd e) < i" and "\<forall>e \<in> set ys. i \<le> entry_index (snd e)"
    and "mdbx_current m (cur_pos c) (xs @ ys) = first ys \<or>
         ys = [] \<and> mdbx_current m (cur_pos c) (xs @ ys) = first xs"
  shows "truncate_loop m i c (xs @ ys) = Some xs"
  using assms
proof (induction ys arbitrary: c)
  case Nil
  then have "mdbx_current m (cur_pos c) xs = None \<or> mdbx_current m (cur_pos c) xs = first xs" by simp
  moreover have "\<not> i \<le> parse_lsn k" if "first xs = Some (k, v)" for k v
    using that Nil.prems(1,2) logs_ok_key [of xs "(k, v)"] by (cases xs) auto
  ultimately show ?case
    by (subst truncate_loop.simps) (auto simp: get_current_def split: option.splits)
next
  case (Cons e ys)
  obtain k v where e: "e = (k, v)" by fastforce
  have cur: "mdbx_current m (cur_pos c) (xs @ (k, v) # ys) = Some (k, v)" using Cons.prems(4) e by simp
  have ok: "tbl_ok (xs @ (k, v) # ys)" using logs_ok_tbl [OF Cons.prems(1)] e by simp
  have k: "parse_lsn k = entry_index v" using logs_ok_key [OF Cons.prems(1), of e] e by simp
  have "cursor_delete m c (xs @ (k, v) # ys) =
      (c\<lparr>cur_pos := fst (mdbx_del m (cur_pos c) (xs @ (k, v) # ys))\<rparr>, xs @ ys)"
    using del_entry [OF ok cur] db_delete_split [OF ok]
    by (simp add: cursor_delete_def split_beta)
  moreover have "truncate_loop m i (c\<lparr>cur_pos := fst (mdbx_del m (cur_pos c) (xs @ (k, v) # ys))\<rparr>) (xs @ ys) = Some xs"
  proof (rule Cons.IH)
    show "logs_ok (xs @ ys)" using Cons.prems(1) by (auto simp: logs_ok_def tbl_ok_append tbl_ok_Cons)
    show "mdbx_current m (cur_pos (c\<lparr>cur_pos := fst (mdbx_del m (cur_pos c) (xs @ (k, v) # ys))\<rparr>)) (xs @ ys) = first ys \<or>
        ys = [] \<and> mdbx_current m (cur_pos (c\<lparr>cur_pos := fst (mdbx_del m (cur_pos c) (xs @ (k, v) # ys))\<rparr>)) (xs @ ys) = first xs"
      using del_current [OF ok cur] filter_greater_split [OF ok refl] db_delete_split [OF ok]
      by (auto simp: first_def split: list.splits)
  qed (use Cons.prems(2,3) in auto)
  ultimately show ?case
    using Cons.prems(3) unfolding e by (subst truncate_loop.simps) (simp add: get_current_def cur k)
qed

lemma purge_loop_result:
  assumes "logs_ok t" and "mdbx_current m (cur_pos c) t = first t"
  shows "purge_loop m i c t = Some (filter (\<lambda>e. i < entry_index (snd e)) t)"
  using assms
proof (induction t arbitrary: c)
  case Nil
  then show ?case by (subst purge_loop.simps) (simp add: get_current_def)
next
  case (Cons e t)
  obtain k v where e: "e = (k, v)" by fastforce
  have ok: "tbl_ok ((k, v) # t)" using logs_ok_tbl [OF Cons.prems(1)] e by simp
  have okt: "logs_ok t" using Cons.prems(1) logs_ok_append [of "[e]" t] by simp
  have cur: "mdbx_current m (cur_pos c) ((k, v) # t) = Some (k, v)" using Cons.prems(2) e by simp
  have k: "parse_lsn k = entry_index v" using logs_ok_key [OF Cons.prems(1), of e] e by simp
  show ?case
  proof (cases "entry_index v \<le> i")
    case True
    have split: "db_delete k ((k, v) # t) = t" "filter (\<lambda>e. k < fst e) ((k, v) # t) = t"
      using db_delete_split [of "[]" k v t] filter_greater_split [OF ok, of "[]" k v t] ok by simp_all
    let ?c = "c\<lparr>cur_pos := fst (mdbx_del m (cur_pos c) ((k, v) # t))\<rparr>"
    have "cursor_delete m c ((k, v) # t) = (?c, t)"
      using del_entry [OF ok cur] split(1) by (simp add: cursor_delete_def split_beta)
    moreover have "mdbx_current m (cur_pos ?c) t = first t"
      using del_current [OF ok cur] split by (auto simp: first_def split: list.splits)
    then have "purge_loop m i ?c t = Some (filter (\<lambda>e. i < entry_index (snd e)) t)"
      by (rule Cons.IH [OF okt])
    ultimately show ?thesis
      using True unfolding e by (subst purge_loop.simps) (simp add: get_current_def cur k)
  next
    case False
    have "entry_index (snd e) < entry_index (snd x)" if "x \<in> set t" for x
      using Cons.prems(1) that logs_ok_key [OF Cons.prems(1), of e] logs_ok_key [OF Cons.prems(1), of x]
      by (fastforce simp: logs_ok_def tbl_ok_Cons)
    then have "filter (\<lambda>e. i < entry_index (snd e)) (e # t) = e # t"
      using False e by (fastforce intro!: filter_True)
    then show ?thesis
      using False unfolding e by (subst purge_loop.simps) (simp add: get_current_def cur k)
  qed
qed

lemma truncate_result:
  assumes "logs_ok (raft_logs db)"
  shows "truncate_logs m i db =
    Some (db\<lparr>raft_logs := filter (\<lambda>e. entry_index (snd e) < i) (raft_logs db)\<rparr>)"
proof -
  let ?t = "raft_logs db"
  let ?ys = "filter (\<lambda>e. lsn_to_key i \<le> fst e) ?t"
  have ok: "tbl_ok ?t" by (rule logs_ok_tbl [OF assms])
  obtain xs where xs: "?t = xs @ ?ys" and less: "\<forall>e \<in> set xs. fst e < lsn_to_key i"
    using filter_ge_split [OF ok] by blast
  have key: "fst e = lsn_to_key (entry_index (snd e))" if "e \<in> set ?t" for e
    by (rule logs_ok_key [OF assms that])
  have "entry_index (snd e) < i" if "e \<in> set xs" for e
  proof -
    have "e \<in> set ?t" using that by (subst xs) simp
    then show ?thesis using less that key [of e] by (metis lsn_key_less)
  qed
  then have xs_less: "\<forall>e \<in> set xs. entry_index (snd e) < i" by blast
  have ys_le: "\<forall>e \<in> set ?ys. i \<le> entry_index (snd e)" using key by (metis (no_types, lifting) filter_is_subset lsn_key_le mem_Collect_eq set_filter subsetD)
  have "filter (\<lambda>e. entry_index (snd e) < i) (xs @ ?ys) = xs"
    using xs_less ys_le by (fastforce simp: filter_empty_conv intro: filter_True)
  then have result: "filter (\<lambda>e. entry_index (snd e) < i) ?t = xs" using xs by simp
  obtain found q where q: "mdbx_set_range m (lsn_to_key i) ?t = (found, q)" by fastforce
  note range = range_entry [OF ok, of "lsn_to_key i"]
  show ?thesis
  proof (cases found)
    case True
    then have "mdbx_current m q ?t = first ?ys"
      using range by (cases ?ys) (simp_all add: moved_to_def q)
    then have "truncate_loop m i \<lparr>cur_pos = q, key_prefix = None\<rparr> ?t = Some xs"
      using truncate_loop_result [of xs ?ys i "\<lparr>cur_pos = q, key_prefix = None\<rparr>"] assms xs_less ys_le xs by simp
    then show ?thesis
      using True result by (simp add: truncate_logs_def seek_def q cursor_new_def)
  next
    case False
    then have "?ys = []" using range by (simp add: moved_to_def q)
    then have "filter (\<lambda>e. entry_index (snd e) < i) ?t = ?t" using xs result by simp
    then show ?thesis using False by (simp add: truncate_logs_def seek_def q)
  qed
qed

lemma current_first: "tbl_ok t \<Longrightarrow> mdbx_current m (snd (mdbx_first m t)) t = first t"
  using first_entry [of t] empty_current(1) by (cases t) (auto simp: moved_to_def)

lemma current_last: "tbl_ok t \<Longrightarrow> mdbx_current m (snd (mdbx_last m t)) t = first (rev t)"
  using last_entry [of t] empty_current(2) by (cases t rule: rev_cases) (auto simp: moved_to_def)

lemma purge_result:
  assumes "logs_ok (raft_logs db)"
  shows "purge_logs m i db =
    Some (db\<lparr>raft_logs := filter (\<lambda>e. i < entry_index (snd e)) (raft_logs db)\<rparr>)"
  using purge_loop_result [OF assms] current_first [OF logs_ok_tbl [OF assms]]
  by (simp add: purge_logs_def seek_first_def)

lemma read_result:
  assumes "logs_ok (raft_logs db)" and "parse_low_high sb eb = (low, high)"
  shows "try_get_log_entries m sb eb db =
    Some (map snd (filter (\<lambda>e. low \<le> entry_index (snd e) \<and> entry_index (snd e) \<le> high) (raft_logs db)))"
proof (cases "high < low")
  case True
  then have "filter (\<lambda>e. low \<le> entry_index (snd e) \<and> entry_index (snd e) \<le> high) (raft_logs db) = []"
    by (auto simp: filter_empty_conv)
  then show ?thesis using True assms(2) by (simp add: try_get_log_entries_def)
next
  case False
  let ?t = "raft_logs db"
  let ?ys = "filter (\<lambda>e. lsn_to_key low \<le> fst e) ?t"
  have ok: "tbl_ok ?t" by (rule logs_ok_tbl [OF assms(1)])
  obtain xs where xs: "?t = xs @ ?ys" using filter_ge_split [OF ok] by blast
  obtain found q where q: "mdbx_set_range m (lsn_to_key low) ?t = (found, q)" by fastforce
  note range = range_entry [OF ok, of "lsn_to_key low"]
  have ys: "?ys = filter (\<lambda>e. low \<le> entry_index (snd e)) ?t"
    by (rule filter_cong) (simp_all add: logs_ok_key [OF assms(1)])
  have result: "takeWhile (\<lambda>e. parse_lsn (fst e) \<le> high) ?ys =
      filter (\<lambda>e. low \<le> entry_index (snd e) \<and> entry_index (snd e) \<le> high) ?t"
    using takeWhile_sorted_filter [OF logs_ok_filter [OF assms(1)]] by (simp add: ys)
  show ?thesis
  proof (cases ?ys)
    case Nil
    then have "\<not> found" using range by (simp add: moved_to_def q)
    then show ?thesis using False assms(2) result Nil by (simp add: try_get_log_entries_def seek_def q)
  next
    case (Cons e ys)
    let ?c = "\<lparr>cur_pos = q, key_prefix = None\<rparr>"
    have found: "found" and cur: "mdbx_current m q ?t = Some e"
      using range Cons by (simp_all add: moved_to_def q)
    have "iter_collect m ?t \<lparr>iter_initial = None, iter_cursor = ?c\<rparr> = Some ys"
      using collect_from [OF ok, of xs e ys ?c] xs Cons cur by (simp add: shows_key_def)
    then have "iter_collect m ?t (cursor_into_iter m ?c ?t) = Some ?ys"
      using Cons by (simp add: cursor_into_iter_def get_current_checked_eq cur shows_key_def collect_initial)
    from read_range_collect [OF this, of high] show ?thesis
      using False assms(2) found result
      by (simp add: try_get_log_entries_def seek_def q cursor_new_def)
  qed
qed

end

interpretation ordered_log: log_cursor_contract "ordered_mdbx wraps" for wraps ..

section \<open>The log as a map\<close>

definition log_of :: "('p, 'm) raft_db \<Rightarrow> u64 \<rightharpoonup> 'p raft_entry" where
  "log_of db i = db_read (lsn_to_key i) (raft_logs db)"

lemma log_of_iff:
  "logs_ok (raft_logs db) \<Longrightarrow> log_of db i = Some e \<longleftrightarrow> i = entry_index e \<and> (lsn_to_key i, e) \<in> set (raft_logs db)"
  using logs_ok_key [of "raft_logs db" "(lsn_to_key i, e)"] db_read_iff [OF logs_ok_tbl, of "raft_logs db" "lsn_to_key i" e]
  by (auto simp: log_of_def)

lemma log_of_filter:
  assumes "logs_ok (raft_logs db)" and "\<And>e. P e \<longleftrightarrow> entry_index (snd e) \<in> S"
  shows "log_of (db\<lparr>raft_logs := filter P (raft_logs db)\<rparr>) = log_of db |` S"
proof
  fix i
  have ok: "logs_ok (raft_logs (db\<lparr>raft_logs := filter P (raft_logs db)\<rparr>))"
    using logs_ok_filter [OF assms(1)] by simp
  have "log_of (db\<lparr>raft_logs := filter P (raft_logs db)\<rparr>) i = Some e \<longleftrightarrow> (log_of db |` S) i = Some e" for e
    by (auto simp: log_of_iff [OF ok] log_of_iff [OF assms(1)] assms(2) restrict_map_def)
  then show "log_of (db\<lparr>raft_logs := filter P (raft_logs db)\<rparr>) i = (log_of db |` S) i"
    by (metis not_Some_eq)
qed

lemma append_ok: "logs_ok (raft_logs db) \<Longrightarrow> logs_ok (raft_logs (append_log_entries es db))"
proof (induction es arbitrary: db)
  case Nil
  then show ?case by (simp add: append_log_entries_def)
next
  case (Cons e es)
  let ?db = "db\<lparr>raft_logs := db_write (lsn_to_key (log_index (entry_log_id e))) e (raft_logs db)\<rparr>"
  have tbl: "tbl_ok (raft_logs ?db)" using Cons.prems by (simp add: logs_ok_tbl)
  have "k = lsn_to_key (log_index (entry_log_id v))" if "(k, v) \<in> set (raft_logs ?db)" for k v
  proof -
    have "db_read k (raft_logs ?db) = Some v" using db_read_iff [OF tbl] that by blast
    then have "k = lsn_to_key (log_index (entry_log_id e)) \<and> v = e \<or> (k, v) \<in> set (raft_logs db)"
      by (auto split: if_splits simp: db_read_mem)
    then show ?thesis using logs_ok_key [OF Cons.prems, of "(k, v)"] by (auto simp: entry_index_def)
  qed
  then have "logs_ok (raft_logs ?db)" using tbl by (auto simp: logs_ok_def)
  then show ?case using Cons.IH by (simp add: append_log_entries_def)
qed

lemma log_of_append:
  "log_of (append_log_entries es db) = log_of db ++ map_of (rev (map (\<lambda>e. (entry_index e, e)) es))"
proof (induction es arbitrary: db)
  case Nil
  then show ?case by (simp add: append_log_entries_def)
next
  case (Cons e es)
  let ?db = "db\<lparr>raft_logs := db_write (lsn_to_key (log_index (entry_log_id e))) e (raft_logs db)\<rparr>"
  have "log_of ?db = (log_of db)(entry_index e \<mapsto> e)" by (auto simp: log_of_def entry_index_def)
  then show ?case
    using Cons.IH [of ?db] by (simp add: append_log_entries_def map_add_def fun_eq_iff split: option.splits)
qed

section \<open>Properties\<close>

text \<open>
  The indexes between two bounds, and the bound \<open>parse_low_high\<close> makes of an excluded one at the
  end of the range of indexes: excluding zero above wraps to the largest index and excluding the
  largest index below wraps to zero, so that the bound no longer restricts anything.
\<close>

definition in_range :: "range_bound \<Rightarrow> range_bound \<Rightarrow> u64 \<Rightarrow> bool" where
  "in_range sb eb i \<longleftrightarrow>
     (case sb of Included lo \<Rightarrow> lo \<le> i | Excluded lo \<Rightarrow> lo < i | Unbounded \<Rightarrow> True) \<and>
     (case eb of Included hi \<Rightarrow> i \<le> hi | Excluded hi \<Rightarrow> i < hi | Unbounded \<Rightarrow> True)"

definition wrapped_bound :: "u64 \<Rightarrow> range_bound \<Rightarrow> range_bound" where
  "wrapped_bound edge b = (if b = Excluded edge then Unbounded else b)"

lemma word_succ_le: "x \<noteq> - 1 \<Longrightarrow> x + 1 \<le> y \<longleftrightarrow> x < y" for x y :: u64
  using unatSuc [of x] by (simp add: eq_neg_iff_add_eq_0 add.commute word_le_nat_alt word_less_nat_alt Suc_le_eq)

lemma word_le_pred: "y \<noteq> 0 \<Longrightarrow> x \<le> y - 1 \<longleftrightarrow> x < y" for x y :: u64
  using word_succ_le [of "y - 1" x] by (auto simp: not_less [symmetric])

lemma parse_low_high_range:
  "fst (parse_low_high sb eb) \<le> i \<and> i \<le> snd (parse_low_high sb eb) \<longleftrightarrow>
     in_range (wrapped_bound (- 1) sb) (wrapped_bound 0 eb) i"
  by (cases sb; cases eb) (auto simp: parse_low_high_def in_range_def wrapped_bound_def word_succ_le word_le_pred)


text \<open>A log with the entries 5, 6 and 7 of a compacted node.\<close>

definition example_entry :: "u64 \<Rightarrow> unit raft_entry" where
  "example_entry i = \<lparr>entry_log_id = \<lparr>leader_term = 1, leader_node = 0, log_index = i\<rparr>, payload = ()\<rparr>"

definition example_raft_db :: "(unit, unit) raft_db" where
  "example_raft_db =
     \<lparr>raft_logs = [(lsn_to_key 5, example_entry 5), (lsn_to_key 6, example_entry 6), (lsn_to_key 7, example_entry 7)],
      last_purged = None, last_vote = None, snapshot_metadata = None\<rparr>"

definition example_log_cursor :: "(u8 list position, unit) log_cursor" where
  "example_log_cursor = ordered_mdbx True"

lemma example_raft_ok: "mdbx_cursor example_log_cursor" "logs_ok (raft_logs example_raft_db)"
  by (simp_all add: example_log_cursor_def ordered.mdbx_cursor_axioms logs_ok_def example_raft_db_def
      example_entry_def tbl_ok_Cons)


lemma log_state_nonempty:
  assumes "mdbx_cursor m" and "logs_ok (raft_logs db)"
    and "e \<in> ran (log_of db)" and "e' \<in> ran (log_of db)"
    and "\<forall>x \<in> ran (log_of db). entry_index e \<le> entry_index x \<and> entry_index x \<le> entry_index e'"
  shows "get_log_state m db =
    \<lparr>state_last_log_id = Some (entry_log_id e'),
     state_last_purged =
       (case last_purged db of
          Some lid \<Rightarrow> Some lid
        | None \<Rightarrow> if 1 < entry_index e then Some ((entry_log_id e)\<lparr>log_index := entry_index e - 1\<rparr>) else None)\<rparr>"
proof -
  have m: "log_cursor_contract m" using assms(1) by (simp add: log_cursor_contract_def byte_cursor_def)
  let ?t = "raft_logs db"
  have ok: "tbl_ok ?t" by (rule logs_ok_tbl [OF assms(2)])
  have key: "fst x = lsn_to_key (entry_index (snd x))" if "x \<in> set ?t" for x
    using logs_ok_key [OF assms(2) that] .
  have ran: "x \<in> ran (log_of db) \<longleftrightarrow> (lsn_to_key (entry_index x), x) \<in> set ?t" for x
    by (auto simp: ran_def log_of_iff [OF assms(2)])
  have stored: "snd x \<in> ran (log_of db)" if "x \<in> set ?t" for x
    using that key [OF that] ran by (metis prod.collapse)
  have e: "(lsn_to_key (entry_index e), e) \<in> set ?t" and e': "(lsn_to_key (entry_index e'), e') \<in> set ?t"
    using assms(3,4) ran by simp_all
  have le: "fst y \<le> fst x" if "x \<in> set ?t" "y = (lsn_to_key (entry_index e), e)" for x y
    using assms(5) stored [OF that(1)] key [OF that(1)] that(2) by simp
  have ge: "fst x \<le> fst y" if "x \<in> set ?t" "y = (lsn_to_key (entry_index e'), e')" for x y
    using assms(5) stored [OF that(1)] key [OF that(1)] that(2) by simp
  have first: "first ?t = Some (lsn_to_key (entry_index e), e)"
    using e le ok by (cases ?t) (fastforce simp: tbl_ok_Cons)+
  have last: "first (rev ?t) = Some (lsn_to_key (entry_index e'), e')"
    using e' ge ok by (cases ?t rule: rev_cases) (fastforce simp: tbl_ok_append)+
  have "first_raft_log m db = Some (entry_index e, e)" "last_raft_log m db = Some (entry_index e', e')"
    using log_cursor_contract.current_first [OF m ok] log_cursor_contract.current_last [OF m ok] first last
    by (simp_all add: first_raft_log_def last_raft_log_def seek_first_def seek_last_def get_current_def)
  then show ?thesis
    by (simp add: get_log_state_def Let_def entry_index_def split: option.splits)
qed

lemma log_state_empty:
  assumes "mdbx_cursor m" and "logs_ok (raft_logs db)" and "log_of db = Map.empty"
  shows "get_log_state m db = \<lparr>state_last_log_id = last_purged db, state_last_purged = last_purged db\<rparr>"
proof -
  have m: "log_cursor_contract m" using assms(1) by (simp add: log_cursor_contract_def byte_cursor_def)
  have "raft_logs db = []"
  proof (rule ccontr)
    assume "raft_logs db \<noteq> []"
    then obtain x where "x \<in> set (raft_logs db)" by (cases "raft_logs db") auto
    then have "log_of db (entry_index (snd x)) = Some (snd x)"
      using logs_ok_key [OF assms(2)] log_of_iff [OF assms(2)] by (metis prod.collapse)
    then show False using assms(3) by simp
  qed
  then have "first_raft_log m db = None" "last_raft_log m db = None"
    using log_cursor_contract.current_first [OF m, of "[]"] log_cursor_contract.current_last [OF m, of "[]"]
    by (simp_all add: first_raft_log_def last_raft_log_def seek_first_def seek_last_def get_current_def)
  then show ?thesis by (simp add: get_log_state_def Let_def split: option.splits)
qed

text \<open>
  The state the log store reports to the consensus engine. The last log id is that of the
  entry with the highest index, or the purge point of an empty log. A stored purge point is
  reported as it is; when there is none it is reconstructed: a log whose first entry has an
  index above 1 reports the index before it, so that a missing purge point means a log that
  starts at the beginning.
\<close>

theorem log_state_reports_purge_point:
  assumes "mdbx_cursor m" and "logs_ok (raft_logs db)"
  shows "(log_of db = Map.empty \<longrightarrow>
      get_log_state m db = \<lparr>state_last_log_id = last_purged db, state_last_purged = last_purged db\<rparr>) \<and>
    (\<forall>e \<in> ran (log_of db). \<forall>e' \<in> ran (log_of db).
      (\<forall>x \<in> ran (log_of db). entry_index e \<le> entry_index x \<and> entry_index x \<le> entry_index e') \<longrightarrow>
      get_log_state m db =
        \<lparr>state_last_log_id = Some (entry_log_id e'),
         state_last_purged =
           (case last_purged db of
              Some lid \<Rightarrow> Some lid
            | None \<Rightarrow>
                if 1 < entry_index e then Some ((entry_log_id e)\<lparr>log_index := entry_index e - 1\<rparr>) else None)\<rparr>)"
  using log_state_empty [OF assms] log_state_nonempty [OF assms] by blast

theorem log_state_reports_purge_point_witness:
  "mdbx_cursor example_log_cursor \<and> logs_ok (raft_logs example_raft_db) \<and>
   map_option log_index (state_last_purged (get_log_state example_log_cursor example_raft_db)) = Some 4 \<and>
   map_option log_index (state_last_log_id (get_log_state example_log_cursor example_raft_db)) = Some 7"
proof -
  have ran: "ran (log_of example_raft_db) = {example_entry 5, example_entry 6, example_entry 7}"
    by (auto simp: ran_def log_of_iff [OF example_raft_ok(2)])
      (auto simp: example_raft_db_def entry_index_def example_entry_def)
  have idx: "entry_index (example_entry i) = i" for i by (simp add: entry_index_def example_entry_def)
  have purged: "last_purged example_raft_db = None" by (simp add: example_raft_db_def)
  have st: "get_log_state example_log_cursor example_raft_db =
    \<lparr>state_last_log_id = Some (entry_log_id (example_entry 7)),
     state_last_purged = Some ((entry_log_id (example_entry 5))\<lparr>log_index := 4\<rparr>)\<rparr>"
    using log_state_reports_purge_point [OF example_raft_ok]
    by (simp add: ran idx purged)
  then show ?thesis using example_raft_ok by (simp add: example_entry_def)
qed

end
