(* ===== verification/State_Machine.thy ===== *)
theory State_Machine
  imports Task_Applicator Account_Machine Raft_Log
begin

text \<open>
  The replicated state machine: \<open>state/src/state_transition.rs\<close>, the dispatch of
  \<open>state/src/applicator/mod.rs\<close>, \<open>state/src/notifications.rs\<close> and the log application
  of \<open>state/src/replication/state_machine/mod.rs\<close>.

  A node is the account state and the task state side by side. A transition that panics has the
  value \<open>None\<close>; so has a completion hook that would not return, which the task transitions
  exclude in the states they reach. The cluster membership is an opaque value.
\<close>

section \<open>State transitions\<close>

type_synonym proposal_id = uuid
type_synonym node_id = u64

datatype state_transition =
    CreateAccount account
  | AddOrderToAccount account_id order order_auth matching_pool_name
  | RemoveOrderFromAccount account_id order_id
  | UpdateOrder order
  | UpdateAccountBalance account_id balance
  | UpdateAccountKeychain account_id keychain
  | RefreshAccount account_id "order_refresh_data list" "balance list"
  | AddValidityProof validity_proof_locator validity_proof_bundle
  | AddMerkleProof merkle_proof_type opaque
  | CreateMatchingPool matching_pool_name
  | DestroyMatchingPool matching_pool_name
  | AssignOrderToMatchingPool order_id matching_pool_name
  | SetAccountDefaultMatchingPool account_id "matching_pool_name option"
  | AppendTask queued_task wrapped_peer_id
  | PopTask task_identifier bool
  | TransitionTask task_identifier queued_task_state
  | ClearTaskQueue task_queue_key
  | EnqueuePreemptiveTask "task_queue_key list" queued_task wrapped_peer_id bool
  | ReassignTasks wrapped_peer_id wrapped_peer_id
  | AddRaftLearners "(node_id \<times> opaque) list"
  | AddRaftVoters "node_id list"
  | RemoveRaftPeers "node_id list"

record proposal =
  proposal_uuid :: proposal_id
  transition :: state_transition

record node_state =
  node_acct :: acct_state
  node_tasks :: app_state

definition acct_result :: "node_state \<Rightarrow> applicator_error + acct_state \<Rightarrow>
    (applicator_error + applicator_return \<times> node_state) option" where
  "acct_result n r = Some (and_then r (\<lambda>s. Inr (ReturnNone, n\<lparr>node_acct := s\<rparr>)))"

definition task_result :: "node_state \<Rightarrow> applicator_error + app_state \<Rightarrow>
    (applicator_error + applicator_return \<times> node_state) option" where
  "task_result n r = Some (and_then r (\<lambda>s. Inr (ReturnNone, n\<lparr>node_tasks := s\<rparr>)))"

fun handle_state_transition ::
    "permit_scheme \<Rightarrow> (uuid \<Rightarrow> string) \<Rightarrow> state_transition \<Rightarrow> node_state \<Rightarrow>
     (applicator_error + applicator_return \<times> node_state) option" where
  "handle_state_transition ps show_id (CreateAccount acct) n = acct_result n (app_create_account acct (node_acct n))"
| "handle_state_transition ps show_id (AddOrderToAccount aid o' auth pool) n =
     acct_result n (app_add_order_to_account ps aid o' auth pool (node_acct n))"
| "handle_state_transition ps show_id (RemoveOrderFromAccount aid oid) n =
     acct_result n (app_remove_order_from_account ps show_id aid oid (node_acct n))"
| "handle_state_transition ps show_id (UpdateOrder o') n = acct_result n (app_update_order ps show_id o' (node_acct n))"
| "handle_state_transition ps show_id (UpdateAccountBalance aid b) n =
     acct_result n (app_update_account_balance aid b (node_acct n))"
| "handle_state_transition ps show_id (UpdateAccountKeychain aid k) n =
     acct_result n (app_update_account_keychain aid k (node_acct n))"
| "handle_state_transition ps show_id (RefreshAccount aid rs bs) n =
     acct_result n (app_refresh_account aid rs bs (node_acct n))"
| "handle_state_transition ps show_id (AddValidityProof locator b) n =
     acct_result n (app_add_validity_proof locator b (node_acct n))"
| "handle_state_transition ps show_id (CreateMatchingPool pool) n =
     acct_result n (app_create_matching_pool pool (node_acct n))"
| "handle_state_transition ps show_id (DestroyMatchingPool pool) n =
     acct_result n (app_destroy_matching_pool pool (node_acct n))"
| "handle_state_transition ps show_id (AssignOrderToMatchingPool oid pool) n =
     acct_result n (app_assign_order_to_matching_pool show_id oid pool (node_acct n))"
| "handle_state_transition ps show_id (SetAccountDefaultMatchingPool aid pool) n =
     acct_result n (app_set_account_default_matching_pool aid pool (node_acct n))"
| "handle_state_transition ps show_id (AppendTask task executor) n = task_result n (append_task task executor (node_tasks n))"
| "handle_state_transition ps show_id (PopTask t success) n =
     Option.bind (app_pop_task t success (node_tasks n)) (task_result n)"
| "handle_state_transition ps show_id (TransitionTask t st) n =
     task_result n (transition_task_state show_id t st (node_tasks n))"
| "handle_state_transition ps show_id (ClearTaskQueue k) n = task_result n (clear_queue k (node_tasks n))"
| "handle_state_transition ps show_id (EnqueuePreemptiveTask ks task executor is_serial) n =
     Some (and_then (enqueue_preemptive_task ks task executor is_serial (node_tasks n)) (\<lambda>(ret, s).
       Inr (ret, n\<lparr>node_tasks := s\<rparr>)))"
| "handle_state_transition ps show_id (ReassignTasks from_peer to_peer) n =
     task_result n (app_reassign_tasks from_peer to_peer (node_tasks n))"
| "handle_state_transition ps show_id (AddMerkleProof pt path) n =
     acct_result n (app_add_merkle_proof pt path (node_acct n))"
| "handle_state_transition ps show_id (AddRaftLearners _) n = None"
| "handle_state_transition ps show_id (AddRaftVoters _) n = None"
| "handle_state_transition ps show_id (RemoveRaftPeers _) n = None"

section \<open>Notifications\<close>

text \<open>
  A waiting proposal has a sender; the flag tells whether the receiver is still there. What was
  sent is recorded in order.
\<close>

datatype state_error = ApplicatorError applicator_error | TransitionRejected string

type_synonym proposal_return = "state_error + applicator_return"

record open_notifications =
  waiters :: "proposal_id \<rightharpoonup> bool"
  sent :: "(proposal_id \<times> proposal_return) list"

definition notify :: "proposal_id \<Rightarrow> proposal_return \<Rightarrow> open_notifications \<Rightarrow> open_notifications" where
  "notify pid result ns =
     (case waiters ns pid of
        None \<Rightarrow> ns
      | Some is_open \<Rightarrow>
          (let ns = ns\<lparr>waiters := (waiters ns)(pid := None)\<rparr>
           in if is_open then ns\<lparr>sent := sent ns @ [(pid, result)]\<rparr> else ns))"

definition register_notification :: "proposal_id \<Rightarrow> open_notifications \<Rightarrow> open_notifications" where
  "register_notification pid ns = ns\<lparr>waiters := (waiters ns)(pid \<mapsto> True)\<rparr>"

section \<open>Applying the log\<close>

datatype entry_payload = Blank | Membership opaque | Normal proposal

type_synonym entry = "entry_payload raft_entry"
type_synonym stored_membership = "log_id option \<times> opaque"

record state_machine =
  recovered_from_snapshot :: bool
  last_applied_log :: "log_id option"
  last_membership :: stored_membership
  notifications :: open_notifications
  sm_metadata :: "stored_membership snapshot_meta option"
  node :: node_state

definition applied_state :: "state_machine \<Rightarrow> log_id option \<times> stored_membership" where
  "applied_state sm = (last_applied_log sm, last_membership sm)"

text \<open>An apply error carries the log id and the applicator's error, none when the applicator panicked.\<close>

datatype apply_error = ApplyError log_id "applicator_error option"

definition apply_entry ::
    "permit_scheme \<Rightarrow> (uuid \<Rightarrow> string) \<Rightarrow> entry \<Rightarrow> state_machine \<Rightarrow> apply_error option \<times> state_machine" where
  "apply_entry ps show_id e sm =
     (let lid = entry_log_id e;
          sm = sm\<lparr>last_applied_log := Some lid\<rparr>
      in case payload e of
           Blank \<Rightarrow> (None, sm)
         | Membership m \<Rightarrow> (None, sm\<lparr>last_membership := (Some lid, m)\<rparr>)
         | Normal p \<Rightarrow>
             (case handle_state_transition ps show_id (transition p) (node sm) of
                None \<Rightarrow> (Some (ApplyError lid None), sm)
              | Some (Inl (AppRejected msg)) \<Rightarrow>
                  (None, sm\<lparr>notifications := notify (proposal_uuid p) (Inl (TransitionRejected msg)) (notifications sm)\<rparr>)
              | Some (Inl err) \<Rightarrow>
                  (Some (ApplyError lid (Some err)),
                   sm\<lparr>notifications := notify (proposal_uuid p) (Inl (ApplicatorError err)) (notifications sm)\<rparr>)
              | Some (Inr (ret, n)) \<Rightarrow>
                  (None, sm\<lparr>node := n, notifications := notify (proposal_uuid p) (Inr ret) (notifications sm)\<rparr>)))"

fun apply_log ::
    "permit_scheme \<Rightarrow> (uuid \<Rightarrow> string) \<Rightarrow> entry list \<Rightarrow> state_machine \<Rightarrow>
     (apply_error + unit list) \<times> state_machine" where
  "apply_log ps show_id [] sm = (Inr [], sm)"
| "apply_log ps show_id (e # es) sm =
     (case apply_entry ps show_id e sm of
        (Some err, sm) \<Rightarrow> (Inl err, sm)
      | (None, sm) \<Rightarrow>
          (case apply_log ps show_id es sm of
             (Inl err, sm) \<Rightarrow> (Inl err, sm)
           | (Inr rs, sm) \<Rightarrow> (Inr (() # rs), sm)))"

section \<open>What applying a log does\<close>

text \<open>The reference: the accepted transitions in order, rejected ones skipped.\<close>

definition run_entry :: "permit_scheme \<Rightarrow> (uuid \<Rightarrow> string) \<Rightarrow> entry \<Rightarrow> node_state \<Rightarrow> node_state" where
  "run_entry ps show_id e n =
     (case payload e of
        Normal p \<Rightarrow>
          (case handle_state_transition ps show_id (transition p) n of
             Some (Inr (_, n')) \<Rightarrow> n'
           | _ \<Rightarrow> n)
      | _ \<Rightarrow> n)"

fun is_rejection :: "applicator_error \<Rightarrow> bool" where
  "is_rejection (AppRejected _) = True"
| "is_rejection _ = False"

definition fatal_entry :: "permit_scheme \<Rightarrow> (uuid \<Rightarrow> string) \<Rightarrow> entry \<Rightarrow> node_state \<Rightarrow> bool" where
  "fatal_entry ps show_id e n =
     (case payload e of
        Normal p \<Rightarrow>
          (case handle_state_transition ps show_id (transition p) n of
             None \<Rightarrow> True
           | Some (Inl err) \<Rightarrow> \<not> is_rejection err
           | Some (Inr _) \<Rightarrow> False)
      | _ \<Rightarrow> False)"

lemma apply_entry_fields:
  "fst (apply_entry ps show_id e sm) = None \<longleftrightarrow> \<not> fatal_entry ps show_id e (node sm)"
  "node (snd (apply_entry ps show_id e sm)) = run_entry ps show_id e (node sm)"
  "last_applied_log (snd (apply_entry ps show_id e sm)) = Some (entry_log_id e)"
  "fst (apply_entry ps show_id e sm) = Some err \<Longrightarrow> \<exists>x. err = ApplyError (entry_log_id e) x"
  by (auto simp: apply_entry_def fatal_entry_def run_entry_def Let_def
      split: entry_payload.splits option.splits sum.splits applicator_error.splits prod.splits)

lemma fatal_not_run: "fatal_entry ps show_id e n \<Longrightarrow> run_entry ps show_id e n = n"
  by (auto simp: fatal_entry_def run_entry_def split: entry_payload.splits option.splits sum.splits)

text \<open>
  C11. Applying a log is running its accepted transitions in order. The state machine answers
  every entry and ends in the state that the entries reach one after the other, where a rejected
  transition changes nothing and does not stop the log; or it stops at the first entry whose
  transition panics or fails with anything but a rejection, in the state before that entry, and
  reports the entry's log id. The last applied log is that of the last entry looked at.
\<close>

theorem apply_refines_run:
  shows "case apply_log ps show_id es sm of
     (Inr rs, sm') \<Rightarrow>
       length rs = length es \<and> node sm' = fold (run_entry ps show_id) es (node sm) \<and>
       last_applied_log sm' = (if es = [] then last_applied_log sm else Some (entry_log_id (last es))) \<and>
       (\<forall>i < length es. \<not> fatal_entry ps show_id (es ! i) (fold (run_entry ps show_id) (take i es) (node sm)))
   | (Inl (ApplyError lid err), sm') \<Rightarrow>
       (\<exists>i < length es. lid = entry_log_id (es ! i) \<and> last_applied_log sm' = Some lid \<and>
          node sm' = fold (run_entry ps show_id) (take i es) (node sm) \<and>
          fatal_entry ps show_id (es ! i) (node sm') \<and>
          (\<forall>j < i. \<not> fatal_entry ps show_id (es ! j) (fold (run_entry ps show_id) (take j es) (node sm))))"
proof (induction es arbitrary: sm)
  case Nil
  then show ?case by simp
next
  case (Cons e es)
  obtain x sm1 where ap: "apply_entry ps show_id e sm = (x, sm1)" by fastforce
  have f: "x = None \<longleftrightarrow> \<not> fatal_entry ps show_id e (node sm)" "node sm1 = run_entry ps show_id e (node sm)"
      "last_applied_log sm1 = Some (entry_log_id e)" "\<And>err. x = Some err \<Longrightarrow> \<exists>y. err = ApplyError (entry_log_id e) y"
    using apply_entry_fields [of ps show_id e sm] ap by simp_all
  show ?case
  proof (cases x)
    case (Some err)
    then obtain y where "err = ApplyError (entry_log_id e) y" using f(4) by blast
    then show ?thesis using Some f fatal_not_run by (auto simp: ap intro!: exI [of _ 0])
  next
    case None
    obtain r sm' where es: "apply_log ps show_id es sm1 = (r, sm')" by fastforce
    note ih = Cons.IH [of sm1, unfolded es]
    show ?thesis
    proof (cases r)
      case (Inl err)
      obtain lid y where err: "err = ApplyError lid y" by (cases err)
      obtain i where "i < length es" "lid = entry_log_id (es ! i)" "last_applied_log sm' = Some lid"
          "node sm' = fold (run_entry ps show_id) (take i es) (node sm1)" "fatal_entry ps show_id (es ! i) (node sm')"
          "\<And>j. j < i \<Longrightarrow> \<not> fatal_entry ps show_id (es ! j) (fold (run_entry ps show_id) (take j es) (node sm1))"
        using ih by (auto simp: Inl err)
      then show ?thesis
        using None f by (simp add: ap es Inl err) (intro exI [of _ "Suc i"], auto simp: less_Suc_eq_0_disj)
    next
      case (Inr rs)
      then show ?thesis using ih None f by (auto simp: ap es less_Suc_eq_0_disj)
    qed
  qed
qed

section \<open>Account transitions are never fatal\<close>

fun account_transition :: "state_transition \<Rightarrow> bool" where
  "account_transition (AppendTask _ _) = False"
| "account_transition (PopTask _ _) = False"
| "account_transition (TransitionTask _ _) = False"
| "account_transition (ClearTaskQueue _) = False"
| "account_transition (EnqueuePreemptiveTask _ _ _ _) = False"
| "account_transition (ReassignTasks _ _) = False"
| "account_transition (AddRaftLearners _) = False"
| "account_transition (AddRaftVoters _) = False"
| "account_transition (RemoveRaftPeers _) = False"
| "account_transition _ = True"

text \<open>The outcome of a transition on a database with the executor key \<open>hex\<close>: it is kept, and an error is a rejection.\<close>

definition benign :: "string option \<Rightarrow> applicator_error + acct_state \<Rightarrow> bool" where
  "benign hex r = (case r of Inl err \<Rightarrow> is_rejection err | Inr t \<Rightarrow> adb_executor (acct_db t) = hex)"

lemma benign_simps [simp]:
  "benign hex (Inl err) = is_rejection err" "benign hex (Inr t) = (adb_executor (acct_db t) = hex)"
  by (simp_all add: benign_def)

lemma benign_bind:
  assumes "\<And>err. r = Inl err \<Longrightarrow> is_rejection err" and "\<And>x. r = Inr x \<Longrightarrow> benign hex (f x)"
  shows "benign hex (and_then r f)"
  using assms by (cases r) (auto simp: and_then_def)

lemma assign_benign:
  "map_err from_storage_error (assign_order_to_matching_pool oid pool db) = Inl err \<Longrightarrow> is_rejection err"
  "assign_order_to_matching_pool oid pool db = Inr db' \<Longrightarrow> adb_executor db' = adb_executor db"
  by (auto simp: assign_order_to_matching_pool_def remove_order_from_matching_pool_def split: if_splits)

lemma ok_or_benign: "ok_or (AppRejected msg) x = Inl err \<Longrightarrow> is_rejection err"
  by (auto simp: ok_or_def split: option.splits)

lemma executor_kept [simp]:
  "adb_executor (new_account acct db) = adb_executor db" "adb_executor (tx_add_order aid o' db) = adb_executor db"
  "adb_executor (tx_update_order aid o' db) = adb_executor db" "adb_executor (update_balance aid b db) = adb_executor db"
  "adb_executor (update_keychain aid k db) = adb_executor db" "adb_executor (write_order_auth oid auth db) = adb_executor db"
  "adb_executor (set_account_default_matching_pool aid p db) = adb_executor db"
  "adb_executor (remove_order_with_auth aid oid db) = adb_executor db"
  "adb_executor (set_owner_to_account own aid db) = adb_executor db" "adb_executor (remove_owner_mapping own db) = adb_executor db"
  "adb_executor (set_intent_to_order_and_account h aid oid db) = adb_executor db"
  "adb_executor (remove_intent_mapping h db) = adb_executor db" "adb_executor (set_merkle_proof pt path db) = adb_executor db"
  "adb_executor (write_validity_proof_bundle locator bundle db) = adb_executor db"
  by (simp_all add: tx_defs set_merkle_proof_def write_validity_proof_bundle_def write_validity_proof_def)

lemma executor_kept_folds [simp]:
  "adb_executor (delete_all_validity_proofs locator db) = adb_executor db"
  "adb_executor (fold (update_balance aid) bs db) = adb_executor db"
  "adb_executor (destroy_matching_pool pool db) = adb_executor db"
proof -
  show "adb_executor (delete_all_validity_proofs locator db) = adb_executor db"
    using delete_all_proofs_db [of locator db] by auto
  show "adb_executor (fold (update_balance aid) bs db) = adb_executor db" by (induction bs arbitrary: db) simp_all
  have "adb_executor (fold (\<lambda>(oid, p) db. if p = pool then db\<lparr>adb_pool_of := db_delete oid (adb_pool_of db)\<rparr> else db) es db) =
      adb_executor db" for es by (induction es arbitrary: db) (auto split: prod.splits)
  then show "adb_executor (destroy_matching_pool pool db) = adb_executor db" by (simp add: destroy_matching_pool_def Let_def)
qed

lemma executor_kept_stale [simp]:
  "adb_executor (fst (fold (remove_stale_order aid keep) os (db, st))) = adb_executor db"
  by (induction os arbitrary: db st) (auto simp: remove_stale_order_def)

lemma remove_order_benign:
  assumes "get_executor_key ps (acct_db s) = Inr ex"
  shows "benign (adb_executor (acct_db s)) (app_remove_order_from_account ps show_id aid oid s)"
  using assms by (auto simp: app_remove_order_from_account_def Let_def ok_or_def split: option.splits)

lemma update_order_benign:
  assumes "get_executor_key ps (acct_db s) = Inr ex"
  shows "benign (adb_executor (acct_db s)) (app_update_order ps show_id o' s)"
proof -
  have "benign (adb_executor (acct_db s)) (app_remove_order_from_account ps show_id aid oid
      (if c then publish_fill aid o' a True s else s))" for aid oid c a
    using remove_order_benign [of ps s ex] remove_order_benign [of ps "publish_fill aid o' a True s" ex] assms by simp
  then show ?thesis
    unfolding app_update_order_def Let_def
    by (intro benign_bind) (auto dest: ok_or_benign)
qed

lemma add_order_benign: "benign (adb_executor (acct_db s)) (app_add_order_to_account ps aid o' auth pool s)"
proof -
  let ?hex = "adb_executor (acct_db s)"
  let ?r = "map_err from_storage_error (assign_order_to_matching_pool (order_uuid o') pool
      (write_order_auth (order_uuid o') auth (tx_add_order aid o' (acct_db s))))"
  have "adb_executor x = ?hex" if "?r = Inr x" for x
    using that assign_benign(2) by (fastforce simp: res_simps)
  then show ?thesis
    unfolding app_add_order_to_account_def Let_def
    by (auto intro!: benign_bind dest: assign_benign(1) split: order_auth.splits)
qed

lemma refresh_one_benign:
  assumes "refresh_one aid r acc = x"
  shows "case x of Inl err \<Rightarrow> is_rejection err | Inr acc' \<Rightarrow> adb_executor (ref_db acc') = adb_executor (ref_db acc)"
  using assms assign_benign unfolding refresh_one_def Let_def
  by (cases x) (auto simp: res_simps split: if_splits)

lemma refresh_loop_benign:
  "case try_fold (refresh_one aid) rs acc of
     Inl err \<Rightarrow> is_rejection err | Inr acc' \<Rightarrow> adb_executor (ref_db acc') = adb_executor (ref_db acc)"
proof (induction rs arbitrary: acc)
  case (Cons r rs)
  have one: "case refresh_one aid r acc of
      Inl err \<Rightarrow> is_rejection err | Inr acc' \<Rightarrow> adb_executor (ref_db acc') = adb_executor (ref_db acc)"
    by (rule refresh_one_benign) simp
  show ?case
  proof (cases "refresh_one aid r acc")
    case (Inl err)
    then show ?thesis using one by (simp add: and_then_def)
  next
    case (Inr acc1)
    then show ?thesis using one Cons.IH [of acc1] by (simp add: and_then_def split: sum.splits)
  qed
qed simp

lemma refresh_benign: "benign (adb_executor (acct_db s)) (app_refresh_account aid rs bs s)"
proof -
  obtain db2 S where f: "fold (remove_stale_order aid (set (map (order_uuid \<circ> refresh_order) rs)))
      (get_account_orders aid (fold (update_balance aid) bs (acct_db s))) (fold (update_balance aid) bs (acct_db s), []) = (db2, S)"
    by fastforce
  have db2: "adb_executor db2 = adb_executor (acct_db s)"
    using executor_kept_stale [of aid "set (map (order_uuid \<circ> refresh_order) rs)"] f
    by (metis executor_kept_folds(2) fst_conv)
  show ?thesis
    using refresh_loop_benign [where aid = aid and rs = rs and acc = "\<lparr>ref_db = db2, ref_orders = [], ref_updates = []\<rparr>"] db2
    unfolding app_refresh_account_def Let_def f
    by (auto simp: sync_refreshed_fields cancel_stale_fields intro!: benign_bind split: sum.splits)
qed

lemma assign_pool_benign: "benign (adb_executor (acct_db s)) (app_assign_order_to_matching_pool show_id oid pool s)"
proof -
  have "is_rejection err" if "update_matching_engine_after_order_assignment show_id oid pool s = Inl err" for err
    using that by (auto simp: update_matching_engine_after_order_assignment_def Let_def reject_order_missing_def and_then_def
        ok_or_def split: option.splits)
  moreover have "acct_db s' = acct_db s" if "update_matching_engine_after_order_assignment show_id oid pool s = Inr s'" for s'
    using that by (auto simp: update_matching_engine_after_order_assignment_def Let_def res_simps)
  ultimately show ?thesis
    unfolding app_assign_order_to_matching_pool_def
    by (auto intro!: benign_bind dest: assign_benign simp: res_simps)
qed

lemma account_transition_benign:
  assumes "account_transition tr" and "get_executor_key ps (acct_db (node_acct n)) = Inr ex"
  shows "\<exists>r. handle_state_transition ps show_id tr n = acct_result n r \<and>
    benign (adb_executor (acct_db (node_acct n))) r"
proof (cases tr)
  case (CreateMatchingPool pool)
  then show ?thesis
    by (auto simp: app_create_matching_pool_def create_matching_pool_def intro!: exI)
qed (use assms add_order_benign remove_order_benign update_order_benign refresh_benign assign_pool_benign in
    \<open>auto simp: app_create_account_def app_update_account_balance_def Let_def app_update_account_keychain_def
      app_destroy_matching_pool_def app_set_account_default_matching_pool_def app_add_validity_proof_def
      app_add_merkle_proof_def intro!: exI\<close>)

lemma account_entry_ok:
  assumes "\<And>p. payload e = Normal p \<Longrightarrow> account_transition (transition p)"
    and "get_executor_key ps (acct_db (node_acct n)) = Inr ex"
  shows "\<not> fatal_entry ps show_id e n" and "node_tasks (run_entry ps show_id e n) = node_tasks n"
    and "get_executor_key ps (acct_db (node_acct (run_entry ps show_id e n))) = Inr ex"
proof -
  have "\<not> fatal_entry ps show_id e n \<and> node_tasks (run_entry ps show_id e n) = node_tasks n \<and>
      adb_executor (acct_db (node_acct (run_entry ps show_id e n))) = adb_executor (acct_db (node_acct n))"
  proof (cases "payload e")
    case (Normal p)
    obtain r where "handle_state_transition ps show_id (transition p) n = acct_result n r"
        "benign (adb_executor (acct_db (node_acct n))) r"
      using account_transition_benign [OF assms(1) [OF Normal] assms(2)] by blast
    then show ?thesis
      by (cases r) (simp_all add: fatal_entry_def run_entry_def Normal acct_result_def and_then_def)
  qed (simp_all add: fatal_entry_def run_entry_def)
  then show "\<not> fatal_entry ps show_id e n" "node_tasks (run_entry ps show_id e n) = node_tasks n"
      "get_executor_key ps (acct_db (node_acct (run_entry ps show_id e n))) = Inr ex"
    using assms(2) by (simp_all add: get_executor_key_def)
qed

lemma apply_log_total:
  assumes "\<And>e n. e \<in> set es \<Longrightarrow> P n \<Longrightarrow> \<not> fatal_entry ps show_id e n \<and> P (run_entry ps show_id e n)" and "P (node sm)"
  shows "\<exists>rs sm'. apply_log ps show_id es sm = (Inr rs, sm') \<and> length rs = length es \<and>
    node sm' = fold (run_entry ps show_id) es (node sm) \<and> P (node sm')"
  using assms
proof (induction es arbitrary: sm)
  case (Cons e es)
  obtain x sm1 where ap: "apply_entry ps show_id e sm = (x, sm1)" by fastforce
  have x: "x = None" "node sm1 = run_entry ps show_id e (node sm)" "P (node sm1)"
    using apply_entry_fields(1,2) [of ps show_id e sm] ap Cons.prems(1) [of e "node sm"] Cons.prems(2) by simp_all
  obtain rs sm' where "apply_log ps show_id es sm1 = (Inr rs, sm')" "length rs = length es"
      "node sm' = fold (run_entry ps show_id) es (node sm1)" "P (node sm')"
    using Cons.IH [of sm1] Cons.prems(1) x(3) by auto
  then show ?case using x(1,2) by (simp add: ap)
qed simp

text \<open>
  C21. A committed account transition cannot stop a node. With a usable executor key in the node
  metadata, a log whose proposals are account, order, balance, pool and proof transitions is
  applied to the end whatever the state and the order of the transitions: every entry gets its
  response, what is wrong with a transition is reported as a rejection, and the task queues are
  not touched.
\<close>

theorem account_log_applies:
  assumes "\<forall>e \<in> set es. \<forall>p. payload e = Normal p \<longrightarrow> account_transition (transition p)"
    and "get_executor_key ps (acct_db (node_acct (node sm))) = Inr ex"
  shows "\<exists>rs sm'. apply_log ps show_id es sm = (Inr rs, sm') \<and> length rs = length es \<and>
     node_tasks (node sm') = node_tasks (node sm) \<and>
     get_executor_key ps (acct_db (node_acct (node sm'))) = Inr ex"
proof -
  let ?P = "\<lambda>n. node_tasks n = node_tasks (node sm) \<and> get_executor_key ps (acct_db (node_acct n)) = Inr ex"
  have "\<not> fatal_entry ps show_id e n \<and> ?P (run_entry ps show_id e n)" if "e \<in> set es" "?P n" for e n
    using account_entry_ok [of e ps n ex show_id] assms(1) that by auto
  then show ?thesis using apply_log_total [of es ?P ps show_id sm] assms(2) by blast
qed

definition replies :: "proposal_id \<Rightarrow> open_notifications \<Rightarrow> nat" where
  "replies pid ns = length (filter (\<lambda>m. fst m = pid) (sent ns))"

lemma notify_replies:
  "waiters (notify pid r ns) = (waiters ns)(pid := None)"
  "replies pid' (notify pid r ns) = replies pid' ns + (if pid' = pid \<and> waiters ns pid = Some True then 1 else 0)"
  by (auto simp: notify_def replies_def Let_def fun_upd_idem split: option.splits)

lemma apply_entry_notifies:
  assumes "apply_entry ps show_id e sm = (None, sm1)"
  shows "notifications sm1 = notifications sm \<and> (\<forall>p. payload e \<noteq> Normal p) \<or>
    (\<exists>p r. payload e = Normal p \<and> notifications sm1 = notify (proposal_uuid p) r (notifications sm))"
  using assms unfolding apply_entry_def Let_def
  by (auto split: entry_payload.splits option.splits sum.splits applicator_error.splits prod.splits)

lemma apply_log_Cons:
  assumes "apply_log ps show_id (e # es) sm = (Inr rs, sm')"
  obtains sm1 rs' where "apply_entry ps show_id e sm = (None, sm1)" "apply_log ps show_id es sm1 = (Inr rs', sm')"
  using assms by (auto split: prod.splits option.splits sum.splits)

lemma answered_stays:
  "apply_log ps show_id es sm = (Inr rs, sm') \<Longrightarrow> waiters (notifications sm) pid = None \<Longrightarrow>
   waiters (notifications sm') pid = None \<and> replies pid (notifications sm') = replies pid (notifications sm)"
proof (induction es arbitrary: sm rs)
  case (Cons e es)
  obtain sm1 rs' where e: "apply_entry ps show_id e sm = (None, sm1)" "apply_log ps show_id es sm1 = (Inr rs', sm')"
    by (rule apply_log_Cons [OF Cons.prems(1)])
  then show ?case using Cons.IH [OF e(2)] Cons.prems(2) apply_entry_notifies [OF e(1)] by (auto simp: notify_replies)
qed simp

text \<open>
  C22. Every applied proposal is answered exactly once. When a log is applied, a proposal of the
  log whose waiter is registered and still listening receives one message, and its waiter is
  gone afterwards, so nothing is sent twice.
\<close>

theorem proposals_answered_once:
  assumes "apply_log ps show_id es sm = (Inr rs, sm')" and "e \<in> set es" and "payload e = Normal p"
    and "waiters (notifications sm) (proposal_uuid p) = Some True"
  shows "waiters (notifications sm') (proposal_uuid p) = None \<and>
     replies (proposal_uuid p) (notifications sm') = replies (proposal_uuid p) (notifications sm) + 1"
  using assms
proof (induction es arbitrary: sm rs)
  case (Cons x es)
  let ?pid = "proposal_uuid p"
  obtain sm1 rs' where x: "apply_entry ps show_id x sm = (None, sm1)" "apply_log ps show_id es sm1 = (Inr rs', sm')"
    by (rule apply_log_Cons [OF Cons.prems(1)])
  note ns = apply_entry_notifies [OF x(1)]
  show ?case
  proof (cases "\<exists>q. payload x = Normal q \<and> proposal_uuid q = ?pid")
    case True
    then have "waiters (notifications sm1) ?pid = None" "replies ?pid (notifications sm1) = replies ?pid (notifications sm) + 1"
      using ns Cons.prems(4) by (auto simp: notify_replies)
    then show ?thesis using answered_stays [OF x(2)] by simp
  next
    case False
    then have "waiters (notifications sm1) ?pid = Some True" "replies ?pid (notifications sm1) = replies ?pid (notifications sm)"
      using ns Cons.prems(4) by (auto simp: notify_replies)
    moreover have "e \<in> set es" using Cons.prems(2,3) False by auto
    ultimately show ?thesis using Cons.IH [OF x(2) _ Cons.prems(3)] by simp
  qed
qed simp

section \<open>An example log\<close>

text \<open>
  A node without accounts, with a waiter for proposal 2, and a log that creates account 11,
  destroys a pool that does not exist, and adds a raft voter through the applicator.
\<close>

definition example_sm :: state_machine where
  "example_sm =
     \<lparr>recovered_from_snapshot = False, last_applied_log = None, last_membership = (None, []),
      notifications = \<lparr>waiters = [2 \<mapsto> True], sent = []\<rparr>, sm_metadata = None,
      node = \<lparr>node_acct = example_acct0, node_tasks = example_app\<rparr>\<rparr>"

definition example_log_entry :: "u64 \<Rightarrow> state_transition \<Rightarrow> entry" where
  "example_log_entry i tr =
     \<lparr>entry_log_id = \<lparr>leader_term = 1, leader_node = 0, log_index = i\<rparr>,
      payload = Normal \<lparr>proposal_uuid = ucast i, transition = tr\<rparr>\<rparr>"

definition example_log :: "entry list" where
  "example_log =
     [example_log_entry 1 (CreateAccount (example_account\<lparr>balances := Map.empty\<rparr>)),
      example_log_entry 2 (DestroyMatchingPool ''side'')]"

definition example_bad_log :: "entry list" where
  "example_bad_log = example_log @ [example_log_entry 3 (AddRaftVoters [7]), example_log_entry 4 (CreateMatchingPool ''side'')]"

lemma example_log_applied:
  "\<exists>sm'. apply_log example_ps example_show example_log example_sm = (Inr [(), ()], sm') \<and>
     node_acct (node sm') = example_acct1"
  by (simp add: example_log_def example_log_entry_def apply_entry_def Let_def example_sm_def acct_result_def example_step1
      app_destroy_matching_pool_def matching_pool_exists_def example_db1 account_db_new_def GLOBAL_MATCHING_POOL_def)

lemma example_bad_log_stops:
  "\<exists>sm'. apply_log example_ps example_show example_bad_log example_sm =
     (Inl (ApplyError (entry_log_id (example_log_entry 3 (AddRaftVoters [7]))) None), sm')"
  by (simp add: example_bad_log_def example_log_def example_log_entry_def apply_entry_def Let_def example_sm_def
      acct_result_def example_step1 app_destroy_matching_pool_def matching_pool_exists_def example_db1 account_db_new_def
      GLOBAL_MATCHING_POOL_def)

theorem apply_refines_run_witness:
  "\<exists>sm' i. i < length example_bad_log \<and> i = 2 \<and>
     apply_log example_ps example_show example_bad_log example_sm =
       (Inl (ApplyError (entry_log_id (example_bad_log ! i)) None), sm') \<and>
     node sm' = fold (run_entry example_ps example_show) (take i example_bad_log) (node example_sm)"
proof -
  obtain sm' where sm': "apply_log example_ps example_show example_bad_log example_sm =
      (Inl (ApplyError (entry_log_id (example_log_entry 3 (AddRaftVoters [7]))) None), sm')"
    using example_bad_log_stops by blast
  obtain i where i: "i < length example_bad_log" "entry_log_id (example_log_entry 3 (AddRaftVoters [7])) = entry_log_id (example_bad_log ! i)"
      "node sm' = fold (run_entry example_ps example_show) (take i example_bad_log) (node example_sm)"
    using apply_refines_run [where ps = example_ps and show_id = example_show and es = example_bad_log and sm = example_sm]
    by (auto simp: sm')
  have "i = 2"
    using i(1,2) by (auto simp: example_bad_log_def example_log_def example_log_entry_def less_Suc_eq)
  then show ?thesis using sm' i by auto
qed

theorem account_log_applies_witness:
  "\<exists>rs sm'. apply_log example_ps example_show example_log example_sm = (Inr rs, sm') \<and> length rs = 2"
proof -
  have "\<forall>e \<in> set example_log. \<forall>p. payload e = Normal p \<longrightarrow> account_transition (transition p)"
    by (auto simp: example_log_def example_log_entry_def)
  moreover have "get_executor_key example_ps (acct_db (node_acct (node example_sm))) = Inr 0"
    by (simp add: example_sm_def get_executor_key_def example_acct0_def example_ps_def)
  moreover have "length example_log = 2" by (simp add: example_log_def)
  ultimately show ?thesis using account_log_applies [where es = example_log and sm = example_sm] by metis
qed

theorem proposals_answered_once_witness:
  "\<exists>sm'. apply_log example_ps example_show example_log example_sm = (Inr [(), ()], sm') \<and>
     waiters (notifications sm') 2 = None \<and> replies 2 (notifications sm') = 1"
proof -
  obtain sm' where sm': "apply_log example_ps example_show example_log example_sm = (Inr [(), ()], sm')"
    using example_log_applied by blast
  show ?thesis
    using proposals_answered_once [OF sm', of "example_log_entry 2 (DestroyMatchingPool ''side'')"] sm'
    by (simp add: example_log_def example_log_entry_def example_sm_def replies_def)
qed

end
