(* ===== verification/Snapshot_Recovery.thy ===== *)
theory Snapshot_Recovery
  imports State_Machine
begin

text \<open>
  Snapshots of the state machine and their recovery:
  \<open>state/src/replication/state_machine/snapshot.rs\<close>, \<open>recovery.rs\<close> and
  \<open>install_snapshot\<close> of \<open>mod.rs\<close>. A snapshot is the copy of the database that the
  snapshot file holds: copying, compressing and locking files is not modelled, and a snapshot
  has all the tables that are not excluded.
\<close>

section \<open>Snapshots\<close>

text \<open>
  The replicated tables are those of the account and the task state; the executor key, the
  local peer and the history flag are node metadata, a table that snapshots exclude.
\<close>

record node_db =
  ndb_acct :: account_db
  ndb_tasks :: task_db

definition node_db_of :: "state_machine \<Rightarrow> node_db" where
  "node_db_of sm = \<lparr>ndb_acct = acct_db (node_acct (node sm)), ndb_tasks = app_db (node_tasks (node sm))\<rparr>"

definition remove_excluded_tables :: "node_db \<Rightarrow> node_db" where
  "remove_excluded_tables db =
     db\<lparr>ndb_acct := (ndb_acct db)\<lparr>adb_executor := None\<rparr>,
        ndb_tasks := (ndb_tasks db)\<lparr>tdb_history_enabled := None, tdb_peer_id := None\<rparr>\<rparr>"

definition copy_db_data :: "node_db \<Rightarrow> node_db \<Rightarrow> node_db" where
  "copy_db_data src dest =
     \<lparr>ndb_acct = (ndb_acct src)\<lparr>adb_executor := adb_executor (ndb_acct dest)\<rparr>,
      ndb_tasks = (ndb_tasks src)\<lparr>tdb_history_enabled := tdb_history_enabled (ndb_tasks dest),
                                  tdb_peer_id := tdb_peer_id (ndb_tasks dest)\<rparr>\<rparr>"

definition write_snapshot_metadata :: "stored_membership snapshot_meta \<Rightarrow> state_machine \<Rightarrow> state_machine" where
  "write_snapshot_metadata meta sm = sm\<lparr>sm_metadata := Some meta\<rparr>"

definition get_snapshot_meta :: "(u64 \<Rightarrow> string) \<Rightarrow> u64 \<Rightarrow> state_machine \<Rightarrow> stored_membership snapshot_meta" where
  "get_snapshot_meta show_time now sm =
     \<lparr>snap_last_log_id = last_applied_log sm, snap_membership = last_membership sm,
      snapshot_id = ''raft-snapshot-'' @ show_time now\<rparr>"

text \<open>
  The builder is a clone of the state machine: it has its own last applied log and membership,
  and shares the database with the machine it was cloned from.
\<close>

definition get_snapshot_builder :: "state_machine \<Rightarrow> state_machine" where
  "get_snapshot_builder sm = sm"

definition build_snapshot ::
    "(u64 \<Rightarrow> string) \<Rightarrow> u64 \<Rightarrow> state_machine \<Rightarrow> state_machine \<Rightarrow>
     (stored_membership snapshot_meta \<times> node_db) \<times> state_machine" where
  "build_snapshot show_time now builder sm =
     (let snap = remove_excluded_tables (node_db_of sm);
          meta = get_snapshot_meta show_time now builder
      in ((meta, snap), write_snapshot_metadata meta sm))"

definition hydrate_order :: "account_db \<Rightarrow> account_id \<Rightarrow> order \<Rightarrow> matching_engine \<Rightarrow> matching_engine" where
  "hydrate_order db aid o' e =
     (let pool = get_matching_pool_for_order (order_uuid o') db;
          a = unwrap_or 0 (get_order_matchable_amount (order_uuid o') db)
      in if 0 < a then upsert_order aid o' a pool e else e)"

definition hydrate_matching_engine :: "account_db \<Rightarrow> matching_engine \<Rightarrow> matching_engine" where
  "hydrate_matching_engine db e =
     fold (\<lambda>aid e. fold (hydrate_order db aid) (get_account_orders aid db) e) (get_all_account_ids db) e"

definition update_from_snapshot :: "stored_membership snapshot_meta \<Rightarrow> node_db \<Rightarrow> state_machine \<Rightarrow> state_machine" where
  "update_from_snapshot meta snap sm =
     (let sm = sm\<lparr>last_applied_log := snap_last_log_id meta, last_membership := snap_membership meta\<rparr>;
          sm = write_snapshot_metadata meta sm;
          db = copy_db_data snap (node_db_of sm);
          acct = (node_acct (node sm))
                   \<lparr>acct_db := ndb_acct db,
                    acct_engine := hydrate_matching_engine (ndb_acct db) (acct_engine (node_acct (node sm)))\<rparr>;
          tasks = (node_tasks (node sm))\<lparr>app_db := ndb_tasks db\<rparr>
      in sm\<lparr>node := \<lparr>node_acct = acct, node_tasks = tasks\<rparr>\<rparr>)"

definition install_snapshot :: "stored_membership snapshot_meta \<Rightarrow> node_db \<Rightarrow> state_machine \<Rightarrow> state_machine" where
  "install_snapshot meta snap sm = update_from_snapshot meta snap sm"

section \<open>Recovery\<close>

definition recover_snapshot_meta :: "opaque \<Rightarrow> state_machine \<Rightarrow> stored_membership snapshot_meta" where
  "recover_snapshot_meta default_membership sm =
     (case sm_metadata sm of
        Some meta \<Rightarrow> meta
      | None \<Rightarrow> \<lparr>snap_last_log_id = None, snap_membership = (None, default_membership), snapshot_id = ''recovery''\<rparr>)"

definition clear_account_task_queues :: "state_machine \<Rightarrow> storage_error + state_machine" where
  "clear_account_task_queues sm =
     (let n = node sm;
          ids = get_all_account_ids (acct_db (node_acct n))
      in and_then (try_fold (\<lambda>aid db. and_then (clear_task_queue aid db) (\<lambda>(_, db). Inr db)) ids (app_db (node_tasks n))) (\<lambda>db.
           Inr (sm\<lparr>node := n\<lparr>node_tasks := (node_tasks n)\<lparr>app_db := db\<rparr>\<rparr>\<rparr>)))"

definition maybe_recover_snapshot ::
    "opaque \<Rightarrow> node_db option \<Rightarrow> state_machine \<Rightarrow> storage_error + state_machine" where
  "maybe_recover_snapshot default_membership snap_file sm =
     (case snap_file of
        None \<Rightarrow> Inr sm
      | Some snap \<Rightarrow>
          (let sm = sm\<lparr>recovered_from_snapshot := True\<rparr>;
               meta = recover_snapshot_meta default_membership sm;
               sm = update_from_snapshot meta snap sm
           in clear_account_task_queues sm))"

section \<open>Hydrating the matching engine\<close>

text \<open>What the database says the engine should offer.\<close>

definition offered :: "account_db \<Rightarrow> pair \<Rightarrow> order_id \<Rightarrow> book_order option" where
  "offered db p oid =
     (case (get_account_id_for_order oid db, tx_get_order oid db) of
        (Some aid, Some o') \<Rightarrow>
          (let a = unwrap_or 0 (get_order_matchable_amount oid db) in
           if order_pair o' = p \<and> 0 < a then Some (book_order_new aid o' a) else None)
      | _ \<Rightarrow> None)"

lemma hydrate_fold:
  "hydrate_matching_engine db e =
     fold (\<lambda>(aid, o'). hydrate_order db aid o')
       (concat (map (\<lambda>aid. map (Pair aid) (get_account_orders aid db)) (get_all_account_ids db))) e"
proof -
  have "fold (\<lambda>aid e. fold (hydrate_order db aid) (get_account_orders aid db) e) ids e =
      fold (\<lambda>(aid, o'). hydrate_order db aid o') (concat (map (\<lambda>aid. map (Pair aid) (get_account_orders aid db)) ids)) e" for ids
    by (induction ids arbitrary: e) (simp_all add: fold_map comp_def)
  then show ?thesis by (simp add: hydrate_matching_engine_def)
qed

lemma hydrate_order_lookup:
  assumes "get_account_id_for_order (order_uuid o') db = Some aid" and "tx_get_order (order_uuid o') db = Some o'"
  shows "all_lookup (hydrate_order db aid o' e) p oid =
      (if oid = order_uuid o' \<and> offered db p oid \<noteq> None then offered db p oid else all_lookup e p oid)"
    and "oid \<noteq> order_uuid o' \<Longrightarrow> pool_lookup (hydrate_order db aid o' e) p pool oid = pool_lookup e p pool oid"
    and "engine_ok (pools_of db) e \<Longrightarrow> engine_ok (pools_of db) (hydrate_order db aid o' e)"
proof -
  let ?a = "unwrap_or 0 (get_order_matchable_amount (order_uuid o') db)"
  note u = upsert_updates_at [of aid o' ?a "get_matching_pool_for_order (order_uuid o') db" e]
  have off: "offered db p (order_uuid o') = (if order_pair o' = p \<and> 0 < ?a then Some (book_order_new aid o' ?a) else None)" for p
    using assms by (simp add: offered_def Let_def)
  show "all_lookup (hydrate_order db aid o' e) p oid =
      (if oid = order_uuid o' \<and> offered db p oid \<noteq> None then offered db p oid else all_lookup e p oid)"
    using u off by (auto simp: hydrate_order_def Let_def updates_at_def)
  show "oid \<noteq> order_uuid o' \<Longrightarrow> pool_lookup (hydrate_order db aid o' e) p pool oid = pool_lookup e p pool oid"
    using u by (auto simp: hydrate_order_def Let_def updates_at_def)
  show "engine_ok (pools_of db) e \<Longrightarrow> engine_ok (pools_of db) (hydrate_order db aid o' e)"
    using engine_ok_ops(1) [of "pools_of db" e aid o' ?a] by (simp add: hydrate_order_def Let_def pools_of_def)
qed

text \<open>The orders a hydration visits are the stored ones, each under its own account.\<close>

definition stored_orders :: "account_db \<Rightarrow> (account_id \<times> order) list \<Rightarrow> bool" where
  "stored_orders db xs = list_all (\<lambda>(aid, o'). get_account_id_for_order (order_uuid o') db = Some aid \<and>
     tx_get_order (order_uuid o') db = Some o') xs"

definition hydrate_orders :: "account_db \<Rightarrow> (account_id \<times> order) list \<Rightarrow> matching_engine \<Rightarrow> matching_engine" where
  "hydrate_orders db xs = fold (\<lambda>(aid, o'). hydrate_order db aid o') xs"

lemma hydrate_orders_Cons [simp]:
  "hydrate_orders db [] e = e"
  "hydrate_orders db ((aid, o') # xs) e = hydrate_orders db xs (hydrate_order db aid o' e)"
  by (simp_all add: hydrate_orders_def)

lemma stored_orders_Cons [simp]:
  "stored_orders db []"
  "stored_orders db ((aid, o') # xs) \<longleftrightarrow> get_account_id_for_order (order_uuid o') db = Some aid \<and>
     tx_get_order (order_uuid o') db = Some o' \<and> stored_orders db xs"
  by (auto simp: stored_orders_def)

lemma hydrate_orders_all:
  "stored_orders db xs \<Longrightarrow> all_lookup (hydrate_orders db xs e) p oid =
      (if oid \<in> order_uuid ` snd ` set xs \<and> offered db p oid \<noteq> None then offered db p oid else all_lookup e p oid)"
proof (induction xs arbitrary: e)
  case (Cons x xs)
  then show ?case by (cases x; cases "oid = order_uuid (snd x)") (auto simp: hydrate_order_lookup(1) simp del: image_iff)
qed simp

lemma hydrate_orders_pool:
  "stored_orders db xs \<Longrightarrow> oid \<notin> order_uuid ` snd ` set xs \<Longrightarrow>
     pool_lookup (hydrate_orders db xs e) p pool oid = pool_lookup e p pool oid"
  by (induction xs arbitrary: e) (auto simp: hydrate_order_lookup(2))

lemma hydrate_orders_ok:
  "stored_orders db xs \<Longrightarrow> engine_ok (pools_of db) e \<Longrightarrow> engine_ok (pools_of db) (hydrate_orders db xs e)"
  by (induction xs arbitrary: e) (auto simp: hydrate_order_lookup(3))

definition all_orders :: "account_db \<Rightarrow> (account_id \<times> order) list" where
  "all_orders db = concat (map (\<lambda>aid. map (Pair aid) (get_account_orders aid db)) (get_all_account_ids db))"

lemma hydrate_eq: "hydrate_matching_engine db e = hydrate_orders db (all_orders db) e"
  by (simp add: hydrate_orders_def all_orders_def hydrate_fold)

lemma all_account_ids: "account_db_ok db \<Longrightarrow> set (get_all_account_ids db) = {aid. contains_account aid db}"
proof -
  assume ok: "account_db_ok db"
  have "(aid, h) \<in> set (adb_headers db) \<longleftrightarrow> db_read aid (adb_headers db) = Some h" for aid h
    using db_read_iff [OF account_okD(1) [OF ok]] by blast
  then show ?thesis
    using account_okD(6) [OF ok] by (force simp: get_all_account_ids_def contains_account_def get_account_header_def)
qed

lemma hydrated_orders:
  assumes "account_db_ok db"
  shows "stored_orders db (all_orders db)" and "order_uuid ` snd ` set (all_orders db) = {oid. get_account_id_for_order oid db \<noteq> None}"
proof -
  have mem: "(aid, o') \<in> set (all_orders db) \<longleftrightarrow> aid \<in> set (get_all_account_ids db) \<and> o' \<in> set (get_account_orders aid db)" for aid o'
    by (auto simp: all_orders_def)
  have "get_account_id_for_order (order_uuid o') db = Some aid \<and> tx_get_order (order_uuid o') db = Some o'"
    if "(aid, o') \<in> set (all_orders db)" for aid o'
  proof -
    have o': "db_read (aid, order_uuid o') (adb_orders db) = Some o'"
      using that account_orders_iff [OF assms] mem by blast
    then show ?thesis using account_okD(7) [OF assms o'] by (simp add: tx_get_order_iff get_account_id_for_order_def)
  qed
  then show "stored_orders db (all_orders db)" unfolding stored_orders_def list_all_iff by blast
  have "order_uuid ` snd ` set (all_orders db) = (\<Union>aid \<in> set (get_all_account_ids db). order_uuid ` set (get_account_orders aid db))"
    using mem by (force simp: image_iff)
  also have "\<dots> = (\<Union>aid \<in> {aid. contains_account aid db}. own_orders aid db)"
    by (simp only: account_order_ids [OF assms] all_account_ids [OF assms])
  also have "\<dots> = {oid. get_account_id_for_order oid db \<noteq> None}"
    using account_okD(8) [OF assms] unfolding own_orders_def get_account_id_for_order_def by blast
  finally show "order_uuid ` snd ` set (all_orders db) = {oid. get_account_id_for_order oid db \<noteq> None}" .
qed

text \<open>Hydrating writes every order that should be offered and leaves every other entry alone.\<close>

lemma offered_stored: "offered db p oid \<noteq> None \<Longrightarrow> get_account_id_for_order oid db \<noteq> None"
  by (auto simp: offered_def split: option.splits)

lemma hydrate_lookup:
  assumes "account_db_ok db"
  shows "all_lookup (hydrate_matching_engine db e) p oid =
      (if offered db p oid \<noteq> None then offered db p oid else all_lookup e p oid)"
    and "get_account_id_for_order oid db = None \<Longrightarrow>
      pool_lookup (hydrate_matching_engine db e) p pool oid = pool_lookup e p pool oid"
    and "engine_ok (pools_of db) e \<Longrightarrow> engine_ok (pools_of db) (hydrate_matching_engine db e)"
  unfolding hydrate_eq using offered_stored [of db p oid] hydrate_orders_ok [OF hydrated_orders(1) [OF assms]]
  by (auto simp: hydrate_orders_all [OF hydrated_orders(1) [OF assms]] hydrate_orders_pool [OF hydrated_orders(1) [OF assms]]
      hydrated_orders(2) [OF assms])

lemma engine_new_lookup [simp]: "all_lookup engine_new p oid = None" "pool_lookup engine_new p pool oid = None"
  by (simp_all add: engine_new_def all_lookup_def pool_lookup_def)

lemma offered_entry_ok:
  assumes "offered db p oid = Some bo"
  shows "entry_ok db p oid bo"
proof -
  obtain aid o' where o': "adb_order_index db oid = Some aid" "tx_get_order oid db = Some o'" "order_pair o' = p"
      "bo = book_order_new aid o' (unwrap_or 0 (get_order_matchable_amount oid db))"
    using assms by (auto simp: offered_def get_account_id_for_order_def Let_def split: option.splits if_splits)
  then have read: "db_read (aid, oid) (adb_orders db) = Some o'" by (simp add: tx_get_order_iff)
  show ?thesis
    unfolding entry_ok_def using o' read matchable_stored [OF o'(1) read]
    by (intro exI [of _ aid] exI [of _ o']) (simp add: book_order_new_def)
qed

lemma hydrated_acct_ok:
  assumes "account_db_ok db" and "acct_db s = db" and "acct_engine s = hydrate_matching_engine db engine_new"
  shows "acct_ok s"
proof -
  have "engine_ok (pools_of db) engine_new"
    by (simp add: engine_ok_def engine_new_def books_ok_def views_agree_def pool_lookup_def all_lookup_def)
  then have "engine_ok (pools_of db) (acct_engine s)" using hydrate_lookup(3) [OF assms(1)] assms(3) by simp
  moreover have "entry_ok db p oid bo" if "all_lookup (acct_engine s) p oid = Some bo" for p oid bo
    using that assms by (auto simp: hydrate_lookup(1) intro!: offered_entry_ok split: if_splits)
  then have "booked (pairs_of db) {} db (acct_engine s)" unfolding booked_all_ok using entry_ok_pair by blast
  ultimately show ?thesis using assms(1,2) by (simp add: acct_ok_def)
qed

section \<open>Emptying the task queues\<close>

lemma delete_tasks_queues: "tdb_queues (snd (delete_tasks ts db)) = tdb_queues db"
proof (induction ts arbitrary: db)
  case (Cons t ts)
  obtain task d where d: "delete_task t db = (task, d)" "tdb_queues d = tdb_queues db" by (simp add: delete_task_def)
  then show ?case
    using Cons.IH [of d] by (cases "delete_tasks ts d") (simp add: delete_tasks.simps split: option.split)
qed (simp add: delete_tasks.simps)

lemma clear_task_queue_total:
  "\<exists>ts db'. clear_task_queue k db = Inr (ts, db') \<and> tdb_queues db' = (tdb_queues db)(k \<mapsto> task_queue_default)"
proof -
  have "check_invariants task_queue_default = Inr ()" by (simp add: check_invariants_ok check_preemption_state_def)
  moreover have "tdb_queues (delete_pending_preemption k db') = tdb_queues db'" for db'
    by (simp add: delete_pending_preemption_def Let_def same_but_pendingD(1) [OF fold_same_but_pending_entry])
  ultimately show ?thesis
    by (simp add: clear_task_queue_def write_task_queue_def delete_tasks_queues Let_def split: prod.split)
      (metis delete_tasks_queues snd_conv)
qed

lemma clear_queues_total:
  "\<exists>db'. try_fold (\<lambda>aid db. and_then (clear_task_queue aid db) (\<lambda>(_, db). Inr db)) ids db = Inr db' \<and>
     tdb_queues db' = (\<lambda>k. if k \<in> set ids then Some task_queue_default else tdb_queues db k)"
proof (induction ids arbitrary: db)
  case (Cons aid ids)
  obtain ts d where d: "clear_task_queue aid db = Inr (ts, d)" "tdb_queues d = (tdb_queues db)(aid \<mapsto> task_queue_default)"
    using clear_task_queue_total by blast
  obtain d' where "try_fold (\<lambda>aid db. and_then (clear_task_queue aid db) (\<lambda>(_, db). Inr db)) ids d = Inr d'"
      "tdb_queues d' = (\<lambda>k. if k \<in> set ids then Some task_queue_default else tdb_queues d k)"
    using Cons.IH by blast
  then show ?case using d by (auto simp: fun_eq_iff)
qed simp

lemma clear_account_task_queues_total:
  "\<exists>db'. clear_account_task_queues sm =
       Inr (sm\<lparr>node := (node sm)\<lparr>node_tasks := (node_tasks (node sm))\<lparr>app_db := db'\<rparr>\<rparr>\<rparr>) \<and>
     (\<forall>aid \<in> set (get_all_account_ids (acct_db (node_acct (node sm)))). tdb_queues db' aid = Some task_queue_default)"
  using clear_queues_total [of "get_all_account_ids (acct_db (node_acct (node sm)))" "app_db (node_tasks (node sm))"]
  by (auto simp: clear_account_task_queues_def Let_def)

section \<open>What snapshots preserve\<close>

lemma executor_irrelevant [simp]:
  "account_db_ok (db\<lparr>adb_executor := x\<rparr>) = account_db_ok db"
  "offered (db\<lparr>adb_executor := x\<rparr>) p oid = offered db p oid"
  "get_account_id_for_order oid (db\<lparr>adb_executor := x\<rparr>) = get_account_id_for_order oid db"
  "tx_get_order oid (db\<lparr>adb_executor := x\<rparr>) = tx_get_order oid db"
  "contains_account aid (db\<lparr>adb_executor := x\<rparr>) = contains_account aid db"
  "get_matching_pool_for_order oid (db\<lparr>adb_executor := x\<rparr>) = get_matching_pool_for_order oid db"
  by (simp_all add: account_db_ok_def contains_account_def get_account_header_def offered_def tx_get_order_def
      get_account_id_for_order_def get_order_matchable_amount_def tx_get_balance_def get_matching_pool_for_order_def
      cong: option.case_cong)

lemma snapshot_of:
  assumes "build_snapshot show_time now builder sm = ((meta, snap), sm')"
  shows "ndb_acct snap = (acct_db (node_acct (node sm)))\<lparr>adb_executor := None\<rparr>"
    and "snap_last_log_id meta = last_applied_log builder" "snap_membership meta = last_membership builder"
    and "sm' = sm\<lparr>sm_metadata := Some meta\<rparr>"
  using assms by (auto simp: build_snapshot_def Let_def get_snapshot_meta_def remove_excluded_tables_def node_db_of_def
      write_snapshot_metadata_def)

lemma updated_from_snapshot:
  fixes sm :: state_machine
  defines "db \<equiv> \<lambda>snap. (ndb_acct snap)\<lparr>adb_executor := adb_executor (acct_db (node_acct (node sm)))\<rparr>"
  shows "acct_db (node_acct (node (update_from_snapshot meta snap sm))) = db snap"
    and "acct_engine (node_acct (node (update_from_snapshot meta snap sm))) =
      hydrate_matching_engine (db snap) (acct_engine (node_acct (node sm)))"
    and "applied_state (update_from_snapshot meta snap sm) = (snap_last_log_id meta, snap_membership meta)"
    and "recovered_from_snapshot (update_from_snapshot meta snap sm) = recovered_from_snapshot sm"
  by (simp_all add: update_from_snapshot_def Let_def write_snapshot_metadata_def copy_db_data_def node_db_of_def
      applied_state_def db_def)

text \<open>
  C10. Recovery restores the state a snapshot was taken of. A node that starts with an empty engine
  and the metadata of a snapshot recovers from it without an error. It resumes at the snapshot's
  last applied log and membership, its account tables are those of the snapshotted node except for
  its own executor key, its engine offers exactly the stored orders with a positive matchable
  amount, each in the pool it is assigned to and for that amount, the engine invariant holds, and
  the task queue of every account is empty.
\<close>

theorem snapshot_recovery_exact:
  assumes "reachable acct_init (acct_step ps show_id) (node_acct (node sm))"
    and "build_snapshot show_time now (get_snapshot_builder sm) sm = ((meta, snap), sm')"
    and "acct_engine (node_acct (node fresh)) = engine_new" and "sm_metadata fresh = Some meta"
  shows "\<exists>r. maybe_recover_snapshot default_membership (Some snap) fresh = Inr r \<and>
     applied_state r = applied_state sm \<and> recovered_from_snapshot r \<and>
     acct_db (node_acct (node r)) = (acct_db (node_acct (node sm)))\<lparr>adb_executor := adb_executor (acct_db (node_acct (node fresh)))\<rparr> \<and>
     (\<forall>p pool oid. pool_lookup (acct_engine (node_acct (node r))) p pool oid =
        (if get_matching_pool_for_order oid (acct_db (node_acct (node sm))) = pool
         then offered (acct_db (node_acct (node sm))) p oid else None)) \<and>
     acct_ok (node_acct (node r)) \<and>
     (\<forall>aid. contains_account aid (acct_db (node_acct (node sm))) \<longrightarrow>
        tdb_queues (app_db (node_tasks (node r))) aid = Some task_queue_default)"
proof -
  let ?db = "acct_db (node_acct (node sm))" and ?x = "adb_executor (acct_db (node_acct (node fresh)))"
  let ?u = "update_from_snapshot meta snap (fresh\<lparr>recovered_from_snapshot := True\<rparr>)"
  note meta = snapshot_of [OF assms(2)]
  have ok: "account_db_ok (?db\<lparr>adb_executor := ?x\<rparr>)" using reachable_acct_ok [OF assms(1)] by (simp add: acct_ok_def)
  have u: "acct_db (node_acct (node ?u)) = ?db\<lparr>adb_executor := ?x\<rparr>"
      "acct_engine (node_acct (node ?u)) = hydrate_matching_engine (?db\<lparr>adb_executor := ?x\<rparr>) engine_new"
      "applied_state ?u = applied_state sm" "recovered_from_snapshot ?u"
    by (simp_all add: updated_from_snapshot meta assms(3)) (simp add: applied_state_def get_snapshot_builder_def)
  have acct: "acct_ok (node_acct (node ?u))" by (rule hydrated_acct_ok [OF ok u(1,2)])
  have look: "pool_lookup (acct_engine (node_acct (node ?u))) p pool oid =
      (if get_matching_pool_for_order oid ?db = pool then offered ?db p oid else None)" for p pool oid
    using acct hydrate_lookup(1) [OF ok, of engine_new p oid]
    by (auto simp: acct_ok_def engine_ok_def views_agree_def u pools_of_def)
  obtain tdb where tdb: "clear_account_task_queues ?u = Inr (?u\<lparr>node := (node ?u)\<lparr>node_tasks := (node_tasks (node ?u))\<lparr>app_db := tdb\<rparr>\<rparr>\<rparr>)"
      "\<forall>aid \<in> set (get_all_account_ids (?db\<lparr>adb_executor := ?x\<rparr>)). tdb_queues tdb aid = Some task_queue_default"
    using clear_account_task_queues_total [of ?u] unfolding u by blast
  have "maybe_recover_snapshot default_membership (Some snap) fresh = clear_account_task_queues ?u"
    by (simp add: maybe_recover_snapshot_def Let_def recover_snapshot_meta_def assms(4))
  then show ?thesis
    using tdb u acct look all_account_ids [OF ok] by (simp add: applied_state_def)
qed

definition example_leader :: "acct_state \<Rightarrow> state_machine" where
  "example_leader acct =
     example_sm\<lparr>last_applied_log := Some \<lparr>leader_term = 1, leader_node = 0, log_index = 3\<rparr>,
                node := (node example_sm)\<lparr>node_acct := acct\<rparr>\<rparr>"

lemma example_leader_acct [simp]: "node_acct (node (example_leader acct)) = acct"
  by (simp add: example_leader_def)

theorem snapshot_recovery_exact_witness:
  "\<exists>meta snap sm' r.
     build_snapshot (\<lambda>_. ''now'') 0 (get_snapshot_builder (example_leader example_acct3)) (example_leader example_acct3) = ((meta, snap), sm') \<and>
     maybe_recover_snapshot [] (Some snap) (example_sm\<lparr>sm_metadata := Some meta\<rparr>) = Inr r \<and>
     map_option log_index (last_applied_log r) = Some 3 \<and>
     pool_lookup (acct_engine (node_acct (node r))) (order_pair example_order) ''global'' 21 = Some (book_order_new 11 example_order 30) \<and>
     tdb_queues (app_db (node_tasks (node r))) 11 = Some task_queue_default"
proof -
  let ?sm = "example_leader example_acct3"
  obtain meta snap sm' where b: "build_snapshot (\<lambda>_. ''now'') 0 (get_snapshot_builder ?sm) ?sm = ((meta, snap), sm')"
    by (metis surj_pair)
  have "reachable acct_init (acct_step example_ps example_show) (node_acct (node ?sm))" using example_reachable by simp
  moreover have "acct_engine (node_acct (node (example_sm\<lparr>sm_metadata := Some meta\<rparr>))) = engine_new"
    by (simp add: example_sm_def example_acct0_def)
  moreover have "offered (acct_db example_acct3) (order_pair example_order) 21 = Some (book_order_new 11 example_order 30)"
    by (simp add: offered_def example_db3)
  ultimately show ?thesis
    using snapshot_recovery_exact [OF _ b, where fresh = "example_sm\<lparr>sm_metadata := Some meta\<rparr>" and ps = example_ps
        and show_id = example_show and default_membership = "[]"] b example_db3
    by (fastforce simp: applied_state_def example_leader_def)
qed

text \<open>
  C31. Installing a snapshot does not clear the live engine. An order that the node's engine offers
  and that the snapshot no longer has is still offered after the installation, though it is not
  in the node's database any more.
\<close>

theorem install_keeps_stale_orders:
  assumes "reachable acct_init (acct_step ps show_id) (node_acct (node leader))"
    and "build_snapshot show_time now builder leader = ((meta, snap), leader')"
    and "pool_lookup (acct_engine (node_acct (node sm))) p pool oid = Some bo"
    and "get_account_id_for_order oid (acct_db (node_acct (node leader))) = None"
  shows "pool_lookup (acct_engine (node_acct (node (install_snapshot meta snap sm)))) p pool oid = Some bo \<and>
     tx_get_order oid (acct_db (node_acct (node (install_snapshot meta snap sm)))) = None"
proof -
  have ok: "account_db_ok (ndb_acct snap)" "get_account_id_for_order oid (ndb_acct snap) = None"
    using reachable_acct_ok [OF assms(1)] assms(4) by (simp_all add: acct_ok_def snapshot_of [OF assms(2)])
  then show ?thesis
    using assms(3) by (simp add: install_snapshot_def updated_from_snapshot hydrate_lookup(2) tx_get_order_def)
qed

theorem install_keeps_stale_orders_witness:
  "\<exists>meta snap leader'.
     build_snapshot (\<lambda>_. ''now'') 0 (example_leader example_acct2) (example_leader example_acct2) = ((meta, snap), leader') \<and>
     pool_lookup (acct_engine (node_acct (node (install_snapshot meta snap (example_leader example_acct3)))))
       (order_pair example_order) ''global'' 21 = Some (book_order_new 11 example_order 30) \<and>
     tx_get_order 21 (acct_db (node_acct (node (install_snapshot meta snap (example_leader example_acct3))))) = None"
proof -
  let ?l = "example_leader example_acct2" and ?sm = "example_leader example_acct3"
  obtain meta snap leader' where b: "build_snapshot (\<lambda>_. ''now'') 0 ?l ?l = ((meta, snap), leader')"
    by (metis surj_pair)
  have r: "reachable acct_init (acct_step example_ps example_show) (node_acct (node ?l))" using example_reachable2 by simp
  have p: "pool_lookup (acct_engine (node_acct (node ?sm))) (order_pair example_order) ''global'' 21 = Some (book_order_new 11 example_order 30)"
    using upsert_updates_at [of 11 example_order 30 "''global''" engine_new]
    by (simp add: example_db3 updates_at_def example_order_fields)
  have n: "get_account_id_for_order 21 (acct_db (node_acct (node ?l))) = None"
    by (simp add: example_db2 example_db1 get_account_id_for_order_def account_db_new_def)
  show ?thesis using install_keeps_stale_orders [OF r b p n] b by blast
qed

end
