(* ===== verification/Circuit_Builder.thy ===== *)
theory Circuit_Builder
  imports Settlement
begin

text \<open>
  The interface of the constraint system that \<open>circuits/circuits-core\<close> builds its circuits on
  (the \<open>Circuit\<close> trait of the Plonk library), the contract its documentation promises, and what a
  gadget is: a computation that reads witness values, allocates variables and adds gates.

  Two facts are proved of a gadget. It is \<open>sound\<close> for a relation when every assignment that
  satisfies the gates it added has the relation between its inputs and its result. It \<open>completes\<close>
  when it neither fails nor panics and the prover's own assignment satisfies the added gates.
\<close>

section \<open>Building circuits\<close>

type_synonym variable = nat
type_synonym bool_var = variable
type_synonym assignment = "variable \<Rightarrow> scalar"

text \<open>A builder returns nothing when it panics, and otherwise an error or a result.\<close>

type_synonym ('a, 'c, 'e) build = "'c \<Rightarrow> ('e + 'a \<times> 'c) option"

definition retb :: "'a \<Rightarrow> ('a, 'c, 'e) build" where
  "retb a c = Some (Inr (a, c))"

definition bindb :: "('a, 'c, 'e) build \<Rightarrow> ('a \<Rightarrow> ('b, 'c, 'e) build) \<Rightarrow> ('b, 'c, 'e) build" where
  "bindb m f c =
     (case m c of
        None \<Rightarrow> None
      | Some (Inl e) \<Rightarrow> Some (Inl e)
      | Some (Inr (a, c')) \<Rightarrow> f a c')"

definition seqb :: "('a, 'c, 'e) build \<Rightarrow> ('b, 'c, 'e) build \<Rightarrow> ('b, 'c, 'e) build" where
  "seqb m n = bindb m (\<lambda>_. n)"

definition getb :: "('c \<Rightarrow> 'a) \<Rightarrow> ('a, 'c, 'e) build" where
  "getb f c = Some (Inr (f c, c))"

definition assertb :: "bool \<Rightarrow> (unit, 'c, 'e) build" where
  "assertb b c = (if b then Some (Inr ((), c)) else None)"

fun mapb :: "('a \<Rightarrow> ('b, 'c, 'e) build) \<Rightarrow> 'a list \<Rightarrow> ('b list, 'c, 'e) build" where
  "mapb f [] = retb []"
| "mapb f (x # xs) = bindb (f x) (\<lambda>y. bindb (mapb f xs) (\<lambda>ys. retb (y # ys)))"

fun foldb :: "('a \<Rightarrow> 's \<Rightarrow> ('s, 'c, 'e) build) \<Rightarrow> 'a list \<Rightarrow> 's \<Rightarrow> ('s, 'c, 'e) build" where
  "foldb f [] s = retb s"
| "foldb f (x # xs) s = bindb (f x s) (foldb f xs)"

section \<open>The constraint system\<close>

text \<open>
  The selectors of a gate. The selectors of products and of curve operations are zero unless a
  gate sets them, and no gate here does.
\<close>

record gate =
  q_lc :: "scalar list"
  q_hash :: "scalar list"
  q_c :: scalar
  q_o :: scalar

definition gate_holds :: "gate \<Rightarrow> scalar list \<Rightarrow> bool" where
  "gate_holds g ws \<longleftrightarrow>
     q_o g * ws ! 4 = q_c g + sum_list (map2 (*) (q_lc g) (take 4 ws)) +
       sum_list (map2 (*) (q_hash g) (map (\<lambda>x. x ^ 5) (take 4 ws)))"

record ('c, 'e) circuit =
  cs_zero :: "'c \<Rightarrow> variable"
  cs_one :: "'c \<Rightarrow> variable"
  cs_witness :: "variable \<Rightarrow> 'c \<Rightarrow> 'e + scalar"
  cs_create_variable :: "scalar \<Rightarrow> (variable, 'c, 'e) build"
  cs_create_boolean_variable :: "scalar \<Rightarrow> (bool_var, 'c, 'e) build"
  cs_enforce_equal :: "variable \<Rightarrow> variable \<Rightarrow> (unit, 'c, 'e) build"
  cs_enforce_bool :: "variable \<Rightarrow> (unit, 'c, 'e) build"
  cs_enforce_true :: "bool_var \<Rightarrow> (unit, 'c, 'e) build"
  cs_add :: "variable \<Rightarrow> variable \<Rightarrow> (variable, 'c, 'e) build"
  cs_sub :: "variable \<Rightarrow> variable \<Rightarrow> (variable, 'c, 'e) build"
  cs_mul :: "variable \<Rightarrow> variable \<Rightarrow> (variable, 'c, 'e) build"
  cs_add_constant :: "variable \<Rightarrow> scalar \<Rightarrow> (variable, 'c, 'e) build"
  cs_mul_constant :: "variable \<Rightarrow> scalar \<Rightarrow> (variable, 'c, 'e) build"
  cs_lc :: "variable list \<Rightarrow> scalar list \<Rightarrow> (variable, 'c, 'e) build"
  cs_lc_sum :: "variable list \<Rightarrow> scalar list \<Rightarrow> (variable, 'c, 'e) build"
  cs_mul_gate :: "variable \<Rightarrow> variable \<Rightarrow> variable \<Rightarrow> (unit, 'c, 'e) build"
  cs_mul_add_gate :: "variable list \<Rightarrow> scalar list \<Rightarrow> (unit, 'c, 'e) build"
  cs_mux :: "bool_var \<Rightarrow> variable \<Rightarrow> variable \<Rightarrow> (variable, 'c, 'e) build"
  cs_logic_neg :: "bool_var \<Rightarrow> (bool_var, 'c, 'e) build"
  cs_logic_and_all :: "bool_var list \<Rightarrow> (bool_var, 'c, 'e) build"
  cs_insert_gate :: "variable list \<Rightarrow> gate \<Rightarrow> (unit, 'c, 'e) build"
  fr_inverse :: "scalar \<Rightarrow> scalar option"

definition val :: "('c, 'e) circuit \<Rightarrow> 'c \<Rightarrow> variable \<Rightarrow> scalar option" where
  "val P c v = (case cs_witness P v c of Inl _ \<Rightarrow> None | Inr x \<Rightarrow> Some x)"

definition vals :: "('c, 'e) circuit \<Rightarrow> 'c \<Rightarrow> variable list \<Rightarrow> scalar list \<Rightarrow> bool" where
  "vals P c vs xs \<longleftrightarrow> map (val P c) vs = map Some xs"

text \<open>Variables are never reassigned.\<close>

definition extends :: "('c, 'e) circuit \<Rightarrow> 'c \<Rightarrow> 'c \<Rightarrow> bool" where
  "extends P c c' \<longleftrightarrow> val P c \<subseteq>\<^sub>m val P c'"

text \<open>The prover's assignment satisfies the gates.\<close>

definition honest :: "('c, 'e) circuit \<Rightarrow> ('c \<Rightarrow> assignment \<Rightarrow> bool) \<Rightarrow> 'c \<Rightarrow> bool" where
  "honest P sat c \<longleftrightarrow> (\<forall>w. (\<forall>v x. val P c v = Some x \<longrightarrow> w v = x) \<longrightarrow> sat c w)"

definition sound ::
    "('c \<Rightarrow> assignment \<Rightarrow> bool) \<Rightarrow> ('a, 'c, 'e) build \<Rightarrow> (assignment \<Rightarrow> 'a \<Rightarrow> bool) \<Rightarrow> bool" where
  "sound sat m R \<longleftrightarrow>
     (\<forall>c a c' w. m c = Some (Inr (a, c')) \<longrightarrow> sat c' w \<longrightarrow> sat c w \<and> R w a)"

definition completes ::
    "('c, 'e) circuit \<Rightarrow> ('c \<Rightarrow> assignment \<Rightarrow> bool) \<Rightarrow> ('a, 'c, 'e) build \<Rightarrow> 'c \<Rightarrow> ('a \<Rightarrow> 'c \<Rightarrow> bool) \<Rightarrow> bool" where
  "completes P sat m c Q \<longleftrightarrow>
     (\<exists>a c'. m c = Some (Inr (a, c')) \<and> extends P c c' \<and> (honest P sat c \<longrightarrow> honest P sat c') \<and> Q a c')"

definition lin :: "scalar list \<Rightarrow> scalar list \<Rightarrow> scalar" where
  "lin xs coeffs = sum_list (map2 (*) xs coeffs)"

section \<open>Rules\<close>

named_theorems sound_intros \<open>soundness of gadgets\<close>

lemma soundD: "sound sat m R \<Longrightarrow> m c = Some (Inr (a, c')) \<Longrightarrow> sat c' w \<Longrightarrow> sat c w \<and> R w a"
  by (auto simp: sound_def)

lemma sound_weaken: "sound sat m R \<Longrightarrow> (\<And>w a. R w a \<Longrightarrow> Q w a) \<Longrightarrow> sound sat m Q"
  by (auto simp: sound_def)

lemma sound_bind:
  assumes "sound sat m R" and "\<And>a. sound sat (f a) (\<lambda>w b. R w a \<longrightarrow> Q w b)"
  shows "sound sat (bindb m f) Q"
  using assms unfolding sound_def bindb_def
  by (fastforce split: option.splits sum.splits prod.splits)

lemma sound_seq:
  assumes "sound sat m R" and "sound sat n (\<lambda>w b. (\<exists>a. R w a) \<longrightarrow> Q w b)"
  shows "sound sat (seqb m n) Q"
  unfolding seqb_def by (rule sound_bind [OF assms(1)], rule sound_weaken [OF assms(2)]) blast

lemma sound_ret: "(\<And>w. Q w a) \<Longrightarrow> sound sat (retb a) Q"
  by (simp add: sound_def retb_def)

lemma sound_assert: "sound sat (assertb b) (\<lambda>_ _. b)"
  by (auto simp: sound_def assertb_def split: if_splits)

lemma sound_map:
  assumes "\<And>x. x \<in> set xs \<Longrightarrow> sound sat (f x) (R x)"
  shows "sound sat (mapb f xs) (\<lambda>w ys. list_all2 (\<lambda>x y. R x w y) xs ys)"
  using assms
proof (induction xs)
  case (Cons x xs)
  then have "sound sat (f x) (R x)" "sound sat (mapb f xs) (\<lambda>w ys. list_all2 (\<lambda>x y. R x w y) xs ys)"
    by simp_all
  then show ?case
    by (auto intro!: sound_bind [of _ "f x"] sound_bind [of _ "mapb f xs"] sound_ret)
qed (simp add: sound_ret)

lemma sound_fold:
  assumes "\<And>x s. x \<in> set xs \<Longrightarrow> sound sat (f x s) (\<lambda>w s'. I w s \<longrightarrow> I w s')"
  shows "sound sat (foldb f xs s) (\<lambda>w s'. I w s \<longrightarrow> I w s')"
  using assms
proof (induction xs arbitrary: s)
  case (Cons x xs)
  have one: "sound sat (f x s) (\<lambda>w s'. I w s \<longrightarrow> I w s')" using Cons.prems by simp
  have rest: "sound sat (foldb f xs t) (\<lambda>w s'. I w t \<longrightarrow> I w s')" for t
    using Cons by simp
  show ?case
    unfolding foldb.simps by (rule sound_bind [OF one], rule sound_weaken [OF rest]) blast
qed (simp add: sound_ret)

lemma extends_refl [simp]: "extends P c c"
  by (simp add: extends_def)

lemma extends_trans: "extends P c d \<Longrightarrow> extends P d e \<Longrightarrow> extends P c e"
  unfolding extends_def by (rule map_le_trans)

lemma val_mono: "extends P c d \<Longrightarrow> val P c v = Some x \<Longrightarrow> val P d v = Some x"
  by (metis domI extends_def map_le_def)

lemma vals_mono: "extends P c d \<Longrightarrow> vals P c vs xs \<Longrightarrow> vals P d vs xs"
proof (induction vs arbitrary: xs)
  case (Cons v vs)
  then show ?case by (cases xs) (auto simp: vals_def intro: val_mono)
qed (simp add: vals_def)

lemma vals_simps [simp]:
  "vals P c [] []"
  "vals P c (v # vs) (x # xs) \<longleftrightarrow> val P c v = Some x \<and> vals P c vs xs"
  "vals P c [] (x # xs) \<longleftrightarrow> False" "vals P c (v # vs) [] \<longleftrightarrow> False"
  by (simp_all add: vals_def)

lemma vals_append: "length vs = length xs \<Longrightarrow> vals P c (vs @ us) (xs @ ys) \<longleftrightarrow> vals P c vs xs \<and> vals P c us ys"
  by (simp add: vals_def)

lemma vals_length: "vals P c vs xs \<Longrightarrow> length vs = length xs"
  by (metis length_map vals_def)

lemma completes_weaken:
  "completes P sat m c R \<Longrightarrow> (\<And>a c'. extends P c c' \<Longrightarrow> R a c' \<Longrightarrow> Q a c') \<Longrightarrow> completes P sat m c Q"
  by (auto simp: completes_def)

lemma completes_bind:
  assumes "completes P sat m c R"
    and "\<And>a c'. extends P c c' \<Longrightarrow> R a c' \<Longrightarrow> completes P sat (f a) c' Q"
  shows "completes P sat (bindb m f) c Q"
proof -
  obtain a d where d: "m c = Some (Inr (a, d))" "extends P c d" "honest P sat c \<longrightarrow> honest P sat d" "R a d"
    using assms(1) by (auto simp: completes_def)
  obtain b e where "f a d = Some (Inr (b, e))" "extends P d e" "honest P sat d \<longrightarrow> honest P sat e" "Q b e"
    using assms(2) [OF d(2,4)] by (auto simp: completes_def)
  then show ?thesis
    using d extends_trans [of P c d e] by (auto simp: completes_def bindb_def)
qed

lemma completes_seq:
  assumes "completes P sat m c R"
    and "\<And>a c'. extends P c c' \<Longrightarrow> R a c' \<Longrightarrow> completes P sat n c' Q"
  shows "completes P sat (seqb m n) c Q"
  unfolding seqb_def by (rule completes_bind [OF assms])

lemma completes_ret: "Q a c \<Longrightarrow> completes P sat (retb a) c Q"
  by (simp add: completes_def retb_def)

lemma completes_get: "Q (f c) c \<Longrightarrow> completes P sat (getb f) c Q"
  by (simp add: completes_def getb_def)

lemma completes_assert: "b \<Longrightarrow> Q () c \<Longrightarrow> completes P sat (assertb b) c Q"
  by (simp add: completes_def assertb_def)

lemma completes_map:
  assumes "\<And>d x. extends P c d \<Longrightarrow> x \<in> set xs \<Longrightarrow> completes P sat (f x) d (\<lambda>v d'. val P d' v = Some (g x))"
  shows "completes P sat (mapb f xs) c (\<lambda>vs d. vals P d vs (map g xs))"
  using assms
proof (induction xs arbitrary: c)
  case (Cons x xs)
  show ?case
  proof (simp, rule completes_bind [where R = "\<lambda>v d'. val P d' v = Some (g x)"])
    show "completes P sat (f x) c (\<lambda>v d'. val P d' v = Some (g x))" using Cons.prems by simp
    fix v d
    assume d: "extends P c d" "val P d v = Some (g x)"
    show "completes P sat (bindb (mapb f xs) (\<lambda>ys. retb (v # ys))) d (\<lambda>vs d. vals P d vs (g x # map g xs))"
    proof (rule completes_bind [where R = "\<lambda>vs e. vals P e vs (map g xs)"])
      show "completes P sat (mapb f xs) d (\<lambda>vs e. vals P e vs (map g xs))"
        by (rule Cons.IH) (use Cons.prems extends_trans [OF d(1)] in simp)
      show "completes P sat (retb (v # vs)) e (\<lambda>vs d. vals P d vs (g x # map g xs))"
        if "extends P d e" "vals P e vs (map g xs)" for vs e
        by (rule completes_ret) (use that d(2) val_mono in simp)
    qed
  qed
qed (simp add: completes_ret)

lemma completes_bind_vals:
  assumes "vals P c vs xs" "completes P sat m c (\<lambda>v c'. val P c' v = Some x)"
    and "\<And>v c'. vals P c' (v # vs) (x # xs) \<Longrightarrow> completes P sat (f v) c' Q"
  shows "completes P sat (bindb m f) c Q"
  by (rule completes_bind [OF assms(2)], rule assms(3)) (simp add: vals_mono [OF _ assms(1)])

lemma completes_seq_vals:
  assumes "vals P c vs xs" "completes P sat m c (\<lambda>_ _. True)"
    and "\<And>c'. vals P c' vs xs \<Longrightarrow> completes P sat n c' Q"
  shows "completes P sat (seqb m n) c Q"
  by (rule completes_seq [OF assms(2)], rule assms(3)) (simp add: vals_mono [OF _ assms(1)])

text \<open>A fact that survives every extension of the circuit holds after a gadget.\<close>

lemma completes_seq_mono:
  assumes "completes P sat m c (\<lambda>_ _. True)" "T c" "\<And>d. extends P c d \<Longrightarrow> T c \<Longrightarrow> T d" "\<And>d. T d \<Longrightarrow> completes P sat n d Q"
  shows "completes P sat (seqb m n) c Q"
  using assms by (auto intro!: completes_seq [OF assms(1)])

lemma honestI: "(\<And>w. (\<And>v x. val P c v = Some x \<Longrightarrow> w v = x) \<Longrightarrow> sat c w) \<Longrightarrow> honest P sat c"
  by (auto simp: honest_def)

section \<open>The contract\<close>

locale circuit_contract =
  fixes P :: "('c, 'e) circuit" and sat :: "'c \<Rightarrow> assignment \<Rightarrow> bool"
  assumes zero_sat: "sat c w \<Longrightarrow> w (cs_zero P c) = 0"
    and one_sat: "sat c w \<Longrightarrow> w (cs_one P c) = 1"
    and zero_val: "val P c (cs_zero P c) = Some 0"
    and one_val: "val P c (cs_one P c) = Some 1"
    and create_sound: "sound sat (cs_create_variable P x) (\<lambda>_ _. True)"
    and create_complete: "completes P sat (cs_create_variable P x) c (\<lambda>v c'. val P c' v = Some x)"
    and boolean_sound: "sound sat (cs_create_boolean_variable P x) (\<lambda>w v. w v = 0 \<or> w v = 1)"
    and boolean_complete: "x = 0 \<or> x = 1 \<Longrightarrow>
      completes P sat (cs_create_boolean_variable P x) c (\<lambda>v c'. val P c' v = Some x)"
    and enforce_equal_sound: "sound sat (cs_enforce_equal P a b) (\<lambda>w _. w a = w b)"
    and enforce_equal_complete: "val P c a = Some x \<Longrightarrow> val P c b = Some x \<Longrightarrow>
      completes P sat (cs_enforce_equal P a b) c (\<lambda>_ _. True)"
    and enforce_bool_sound: "sound sat (cs_enforce_bool P a) (\<lambda>w _. w a = 0 \<or> w a = 1)"
    and enforce_bool_complete: "val P c a = Some x \<Longrightarrow> x = 0 \<or> x = 1 \<Longrightarrow>
      completes P sat (cs_enforce_bool P a) c (\<lambda>_ _. True)"
    and enforce_true_sound: "sound sat (cs_enforce_true P a) (\<lambda>w _. w a = 1)"
    and enforce_true_complete: "val P c a = Some 1 \<Longrightarrow> completes P sat (cs_enforce_true P a) c (\<lambda>_ _. True)"
    and add_sound: "sound sat (cs_add P a b) (\<lambda>w v. w v = w a + w b)"
    and add_complete: "val P c a = Some x \<Longrightarrow> val P c b = Some y \<Longrightarrow>
      completes P sat (cs_add P a b) c (\<lambda>v c'. val P c' v = Some (x + y))"
    and sub_sound: "sound sat (cs_sub P a b) (\<lambda>w v. w v = w a - w b)"
    and sub_complete: "val P c a = Some x \<Longrightarrow> val P c b = Some y \<Longrightarrow>
      completes P sat (cs_sub P a b) c (\<lambda>v c'. val P c' v = Some (x - y))"
    and mul_sound: "sound sat (cs_mul P a b) (\<lambda>w v. w v = w a * w b)"
    and mul_complete: "val P c a = Some x \<Longrightarrow> val P c b = Some y \<Longrightarrow>
      completes P sat (cs_mul P a b) c (\<lambda>v c'. val P c' v = Some (x * y))"
    and add_constant_sound: "sound sat (cs_add_constant P a k) (\<lambda>w v. w v = w a + k)"
    and add_constant_complete: "val P c a = Some x \<Longrightarrow>
      completes P sat (cs_add_constant P a k) c (\<lambda>v c'. val P c' v = Some (x + k))"
    and mul_constant_sound: "sound sat (cs_mul_constant P a k) (\<lambda>w v. w v = w a * k)"
    and mul_constant_complete: "val P c a = Some x \<Longrightarrow>
      completes P sat (cs_mul_constant P a k) c (\<lambda>v c'. val P c' v = Some (x * k))"
    and lc_sound: "sound sat (cs_lc P vs ks) (\<lambda>w v. w v = lin (map w vs) ks)"
    and lc_complete: "vals P c vs xs \<Longrightarrow>
      completes P sat (cs_lc P vs ks) c (\<lambda>v c'. val P c' v = Some (lin xs ks))"
    and lc_sum_sound: "sound sat (cs_lc_sum P vs ks) (\<lambda>w v. w v = lin (map w vs) ks)"
    and lc_sum_complete: "vals P c vs xs \<Longrightarrow>
      completes P sat (cs_lc_sum P vs ks) c (\<lambda>v c'. val P c' v = Some (lin xs ks))"
    and mul_gate_sound: "sound sat (cs_mul_gate P a b d) (\<lambda>w _. w a * w b = w d)"
    and mul_gate_complete: "val P c a = Some x \<Longrightarrow> val P c b = Some y \<Longrightarrow> val P c d = Some (x * y) \<Longrightarrow>
      completes P sat (cs_mul_gate P a b d) c (\<lambda>_ _. True)"
    and mul_add_gate_sound: "sound sat (cs_mul_add_gate P [a, b, d, e, f] [k, l])
      (\<lambda>w _. k * (w a * w b) + l * (w d * w e) = w f)"
    and mul_add_gate_complete: "vals P c [a, b, d, e, f] [x, y, z, u, k * (x * y) + l * (z * u)] \<Longrightarrow>
      completes P sat (cs_mul_add_gate P [a, b, d, e, f] [k, l]) c (\<lambda>_ _. True)"
    and mux_sound: "sound sat (cs_mux P a b d) (\<lambda>w v. w v = w a * w b + (1 - w a) * w d)"
    and mux_complete: "vals P c [a, b, d] [x, y, z] \<Longrightarrow>
      completes P sat (cs_mux P a b d) c (\<lambda>v c'. val P c' v = Some (x * y + (1 - x) * z))"
    and logic_neg_sound: "sound sat (cs_logic_neg P a) (\<lambda>w v. w v = 1 - w a)"
    and logic_neg_complete: "val P c a = Some x \<Longrightarrow>
      completes P sat (cs_logic_neg P a) c (\<lambda>v c'. val P c' v = Some (1 - x))"
    and logic_and_all_sound: "sound sat (cs_logic_and_all P vs) (\<lambda>w v. w v = prod_list (map w vs))"
    and logic_and_all_complete: "vs \<noteq> [] \<Longrightarrow> vals P c vs xs \<Longrightarrow>
      completes P sat (cs_logic_and_all P vs) c (\<lambda>v c'. val P c' v = Some (prod_list xs))"
    and insert_gate_sound: "sound sat (cs_insert_gate P vs g) (\<lambda>w _. gate_holds g (map w vs))"
    and insert_gate_complete: "vals P c vs xs \<Longrightarrow> gate_holds g xs \<Longrightarrow>
      completes P sat (cs_insert_gate P vs g) c (\<lambda>_ _. True)"
    and inverse_unit: "fr_inverse P x = Some y \<Longrightarrow> x * y = 1"
begin

lemma zero_sound: "sound sat (getb (cs_zero P)) (\<lambda>w v. w v = 0)"
  by (auto simp: sound_def getb_def zero_sat)

lemma one_sound: "sound sat (getb (cs_one P)) (\<lambda>w v. w v = 1)"
  by (auto simp: sound_def getb_def one_sat)

lemma zero_complete: "completes P sat (getb (cs_zero P)) c (\<lambda>v c'. val P c' v = Some 0)"
  by (rule completes_get) (rule zero_val)

lemma one_complete: "completes P sat (getb (cs_one P)) c (\<lambda>v c'. val P c' v = Some 1)"
  by (rule completes_get) (rule one_val)

lemmas op_sound = zero_sound one_sound create_sound boolean_sound enforce_equal_sound enforce_bool_sound enforce_true_sound
  add_sound sub_sound mul_sound add_constant_sound mul_constant_sound lc_sound lc_sum_sound mul_gate_sound
  mul_add_gate_sound mux_sound logic_neg_sound logic_and_all_sound insert_gate_sound

end

section \<open>A reference constraint system\<close>

text \<open>
  The state lists the values of the allocated variables after the constants zero and one, and
  the gates as predicates of an assignment. Using a variable that is not allocated is an error.
\<close>

record ref_cs =
  ref_values :: "scalar list"
  ref_gates :: "(assignment \<Rightarrow> bool) list"

definition ref_witness :: "variable \<Rightarrow> ref_cs \<Rightarrow> unit + scalar" where
  "ref_witness v c =
     (if v < 2 + length (ref_values c) then Inr ((0 # 1 # ref_values c) ! v) else Inl ())"

definition ref_sat :: "ref_cs \<Rightarrow> assignment \<Rightarrow> bool" where
  "ref_sat c w \<longleftrightarrow> w 0 = 0 \<and> w 1 = 1 \<and> list_all (\<lambda>g. g w) (ref_gates c)"

text \<open>An operation allocates a variable for the result and adds the gate that defines it.\<close>

definition ref_alloc :: "ref_cs \<Rightarrow> variable list \<Rightarrow> bool" where
  "ref_alloc c vs \<longleftrightarrow> list_all (\<lambda>v. v < 2 + length (ref_values c)) vs"

definition ref_vals :: "ref_cs \<Rightarrow> variable list \<Rightarrow> scalar list" where
  "ref_vals c vs = map (\<lambda>v. (0 # 1 # ref_values c) ! v) vs"

definition ref_op ::
    "variable list \<Rightarrow> (scalar list \<Rightarrow> scalar) \<Rightarrow> (scalar list \<Rightarrow> scalar \<Rightarrow> bool) \<Rightarrow> (variable, ref_cs, unit) build" where
  "ref_op vs f rel c =
     Some (if ref_alloc c vs
           then (let v = 2 + length (ref_values c) in
             Inr (v, \<lparr>ref_values = ref_values c @ [f (ref_vals c vs)],
                      ref_gates = (\<lambda>w. rel (map w vs) (w v)) # ref_gates c\<rparr>))
           else Inl ())"

definition ref_gate :: "variable list \<Rightarrow> (scalar list \<Rightarrow> bool) \<Rightarrow> (unit, ref_cs, unit) build" where
  "ref_gate vs rel c =
     Some (if ref_alloc c vs then Inr ((), c\<lparr>ref_gates := (\<lambda>w. rel (map w vs)) # ref_gates c\<rparr>) else Inl ())"

definition ref_calc :: "variable list \<Rightarrow> (scalar list \<Rightarrow> scalar) \<Rightarrow> (variable, ref_cs, unit) build" where
  "ref_calc vs f = ref_op vs f (\<lambda>xs y. y = f xs)"

definition ref_circuit :: "(ref_cs, unit) circuit" where
  "ref_circuit =
     \<lparr>cs_zero = (\<lambda>_. 0), cs_one = (\<lambda>_. 1), cs_witness = ref_witness,
      cs_create_variable = (\<lambda>x. ref_op [] (\<lambda>_. x) (\<lambda>_ _. True)),
      cs_create_boolean_variable = (\<lambda>x. ref_op [] (\<lambda>_. x) (\<lambda>_ y. y = 0 \<or> y = 1)),
      cs_enforce_equal = (\<lambda>a b. ref_gate [a, b] (\<lambda>xs. xs ! 0 = xs ! 1)),
      cs_enforce_bool = (\<lambda>a. ref_gate [a] (\<lambda>xs. xs ! 0 = 0 \<or> xs ! 0 = 1)),
      cs_enforce_true = (\<lambda>a. ref_gate [a] (\<lambda>xs. xs ! 0 = 1)),
      cs_add = (\<lambda>a b. ref_calc [a, b] (\<lambda>xs. xs ! 0 + xs ! 1)),
      cs_sub = (\<lambda>a b. ref_calc [a, b] (\<lambda>xs. xs ! 0 - xs ! 1)),
      cs_mul = (\<lambda>a b. ref_calc [a, b] (\<lambda>xs. xs ! 0 * xs ! 1)),
      cs_add_constant = (\<lambda>a k. ref_calc [a] (\<lambda>xs. xs ! 0 + k)),
      cs_mul_constant = (\<lambda>a k. ref_calc [a] (\<lambda>xs. xs ! 0 * k)),
      cs_lc = (\<lambda>vs ks. ref_calc vs (\<lambda>xs. lin xs ks)),
      cs_lc_sum = (\<lambda>vs ks. ref_calc vs (\<lambda>xs. lin xs ks)),
      cs_mul_gate = (\<lambda>a b d. ref_gate [a, b, d] (\<lambda>xs. xs ! 0 * xs ! 1 = xs ! 2)),
      cs_mul_add_gate = (\<lambda>vs ks. ref_gate vs (\<lambda>xs. ks ! 0 * (xs ! 0 * xs ! 1) + ks ! 1 * (xs ! 2 * xs ! 3) = xs ! 4)),
      cs_mux = (\<lambda>b x y. ref_calc [b, x, y] (\<lambda>xs. xs ! 0 * xs ! 1 + (1 - xs ! 0) * xs ! 2)),
      cs_logic_neg = (\<lambda>a. ref_calc [a] (\<lambda>xs. 1 - xs ! 0)),
      cs_logic_and_all = (\<lambda>vs. if vs = [] then (\<lambda>_. Some (Inl ())) else ref_calc vs prod_list),
      cs_insert_gate = (\<lambda>vs g. ref_gate vs (gate_holds g)),
      fr_inverse = (\<lambda>x. if x = 1 then Some 1 else None)\<rparr>"

lemma ref_val:
  "val ref_circuit c v = (if v < 2 + length (ref_values c) then Some ((0 # 1 # ref_values c) ! v) else None)"
  by (simp add: val_def ref_circuit_def ref_witness_def)

lemma ref_vals_iff: "vals ref_circuit c vs xs \<longleftrightarrow> ref_alloc c vs \<and> xs = ref_vals c vs"
proof (induction vs arbitrary: xs)
  case (Cons v vs)
  then show ?case by (cases xs) (auto simp: ref_val ref_alloc_def ref_vals_def)
qed (auto simp: vals_def ref_alloc_def ref_vals_def)

lemma ref_op_sound: "sound ref_sat (ref_op vs f rel) (\<lambda>w v. rel (map w vs) (w v))"
  by (auto simp: sound_def ref_op_def ref_sat_def Let_def split: if_splits)

lemma ref_gate_sound: "sound ref_sat (ref_gate vs rel) (\<lambda>w _. rel (map w vs))"
  by (auto simp: sound_def ref_gate_def ref_sat_def split: if_splits)

text \<open>The values an assignment that agrees with the state gives to allocated variables.\<close>

lemma ref_agree:
  assumes "\<forall>v x. val ref_circuit c v = Some x \<longrightarrow> w v = x" and "vals ref_circuit c vs xs"
  shows "map w vs = xs"
  using assms(2)
proof (induction vs arbitrary: xs)
  case (Cons v vs)
  then show ?case using assms(1) by (cases xs) auto
qed (simp add: vals_def)

lemma ref_op_complete:
  assumes "vals ref_circuit c vs xs" and "rel xs (f xs)"
  shows "completes ref_circuit ref_sat (ref_op vs f rel) c (\<lambda>v c'. val ref_circuit c' v = Some (f xs))"
proof -
  let ?v = "2 + length (ref_values c)"
  let ?c = "\<lparr>ref_values = ref_values c @ [f xs], ref_gates = (\<lambda>w. rel (map w vs) (w ?v)) # ref_gates c\<rparr>"
  have ext: "extends ref_circuit c ?c"
    by (auto simp: extends_def map_le_def ref_val nth_append nth_Cons')
  have v: "val ref_circuit ?c ?v = Some (f xs)" by (simp add: ref_val nth_append)
  have "honest ref_circuit ref_sat ?c" if h: "honest ref_circuit ref_sat c"
  proof (rule honestI)
    fix w
    assume w: "\<And>v x. val ref_circuit ?c v = Some x \<Longrightarrow> w v = x"
    then have old: "\<forall>v x. val ref_circuit c v = Some x \<longrightarrow> w v = x" using val_mono [OF ext] by blast
    then have "ref_sat c w" using h by (auto simp: honest_def)
    moreover have "map w vs = xs" by (rule ref_agree [OF old assms(1)])
    ultimately show "ref_sat ?c w" using w [OF v] assms(2) by (simp add: ref_sat_def)
  qed
  then show ?thesis
    using assms(1) ext v by (auto simp: completes_def ref_op_def ref_vals_iff Let_def)
qed

lemma ref_gate_complete:
  assumes "vals ref_circuit c vs xs" and "rel xs"
  shows "completes ref_circuit ref_sat (ref_gate vs rel) c (\<lambda>_ _. True)"
proof -
  let ?c = "c\<lparr>ref_gates := (\<lambda>w. rel (map w vs)) # ref_gates c\<rparr>"
  have ext: "extends ref_circuit c ?c" "\<And>v. val ref_circuit ?c v = val ref_circuit c v"
    by (auto simp: extends_def map_le_def ref_val)
  have "honest ref_circuit ref_sat ?c" if h: "honest ref_circuit ref_sat c"
  proof (rule honestI)
    fix w
    assume w: "\<And>v x. val ref_circuit ?c v = Some x \<Longrightarrow> w v = x"
    then have old: "\<forall>v x. val ref_circuit c v = Some x \<longrightarrow> w v = x" using ext(2) by simp
    then show "ref_sat ?c w"
      using h ref_agree [OF old assms(1)] assms(2) by (auto simp: ref_sat_def honest_def)
  qed
  then show ?thesis
    using assms(1) ext(1) by (auto simp: completes_def ref_gate_def ref_vals_iff)
qed

lemma ref_fields:
  "cs_zero ref_circuit = (\<lambda>_. 0)"
  "cs_one ref_circuit = (\<lambda>_. 1)"
  "cs_witness ref_circuit = ref_witness"
  "cs_create_variable ref_circuit = (\<lambda>x. ref_op [] (\<lambda>_. x) (\<lambda>_ _. True))"
  "cs_create_boolean_variable ref_circuit = (\<lambda>x. ref_op [] (\<lambda>_. x) (\<lambda>_ y. y = 0 \<or> y = 1))"
  "cs_enforce_equal ref_circuit = (\<lambda>a b. ref_gate [a, b] (\<lambda>xs. xs ! 0 = xs ! 1))"
  "cs_enforce_bool ref_circuit = (\<lambda>a. ref_gate [a] (\<lambda>xs. xs ! 0 = 0 \<or> xs ! 0 = 1))"
  "cs_enforce_true ref_circuit = (\<lambda>a. ref_gate [a] (\<lambda>xs. xs ! 0 = 1))"
  "cs_add ref_circuit = (\<lambda>a b. ref_calc [a, b] (\<lambda>xs. xs ! 0 + xs ! 1))"
  "cs_sub ref_circuit = (\<lambda>a b. ref_calc [a, b] (\<lambda>xs. xs ! 0 - xs ! 1))"
  "cs_mul ref_circuit = (\<lambda>a b. ref_calc [a, b] (\<lambda>xs. xs ! 0 * xs ! 1))"
  "cs_add_constant ref_circuit = (\<lambda>a k. ref_calc [a] (\<lambda>xs. xs ! 0 + k))"
  "cs_mul_constant ref_circuit = (\<lambda>a k. ref_calc [a] (\<lambda>xs. xs ! 0 * k))"
  "cs_lc ref_circuit = (\<lambda>vs ks. ref_calc vs (\<lambda>xs. lin xs ks))"
  "cs_lc_sum ref_circuit = (\<lambda>vs ks. ref_calc vs (\<lambda>xs. lin xs ks))"
  "cs_mul_gate ref_circuit = (\<lambda>a b d. ref_gate [a, b, d] (\<lambda>xs. xs ! 0 * xs ! 1 = xs ! 2))"
  "cs_mul_add_gate ref_circuit = (\<lambda>vs ks. ref_gate vs (\<lambda>xs. ks ! 0 * (xs ! 0 * xs ! 1) + ks ! 1 * (xs ! 2 * xs ! 3) = xs ! 4))"
  "cs_mux ref_circuit = (\<lambda>b x y. ref_calc [b, x, y] (\<lambda>xs. xs ! 0 * xs ! 1 + (1 - xs ! 0) * xs ! 2))"
  "cs_logic_neg ref_circuit = (\<lambda>a. ref_calc [a] (\<lambda>xs. 1 - xs ! 0))"
  "cs_logic_and_all ref_circuit = (\<lambda>vs. if vs = [] then (\<lambda>_. Some (Inl ())) else ref_calc vs prod_list)"
  "cs_insert_gate ref_circuit = (\<lambda>vs g. ref_gate vs (gate_holds g))"
  "fr_inverse ref_circuit = (\<lambda>x. if x = 1 then Some 1 else None)"
  by (simp_all add: ref_circuit_def)

lemma ref_calc_sound: "sound ref_sat (ref_calc vs f) (\<lambda>w v. w v = f (map w vs))"
  unfolding ref_calc_def by (rule sound_weaken [OF ref_op_sound])

lemma ref_calc_complete:
  "vals ref_circuit c vs xs \<Longrightarrow>
     completes ref_circuit ref_sat (ref_calc vs f) c (\<lambda>v c'. val ref_circuit c' v = Some (f xs))"
  unfolding ref_calc_def by (rule ref_op_complete) simp_all

interpretation ref: circuit_contract ref_circuit ref_sat
proof (unfold_locales, goal_cases)
  case (5 x)
  show ?case using ref_op_sound [of "[]" "\<lambda>_. x" "\<lambda>_ _. True"] by (simp add: ref_fields)
next
  case (6 x c)
  show ?case using ref_op_complete [of c "[]" "[]" "\<lambda>_ _. True" "\<lambda>_. x"] by (simp add: ref_fields)
next
  case (7 x)
  show ?case using ref_op_sound [of "[]" "\<lambda>_. x" "\<lambda>_ y. y = 0 \<or> y = 1"] by (simp add: ref_fields)
next
  case (8 x c)
  then show ?case using ref_op_complete [of c "[]" "[]" "\<lambda>_ y. y = 0 \<or> y = 1" "\<lambda>_. x"] by (simp add: ref_fields)
next
  case (9 a b)
  show ?case using ref_gate_sound [of "[a, b]" "\<lambda>xs. xs ! 0 = xs ! 1"] by (simp add: ref_fields)
next
  case (10 c a x b)
  then show ?case using ref_gate_complete [of c "[a, b]" "[x, x]" "\<lambda>xs. xs ! 0 = xs ! 1"] by (simp add: ref_fields)
next
  case (11 a)
  show ?case using ref_gate_sound [of "[a]" "\<lambda>xs. xs ! 0 = 0 \<or> xs ! 0 = 1"] by (simp add: ref_fields)
next
  case (12 c a x)
  then show ?case using ref_gate_complete [of c "[a]" "[x]" "\<lambda>xs. xs ! 0 = 0 \<or> xs ! 0 = 1"] by (simp add: ref_fields)
next
  case (13 a)
  show ?case using ref_gate_sound [of "[a]" "\<lambda>xs. xs ! 0 = 1"] by (simp add: ref_fields)
next
  case (14 c a)
  then show ?case using ref_gate_complete [of c "[a]" "[1]" "\<lambda>xs. xs ! 0 = 1"] by (simp add: ref_fields)
next
  case (15 a b)
  show ?case using ref_calc_sound [of "[a, b]" "\<lambda>xs. xs ! 0 + xs ! 1"] by (simp add: ref_fields)
next
  case (16 c a x b y)
  then show ?case using ref_calc_complete [of c "[a, b]" "[x, y]" "\<lambda>xs. xs ! 0 + xs ! 1"] by (simp add: ref_fields)
next
  case (17 a b)
  show ?case using ref_calc_sound [of "[a, b]" "\<lambda>xs. xs ! 0 - xs ! 1"] by (simp add: ref_fields)
next
  case (18 c a x b y)
  then show ?case using ref_calc_complete [of c "[a, b]" "[x, y]" "\<lambda>xs. xs ! 0 - xs ! 1"] by (simp add: ref_fields)
next
  case (19 a b)
  show ?case using ref_calc_sound [of "[a, b]" "\<lambda>xs. xs ! 0 * xs ! 1"] by (simp add: ref_fields)
next
  case (20 c a x b y)
  then show ?case using ref_calc_complete [of c "[a, b]" "[x, y]" "\<lambda>xs. xs ! 0 * xs ! 1"] by (simp add: ref_fields)
next
  case (21 a k)
  show ?case using ref_calc_sound [of "[a]" "\<lambda>xs. xs ! 0 + k"] by (simp add: ref_fields)
next
  case (22 c a x k)
  then show ?case using ref_calc_complete [of c "[a]" "[x]" "\<lambda>xs. xs ! 0 + k"] by (simp add: ref_fields)
next
  case (23 a k)
  show ?case using ref_calc_sound [of "[a]" "\<lambda>xs. xs ! 0 * k"] by (simp add: ref_fields)
next
  case (24 c a x k)
  then show ?case using ref_calc_complete [of c "[a]" "[x]" "\<lambda>xs. xs ! 0 * k"] by (simp add: ref_fields)
next
  case (25 vs ks)
  show ?case using ref_calc_sound [of vs "\<lambda>xs. lin xs ks"] by (simp add: ref_fields)
next
  case (26 c vs xs ks)
  then show ?case using ref_calc_complete [of c vs xs "\<lambda>xs. lin xs ks"] by (simp add: ref_fields)
next
  case (27 vs ks)
  show ?case using ref_calc_sound [of vs "\<lambda>xs. lin xs ks"] by (simp add: ref_fields)
next
  case (28 c vs xs ks)
  then show ?case using ref_calc_complete [of c vs xs "\<lambda>xs. lin xs ks"] by (simp add: ref_fields)
next
  case (29 a b d)
  show ?case using ref_gate_sound [of "[a, b, d]" "\<lambda>xs. xs ! 0 * xs ! 1 = xs ! 2"] by (simp add: ref_fields)
next
  case (30 c a x b y d)
  then show ?case
    using ref_gate_complete [of c "[a, b, d]" "[x, y, x * y]" "\<lambda>xs. xs ! 0 * xs ! 1 = xs ! 2"] by (simp add: ref_fields)
next
  case (31 a b d e f k l)
  show ?case
    using ref_gate_sound [of "[a, b, d, e, f]" "\<lambda>xs. k * (xs ! 0 * xs ! 1) + l * (xs ! 2 * xs ! 3) = xs ! 4"]
    by (simp add: ref_fields)
next
  case (32 c a b d e f x y z u k l)
  then show ?case
    using ref_gate_complete [of c "[a, b, d, e, f]" "[x, y, z, u, k * (x * y) + l * (z * u)]" "\<lambda>xs. k * (xs ! 0 * xs ! 1) + l * (xs ! 2 * xs ! 3) = xs ! 4"]
    by (simp add: ref_fields)
next
  case (33 a b d)
  show ?case using ref_calc_sound [of "[a, b, d]" "\<lambda>xs. xs ! 0 * xs ! 1 + (1 - xs ! 0) * xs ! 2"] by (simp add: ref_fields)
next
  case (34 c a b d x y z)
  then show ?case
    using ref_calc_complete [of c "[a, b, d]" "[x, y, z]" "\<lambda>xs. xs ! 0 * xs ! 1 + (1 - xs ! 0) * xs ! 2"] by (simp add: ref_fields)
next
  case (35 a)
  show ?case using ref_calc_sound [of "[a]" "\<lambda>xs. 1 - xs ! 0"] by (simp add: ref_fields)
next
  case (36 c a x)
  then show ?case using ref_calc_complete [of c "[a]" "[x]" "\<lambda>xs. 1 - xs ! 0"] by (simp add: ref_fields)
next
  case (37 vs)
  show ?case using ref_calc_sound [of vs prod_list] by (auto simp: ref_fields sound_def)
next
  case (38 vs c xs)
  then show ?case using ref_calc_complete [of c vs xs prod_list] by (simp add: ref_fields)
next
  case (39 vs g)
  show ?case using ref_gate_sound [of vs "gate_holds g"] by (simp add: ref_fields)
next
  case (40 c vs xs g)
  then show ?case using ref_gate_complete [of c vs xs "gate_holds g"] by (simp add: ref_fields)
qed (auto simp: ref_fields ref_sat_def ref_val split: if_splits)

end
