(* ===== verification/Circuit_Gadgets.thy ===== *)
theory Circuit_Gadgets
  imports Circuit_Builder
begin

text \<open>
  The primitive gadgets of \<open>circuits/circuits-core/src/zk_gadgets/primitives\<close>: bit
  decomposition, comparisons, selection, division with remainder, fixed point numbers and bit
  lengths, and the fee gadget of \<open>state_gadgets/fee.rs\<close>. A structured variable is the list
  of its variables.
\<close>

section \<open>Bits\<close>

definition SCALAR_MAX_BITS :: nat where
  "SCALAR_MAX_BITS = 254"

definition SCALAR_BITS_MINUS_TWO :: nat where
  "SCALAR_BITS_MINUS_TWO = SCALAR_MAX_BITS - 2"

definition eval_var :: "('c, 'e) circuit \<Rightarrow> variable \<Rightarrow> (scalar, 'c, 'e) build" where
  "eval_var P v c = (case cs_witness P v c of Inl _ \<Rightarrow> None | Inr x \<Rightarrow> Some (Inr (x, c)))"

definition create_witness :: "('c, 'e) circuit \<Rightarrow> scalar \<Rightarrow> (variable, 'c, 'e) build" where
  "create_witness P x c =
     (case cs_create_variable P x c of Some (Inr r) \<Rightarrow> Some (Inr r) | _ \<Rightarrow> None)"

definition scalar_to_bits_le :: "scalar \<Rightarrow> nat \<Rightarrow> scalar list" where
  "scalar_to_bits_le a n = map (\<lambda>i. if bit (scalar_to_biguint a) i then 1 else 0) [0..<n]"

definition to_bits_unconstrained :: "('c, 'e) circuit \<Rightarrow> variable \<Rightarrow> nat \<Rightarrow> (bool_var list, 'c, 'e) build" where
  "to_bits_unconstrained P a num_bits =
     bindb (eval_var P a) (\<lambda>a_scalar.
     mapb (cs_create_boolean_variable P) (scalar_to_bits_le a_scalar num_bits))"

definition bit_reconstruct :: "('c, 'e) circuit \<Rightarrow> bool_var list \<Rightarrow> (variable, 'c, 'e) build" where
  "bit_reconstruct P bits = cs_lc_sum P bits (map (\<lambda>i. 2 ^ i) [0..<length bits])"

definition decompose_and_reconstruct :: "('c, 'e) circuit \<Rightarrow> variable \<Rightarrow> nat \<Rightarrow> (variable, 'c, 'e) build" where
  "decompose_and_reconstruct P a num_bits = bindb (to_bits_unconstrained P a num_bits) (bit_reconstruct P)"

definition to_bits :: "('c, 'e) circuit \<Rightarrow> variable \<Rightarrow> nat \<Rightarrow> (bool_var list, 'c, 'e) build" where
  "to_bits P a num_bits =
     bindb (to_bits_unconstrained P a num_bits) (\<lambda>bits.
     bindb (bit_reconstruct P bits) (\<lambda>reconstructed.
     seqb (cs_enforce_equal P reconstructed a)
     (retb bits)))"

definition constrain_bit_range :: "('c, 'e) circuit \<Rightarrow> variable \<Rightarrow> nat \<Rightarrow> (unit, 'c, 'e) build" where
  "constrain_bit_range P a num_bits = seqb (to_bits P a num_bits) (retb ())"

section \<open>Comparisons\<close>

text \<open>The flag and the inverse are computed outside of the circuit.\<close>

definition zero_advice :: "('c, 'e) circuit \<Rightarrow> scalar \<Rightarrow> (scalar \<times> scalar, 'c, 'e) build" where
  "zero_advice P x =
     (if x = 0 then retb (1, 0)
      else (case fr_inverse P x of None \<Rightarrow> (\<lambda>_. None) | Some y \<Rightarrow> retb (0, y)))"

definition eq_zero_var :: "('c, 'e) circuit \<Rightarrow> variable \<Rightarrow> (bool_var, 'c, 'e) build" where
  "eq_zero_var P v =
     bindb (eval_var P v) (\<lambda>val_eval.
     bindb (zero_advice P val_eval) (\<lambda>advice.
     bindb (create_witness P (fst advice)) (\<lambda>is_zero_var.
     bindb (create_witness P (snd advice)) (\<lambda>inv_var.
     bindb (getb (cs_zero P)) (\<lambda>zero_var.
     bindb (getb (cs_one P)) (\<lambda>one_var.
     seqb (cs_mul_add_gate P [v, inv_var, one_var, one_var, is_zero_var] [- 1, 1])
     (seqb (cs_mul_gate P is_zero_var v zero_var)
     (retb is_zero_var))))))))"

definition component_eq :: "('c, 'e) circuit \<Rightarrow> variable \<times> variable \<Rightarrow> (bool_var, 'c, 'e) build" where
  "component_eq P ab = bindb (cs_sub P (fst ab) (snd ab)) (eq_zero_var P)"

definition eq_vec :: "('c, 'e) circuit \<Rightarrow> variable list \<Rightarrow> variable list \<Rightarrow> (bool_var, 'c, 'e) build" where
  "eq_vec P a b =
     seqb (assertb (length a = length b))
     (bindb (mapb (component_eq P) (zip a b))
       (cs_logic_and_all P))"

definition eq_zero_vec :: "('c, 'e) circuit \<Rightarrow> variable list \<Rightarrow> (bool_var, 'c, 'e) build" where
  "eq_zero_vec P a = bindb (mapb (eq_zero_var P) a) (cs_logic_and_all P)"

definition constrain_eq_vec :: "('c, 'e) circuit \<Rightarrow> variable list \<Rightarrow> variable list \<Rightarrow> (unit, 'c, 'e) build" where
  "constrain_eq_vec P a b =
     seqb (assertb (length a = length b))
     (seqb (mapb (\<lambda>ab. cs_enforce_equal P (fst ab) (snd ab)) (zip a b)) (retb ()))"

text \<open>\<open>EqGadget\<close> serializes its arguments and compares the vectors.\<close>

definition constrain_eq :: "('c, 'e) circuit \<Rightarrow> variable list \<Rightarrow> variable list \<Rightarrow> (unit, 'c, 'e) build" where
  "constrain_eq P a b = seqb (assertb (length a = length b)) (constrain_eq_vec P a b)"

definition not_equal :: "('c, 'e) circuit \<Rightarrow> variable \<Rightarrow> variable \<Rightarrow> (bool_var, 'c, 'e) build" where
  "not_equal P a b = bindb (eq_vec P [a] [b]) (cs_logic_neg P)"

definition constrain_not_equal :: "('c, 'e) circuit \<Rightarrow> variable list \<Rightarrow> variable list \<Rightarrow> (unit, 'c, 'e) build" where
  "constrain_not_equal P a b =
     bindb (eq_vec P a b) (\<lambda>eq.
     bindb (cs_logic_neg P eq) (\<lambda>res.
     cs_enforce_true P res))"

definition greater_than_eq_zero :: "('c, 'e) circuit \<Rightarrow> variable \<Rightarrow> nat \<Rightarrow> (bool_var, 'c, 'e) build" where
  "greater_than_eq_zero P x num_bits =
     bindb (cs_add_constant P x (2 ^ num_bits)) (\<lambda>x_plus_2_to_d.
     bindb (to_bits P x_plus_2_to_d (num_bits + 1)) (\<lambda>bits.
     seqb (assertb (num_bits < length bits))
     (retb (bits ! num_bits))))"

definition constrain_greater_than_eq_zero :: "('c, 'e) circuit \<Rightarrow> variable \<Rightarrow> nat \<Rightarrow> (unit, 'c, 'e) build" where
  "constrain_greater_than_eq_zero P x num_bits = seqb (to_bits P x num_bits) (retb ())"

definition greater_than_eq :: "('c, 'e) circuit \<Rightarrow> variable \<Rightarrow> variable \<Rightarrow> nat \<Rightarrow> (bool_var, 'c, 'e) build" where
  "greater_than_eq P a b num_bits = bindb (cs_sub P a b) (\<lambda>a_minus_b. greater_than_eq_zero P a_minus_b num_bits)"

definition constrain_greater_than_eq :: "('c, 'e) circuit \<Rightarrow> variable \<Rightarrow> variable \<Rightarrow> nat \<Rightarrow> (unit, 'c, 'e) build" where
  "constrain_greater_than_eq P a b num_bits =
     bindb (cs_sub P a b) (\<lambda>a_minus_b. constrain_greater_than_eq_zero P a_minus_b num_bits)"

definition less_than :: "('c, 'e) circuit \<Rightarrow> variable \<Rightarrow> variable \<Rightarrow> nat \<Rightarrow> (bool_var, 'c, 'e) build" where
  "less_than P a b num_bits = bindb (greater_than_eq P a b num_bits) (cs_logic_neg P)"

definition constrain_less_than :: "('c, 'e) circuit \<Rightarrow> variable \<Rightarrow> variable \<Rightarrow> nat \<Rightarrow> (unit, 'c, 'e) build" where
  "constrain_less_than P a b num_bits = bindb (less_than P a b num_bits) (cs_enforce_true P)"

section \<open>Selection and arithmetic\<close>

definition cond_select :: "('c, 'e) circuit \<Rightarrow> variable list \<Rightarrow> variable list \<Rightarrow> bool_var \<Rightarrow> (variable list, 'c, 'e) build" where
  "cond_select P a b selector =
     seqb (assertb (length a = length b))
     (mapb (\<lambda>ab. cs_mux P selector (fst ab) (snd ab)) (zip a b))"

definition constrain_noop :: "('c, 'e) circuit \<Rightarrow> variable list \<Rightarrow> (unit, 'c, 'e) build" where
  "constrain_noop P a =
     bindb (getb (cs_zero P)) (\<lambda>zero_var. seqb (mapb (\<lambda>a_var. cs_mul_gate P a_var zero_var zero_var) a) (retb ()))"

definition DIVREM_MAX_BITSIZE :: nat where
  "DIVREM_MAX_BITSIZE = 100"

text \<open>Division by zero of big integers panics.\<close>

definition div_rem :: "('c, 'e) circuit \<Rightarrow> variable \<Rightarrow> variable \<Rightarrow> nat \<Rightarrow> (variable \<times> variable, 'c, 'e) build" where
  "div_rem P a b num_bits =
     seqb (assertb (num_bits \<le> DIVREM_MAX_BITSIZE))
     (bindb (eval_var P a) (\<lambda>a_val.
     bindb (eval_var P b) (\<lambda>b_val.
     let a_bigint = scalar_to_biguint a_val; b_bigint = scalar_to_biguint b_val in
     seqb (assertb (b_bigint \<noteq> 0))
     (bindb (create_witness P (biguint_to_scalar (a_bigint div b_bigint))) (\<lambda>q_var.
     bindb (create_witness P (biguint_to_scalar (a_bigint mod b_bigint))) (\<lambda>r_var.
     seqb (constrain_bit_range P b num_bits)
     (seqb (constrain_bit_range P q_var (SCALAR_BITS_MINUS_TWO - num_bits))
     (seqb (constrain_bit_range P r_var num_bits)
     (bindb (getb (cs_one P)) (\<lambda>one_var.
     seqb (cs_mul_add_gate P [b, q_var, r_var, one_var, a] [1, 1])
     (seqb (constrain_less_than P r_var b num_bits)
     (retb (q_var, r_var)))))))))))))"

function exp_gadget :: "('c, 'e) circuit \<Rightarrow> variable \<Rightarrow> nat \<Rightarrow> (variable, 'c, 'e) build" where
  "exp_gadget P x alpha =
     (if alpha = 0 then getb (cs_one P)
      else if alpha = 1 then retb x
      else if even alpha then
        bindb (exp_gadget P x (alpha div 2)) (\<lambda>r. cs_mul P r r)
      else
        bindb (exp_gadget P x ((alpha - 1) div 2)) (\<lambda>r.
        bindb (cs_mul P r r) (\<lambda>double. cs_mul P double x)))"
  by auto

termination by (relation "measure (\<lambda>(_, _, n). n)") auto

declare exp_gadget.simps [simp del]

section \<open>Fixed point numbers and bit lengths\<close>

text \<open>A fixed point variable is the variable of its representation.\<close>

definition integer_to_fixed_point :: "('c, 'e) circuit \<Rightarrow> variable \<Rightarrow> (variable, 'c, 'e) build" where
  "integer_to_fixed_point P v = cs_mul_constant P v TWO_TO_M_SCALAR"

definition constrain_equal_integer :: "('c, 'e) circuit \<Rightarrow> variable \<Rightarrow> variable \<Rightarrow> (unit, 'c, 'e) build" where
  "constrain_equal_integer P lhs rhs = bindb (integer_to_fixed_point P rhs) (\<lambda>r. constrain_eq P [lhs] [r])"

definition equal_integer :: "('c, 'e) circuit \<Rightarrow> variable \<Rightarrow> variable \<Rightarrow> (bool_var, 'c, 'e) build" where
  "equal_integer P lhs rhs = bindb (integer_to_fixed_point P rhs) (\<lambda>r. eq_vec P [lhs] [r])"

definition constrain_equal_integer_ignore_fraction :: "('c, 'e) circuit \<Rightarrow> variable \<Rightarrow> variable \<Rightarrow> (unit, 'c, 'e) build" where
  "constrain_equal_integer_ignore_fraction P lhs rhs =
     bindb (getb (cs_zero P)) (\<lambda>zero_var.
     bindb (getb (cs_one P)) (\<lambda>one_var.
     bindb (cs_lc P [lhs, rhs, zero_var, zero_var] [1, - TWO_TO_M_SCALAR, 1, 1]) (\<lambda>lhs_minus_rhs.
     bindb (cs_lc P [one_var, lhs_minus_rhs, zero_var, zero_var] [TWO_TO_M_SCALAR - 1, - 1, 1, 1]) (\<lambda>diff.
     constrain_greater_than_eq_zero P diff (DEFAULT_FP_PRECISION + 1)))))"

definition constrain_equal_floor :: "('c, 'e) circuit \<Rightarrow> variable \<Rightarrow> variable \<Rightarrow> (unit, 'c, 'e) build" where
  "constrain_equal_floor P fp integer =
     bindb (getb (cs_zero P)) (\<lambda>zero_var.
     bindb (cs_lc P [fp, integer, zero_var, zero_var] [1, - TWO_TO_M_SCALAR, 1, 1]) (\<lambda>lhs_minus_rhs.
     constrain_bit_range P lhs_minus_rhs DEFAULT_FP_PRECISION))"

definition mul_integer :: "('c, 'e) circuit \<Rightarrow> variable \<Rightarrow> variable \<Rightarrow> (variable, 'c, 'e) build" where
  "mul_integer P lhs rhs = cs_mul P lhs rhs"

definition floor_gadget :: "('c, 'e) circuit \<Rightarrow> variable \<Rightarrow> (variable, 'c, 'e) build" where
  "floor_gadget P v =
     bindb (eval_var P v) (\<lambda>val_eval.
     bindb (create_witness P (fp_floor (from_repr val_eval))) (\<lambda>floor_val_var.
     seqb (constrain_equal_floor P v floor_val_var)
     (retb floor_val_var)))"

definition constrain_valid_amount :: "('c, 'e) circuit \<Rightarrow> variable \<Rightarrow> (unit, 'c, 'e) build" where
  "constrain_valid_amount P amount = constrain_bit_range P amount AMOUNT_BITS"

definition constrain_valid_price :: "('c, 'e) circuit \<Rightarrow> variable \<Rightarrow> (unit, 'c, 'e) build" where
  "constrain_valid_price P price = constrain_bit_range P price PRICE_BITS"

section \<open>Bits of scalars\<close>

definition bits_value :: "bool list \<Rightarrow> nat" where
  "bits_value bs = horner_sum of_bool 2 bs"

lemma bits_value_less: "bits_value bs < 2 ^ length bs"
  unfolding bits_value_def by (rule horner_sum_of_bool_2_less)

lemma lin_powers:
  "lin (map of_bool bs) (map (\<lambda>i. 2 ^ i) [0..<length bs]) = of_nat (bits_value bs)"
proof -
  have "lin (map of_bool bs) (map (\<lambda>i. 2 ^ i) [0..<length bs]) = (\<Sum>i<length bs. of_bool (bs ! i) * 2 ^ i)"
    by (simp add: lin_def map2_map_map zip_map_map sum_list_sum_nth atLeast0LessThan)
  also have "\<dots> = of_nat (\<Sum>i<length bs. of_bool (bs ! i) * 2 ^ i)" by simp
  also have "(\<Sum>i<length bs. of_bool (bs ! i) * 2 ^ i) = bits_value bs"
    by (simp add: bits_value_def horner_sum_eq_sum atLeast0LessThan)
  finally show ?thesis .
qed

lemma boolean_list: "list_all2 (\<lambda>_ v. w v = 0 \<or> w v = 1) xs vs \<Longrightarrow> \<exists>bs. map w vs = map of_bool bs \<and> length bs = length xs"
proof (induction rule: list_all2_induct)
  case (Cons x xs v vs)
  then obtain bs where "map w vs = map of_bool bs" "length bs = length xs" by blast
  then show ?case using Cons.hyps(1) by (intro exI [of _ "(w v = 1) # bs"]) auto
qed simp

lemma bits_le: "scalar_to_bits_le a n = map of_bool (map (bit (scalar_to_biguint a)) [0..<n])"
  by (auto simp: scalar_to_bits_le_def)

lemma bits_le_length [simp]: "length (scalar_to_bits_le a n) = n"
  by (simp add: scalar_to_bits_le_def)

lemma bits_value_bits: "bits_value (map (bit x) [0..<n]) = x mod 2 ^ n"
  by (simp add: bits_value_def horner_sum_bit_eq_take_bit take_bit_eq_mod)

lemma bit_bits_value: "i < length bs \<Longrightarrow> bit (bits_value bs) i = bs ! i"
  by (simp add: bits_value_def bit_horner_sum_bit_iff)

lemma top_bit: "bit m n \<longleftrightarrow> 2 ^ n \<le> m" if "m < 2 ^ (n + 1)" for m :: nat
proof -
  have "m div 2 ^ n < 2" using that by (simp add: less_mult_imp_div_less mult.commute)
  then have "odd (m div 2 ^ n) \<longleftrightarrow> m div 2 ^ n \<noteq> 0" by (cases "m div 2 ^ n") simp_all
  then show ?thesis by (simp add: bit_iff_odd div_eq_0_iff not_less)
qed

lemma scalar_nat_less: "m < 2 ^ n \<Longrightarrow> n \<le> 253 \<Longrightarrow> scalar_to_biguint (of_nat m) = m"
  using scalar_modulus_bounds(1) power_increasing [of n 253 "2 :: nat"]
  by (simp add: scalar_to_biguint_of_nat)

lemma scalar_of_nat: "of_nat (scalar_to_biguint a) = a"
  by (metis biguint_scalar_roundtrip biguint_to_scalar_of_nat)

section \<open>No wrap-around\<close>

lemma scalar_small: "m < 2 ^ 253 \<Longrightarrow> scalar_to_biguint (of_nat m) = m"
  using scalar_nat_less [of m 253] by simp

lemma scalar_small_inj: "of_nat m = (of_nat k :: scalar) \<Longrightarrow> m < 2 ^ 253 \<Longrightarrow> k < 2 ^ 253 \<Longrightarrow> m = k"
  by (metis scalar_small)

lemma sum_below: "x < 2 ^ n \<Longrightarrow> y < 2 ^ n \<Longrightarrow> n \<le> 252 \<Longrightarrow> x + y < 2 ^ 253" for x y :: nat
proof -
  assume a: "x < 2 ^ n" "y < 2 ^ n" "n \<le> 252"
  have "x + y < 2 ^ (n + 1)" using a by simp
  also have "\<dots> \<le> 2 ^ 253" using a(3) by (intro power_increasing) simp_all
  finally show ?thesis .
qed

lemma difference_value:
  assumes "x - y = of_nat m" and "m < 2 ^ n" and "scalar_to_biguint y < 2 ^ n" and "n \<le> 252"
  shows "scalar_to_biguint x = scalar_to_biguint y + m"
proof -
  have "x = of_nat (scalar_to_biguint y + m)" using assms(1) by (simp add: scalar_of_nat algebra_simps)
  then show ?thesis using scalar_small [OF sum_below [OF assms(3,2,4)]] by simp
qed

lemma less_value:
  assumes "x - y + 2 ^ n = of_nat m" and "m < 2 ^ n" and "scalar_to_biguint x < 2 ^ n" "scalar_to_biguint y < 2 ^ n"
    and "n \<le> 251"
  shows "scalar_to_biguint x < scalar_to_biguint y"
proof -
  have "of_nat (scalar_to_biguint x + 2 ^ n) = (of_nat (scalar_to_biguint y + m) :: scalar)"
    using assms(1) by (simp add: scalar_of_nat algebra_simps)
  moreover have "scalar_to_biguint x + 2 ^ n < 2 ^ 253"
    using sum_below [of _ "n + 1" "2 ^ n"] assms(3,5) by (simp add: less_imp_le_nat)
  moreover have "scalar_to_biguint y + m < 2 ^ 253" using sum_below [OF assms(4,2)] assms(5) by simp
  ultimately have "scalar_to_biguint x + 2 ^ n = scalar_to_biguint y + m" by (rule scalar_small_inj)
  then show ?thesis using assms(2) by simp
qed

lemma TWO_TO_M_nat: "TWO_TO_M_SCALAR = of_nat (2 ^ 63)"
  using scalar_of_nat [of TWO_TO_M_SCALAR] by simp

lemma fp_floor_scalar: "fp_floor x = of_nat (scalar_to_biguint (repr x) div 2 ^ 63)"
proof -
  have "drop_bit 63 (int n) = int (n div 2 ^ 63)" for n by (simp add: drop_bit_eq_div zdiv_int)
  then show ?thesis
    unfolding fp_floor_def bigint_to_scalar_of_int scalar_to_bigint_def DEFAULT_FP_PRECISION_def by (simp only: of_int_of_nat_eq)
qed

text \<open>
  The floor gadget alone leaves the integer undetermined; when the integer, added to a small
  number, is known to be small, it is the floor.
\<close>

lemma floor_value:
  assumes "fp - TWO_TO_M_SCALAR * i = of_nat d" and "d < 2 ^ 63" and "of_nat k + i = of_nat l"
    and "k < 2 ^ 189" "l < 2 ^ 189" "scalar_to_biguint fp < 2 ^ 252"
  shows "k + scalar_to_biguint fp div 2 ^ 63 = l" and "i = of_nat (scalar_to_biguint fp div 2 ^ 63)"
proof -
  let ?F = "scalar_to_biguint fp"
  have two: "TWO_TO_M_SCALAR = of_nat (2 ^ 63)" by (rule TWO_TO_M_nat)
  have "of_nat (?F + 2 ^ 63 * k) = (fp + TWO_TO_M_SCALAR * of_nat k)" by (simp add: scalar_of_nat two)
  also have "\<dots> = of_nat d + TWO_TO_M_SCALAR * (of_nat k + i)" using assms(1) by (simp add: algebra_simps)
  also have "\<dots> = (of_nat (2 ^ 63 * l + d) :: scalar)" unfolding assms(3) by (simp add: two)
  finally have eq: "?F + 2 ^ 63 * k = 2 ^ 63 * l + d"
    by (rule scalar_small_inj) (use assms(2,4-6) in simp_all)
  show kl: "k + ?F div 2 ^ 63 = l"
  proof -
    have "(?F + 2 ^ 63 * k) div 2 ^ 63 = l" unfolding eq using assms(2) by simp
    then show ?thesis by simp
  qed
  have "i = of_nat l - of_nat k" using assms(3) by (simp add: algebra_simps)
  then show "i = of_nat (?F div 2 ^ 63)" using kl by auto
qed

section \<open>Soundness\<close>

context circuit_contract
begin

lemma eval_sound: "sound sat (eval_var P v) (\<lambda>_ _. True)"
  by (auto simp: sound_def eval_var_def split: sum.splits)

lemma create_witness_sound: "sound sat (create_witness P x) (\<lambda>_ _. True)"
  using create_sound [of x] by (auto simp: sound_def create_witness_def split: option.splits sum.splits)

lemma bit_reconstruct_sound:
  "sound sat (bit_reconstruct P bits) (\<lambda>w v. w v = lin (map w bits) (map (\<lambda>i. 2 ^ i) [0..<length bits]))"
  unfolding bit_reconstruct_def by (rule lc_sum_sound)

lemma to_bits_unconstrained_sound:
  "sound sat (to_bits_unconstrained P a n) (\<lambda>w bits. \<exists>bs. map w bits = map of_bool bs \<and> length bs = n)"
  unfolding to_bits_unconstrained_def
proof (rule sound_bind [OF eval_sound])
  fix x
  show "sound sat (mapb (cs_create_boolean_variable P) (scalar_to_bits_le x n))
      (\<lambda>w bits. True \<longrightarrow> (\<exists>bs. map w bits = map of_bool bs \<and> length bs = n))"
    by (rule sound_weaken [OF sound_map [where R = "\<lambda>_ w v. w v = 0 \<or> w v = 1"]], rule boolean_sound)
      (use boolean_list [of _ "scalar_to_bits_le x n"] in simp)
qed

lemma to_bits_sound:
  "sound sat (to_bits P a n)
     (\<lambda>w bits. \<exists>bs. map w bits = map of_bool bs \<and> length bs = n \<and> w a = of_nat (bits_value bs))"
  unfolding to_bits_def
proof (rule sound_bind [OF to_bits_unconstrained_sound], rule sound_bind [OF bit_reconstruct_sound],
    rule sound_seq [OF enforce_equal_sound], rule sound_ret, intro impI, elim exE conjE)
  fix bits r w bs
  assume a: "map w bits = map of_bool bs" "length bs = n"
    "w r = lin (map w bits) (map (\<lambda>i. 2 ^ i) [0..<length bits])" "w r = w a"
  have "length bits = length bs" using a(1) by (metis length_map)
  then have "w a = of_nat (bits_value bs)" using a(3,4) lin_powers [of bs] by (simp add: a(1))
  then show "\<exists>bs. map w bits = map of_bool bs \<and> length bs = n \<and> w a = of_nat (bits_value bs)"
    using a(1,2) by blast
qed

lemma bit_range_sound: "sound sat (constrain_bit_range P a n) (\<lambda>w _. \<exists>m < 2 ^ n. w a = of_nat m)"
  unfolding constrain_bit_range_def
  by (rule sound_seq [OF to_bits_sound], rule sound_ret) (use bits_value_less in blast)

lemma bit_range_value:
  "n \<le> 253 \<Longrightarrow> sound sat (constrain_bit_range P a n) (\<lambda>w _. scalar_to_biguint (w a) < 2 ^ n)"
  by (rule sound_weaken [OF bit_range_sound]) (auto simp: scalar_nat_less)

lemma zero_advice_sound: "sound sat (zero_advice P x) (\<lambda>_ _. True)"
  by (auto simp: zero_advice_def sound_def retb_def split: option.splits)

lemma eq_zero_var_sound:
  "sound sat (eq_zero_var P v) (\<lambda>w r. (\<exists>i. w r = 1 - w v * i) \<and> w r * w v = 0)"
  unfolding eq_zero_var_def
  by (rule sound_bind [OF eval_sound], rule sound_bind [OF zero_advice_sound], rule sound_bind [OF create_witness_sound],
      rule sound_bind [OF create_witness_sound], rule sound_bind [OF zero_sound], rule sound_bind [OF one_sound],
      rule sound_seq [OF mul_add_gate_sound], rule sound_seq [OF mul_gate_sound], rule sound_ret)
    (auto simp: algebra_simps intro: exI [of _ "_ :: scalar"])

lemma component_eq_sound:
  "sound sat (component_eq P ab)
     (\<lambda>w r. (\<exists>i. w r = 1 - (w (fst ab) - w (snd ab)) * i) \<and> w r * (w (fst ab) - w (snd ab)) = 0)"
  unfolding component_eq_def
  by (rule sound_bind [OF sub_sound], rule sound_weaken [OF eq_zero_var_sound]) metis

lemma unit_factor: "prod_list xs = 1 \<Longrightarrow> x \<in> set xs \<Longrightarrow> x * y = 0 \<Longrightarrow> y = 0" for x y :: scalar
proof (induction xs arbitrary: y)
  case (Cons z xs)
  show ?case
  proof (cases "x = z")
    case True
    then have "y = prod_list xs * (x * y)" using Cons.prems(1) by (simp add: ac_simps flip: mult.assoc)
    then show ?thesis using Cons.prems(3) by simp
  next
    case False
    define u where "u = prod_list xs"
    have u: "z * u = 1" "x \<in> set xs" using Cons.prems False by (simp_all add: u_def)
    then obtain v where v: "x * v = u" unfolding u_def using split_list [OF u(2)]
      by (metis mult.assoc mult.commute prod_list.Cons prod_list.append)
    have "y = (z * (x * v)) * y" using u v by simp
    also have "\<dots> = z * v * (x * y)" by (simp add: ac_simps)
    finally show ?thesis using Cons.prems(3) by simp
  qed
qed simp

lemma eq_vec_sound:
  "sound sat (eq_vec P a b) (\<lambda>w r. (w r = 1 \<longleftrightarrow> map w a = map w b) \<and> length a = length b)"
  unfolding eq_vec_def
proof (rule sound_seq [OF sound_assert], rule sound_bind [OF sound_map, OF component_eq_sound],
    rule sound_weaken [OF logic_and_all_sound], intro impI conjI)
  fix rs r and w :: assignment
  assume r: "w r = prod_list (map w rs)" and len: "\<exists>u :: unit. length a = length b"
    and rs: "list_all2 (\<lambda>ab r. (\<exists>i. w r = 1 - (w (fst ab) - w (snd ab)) * i) \<and> w r * (w (fst ab) - w (snd ab)) = 0) (zip a b) rs"
  have n: "length rs = length a" using list_all2_lengthD [OF rs] len by simp
  have e: "(\<exists>k. w (rs ! i) = 1 - (w (a ! i) - w (b ! i)) * k) \<and> w (rs ! i) * (w (a ! i) - w (b ! i)) = 0" if "i < length a" for i
    using list_all2_nthD2 [OF rs, of i] that n len by simp
  show "(w r = 1) = (map w a = map w b)"
  proof
    assume one: "w r = 1"
    show "map w a = map w b"
    proof (rule nth_equalityI)
      fix i
      assume i: "i < length (map w a)"
      then have "w (rs ! i) \<in> set (map w rs)" using n by simp
      then have "w (a ! i) - w (b ! i) = 0"
        using e [of i] i one r unit_factor [of "map w rs" "w (rs ! i)" "w (a ! i) - w (b ! i)"] by simp
      then show "map w a ! i = map w b ! i" using i len by simp
    qed (use len in simp)
  next
    assume eq: "map w a = map w b"
    have "w (rs ! i) = 1" if "i < length rs" for i
    proof -
      have "w (a ! i) = w (b ! i)" using that n len eq by (metis nth_map)
      then show ?thesis using e [of i] that n by auto
    qed
    then have "map w rs = replicate (length rs) 1" by (simp add: list_eq_iff_nth_eq)
    moreover have "prod_list (replicate k 1) = (1 :: scalar)" for k by (induction k) simp_all
    ultimately show "w r = 1" using r by simp
  qed
  show "length a = length b" using len by simp
qed

lemma constrain_eq_vec_sound: "sound sat (constrain_eq_vec P a b) (\<lambda>w _. map w a = map w b)"
  unfolding constrain_eq_vec_def
  by (rule sound_seq [OF sound_assert], rule sound_seq [OF sound_map, OF enforce_equal_sound], rule sound_ret)
    (auto simp: list_all2_conv_all_nth list_eq_iff_nth_eq)

lemma constrain_eq_sound: "sound sat (constrain_eq P a b) (\<lambda>w _. map w a = map w b)"
  unfolding constrain_eq_def by (rule sound_seq [OF sound_assert], rule sound_weaken [OF constrain_eq_vec_sound]) simp

lemma constrain_not_equal_sound: "sound sat (constrain_not_equal P a b) (\<lambda>w _. map w a \<noteq> map w b)"
  unfolding constrain_not_equal_def
  by (rule sound_bind [OF eq_vec_sound], rule sound_bind [OF logic_neg_sound], rule sound_weaken [OF enforce_true_sound]) auto

lemma greater_than_eq_zero_sound:
  "sound sat (greater_than_eq_zero P x n)
     (\<lambda>w r. \<exists>m < 2 ^ (n + 1). w x + 2 ^ n = of_nat m \<and> w r = of_bool (2 ^ n \<le> m))"
  unfolding greater_than_eq_zero_def
proof (rule sound_bind [OF add_constant_sound], rule sound_bind [OF to_bits_sound],
    rule sound_seq [OF sound_assert], rule sound_ret, intro impI, elim exE conjE)
  fix v bits w bs
  assume a: "map w bits = map of_bool bs" "length bs = n + 1" "w v = of_nat (bits_value bs)" "w v = w x + 2 ^ n"
  let ?m = "bits_value bs"
  have len: "length bits = n + 1" using a(1,2) by (metis length_map)
  have m: "?m < 2 ^ (n + 1)" using bits_value_less [of bs] a(2) by simp
  have "w (bits ! n) = of_bool (bit ?m n)"
    using arg_cong [OF a(1), of "\<lambda>l. l ! n"] len a(2) bit_bits_value [of n bs] by simp
  also have "bit ?m n \<longleftrightarrow> 2 ^ n \<le> ?m" by (rule top_bit [OF m])
  finally show "\<exists>m<2 ^ (n + 1). w x + 2 ^ n = of_nat m \<and> w (bits ! n) = of_bool (2 ^ n \<le> m)"
    using m a(3,4) by (intro exI [of _ ?m]) simp
qed

lemma constrain_ge_zero_sound: "sound sat (constrain_greater_than_eq_zero P x n) (\<lambda>w _. \<exists>m < 2 ^ n. w x = of_nat m)"
  unfolding constrain_greater_than_eq_zero_def
  by (rule sound_seq [OF to_bits_sound], rule sound_ret) (use bits_value_less in blast)

lemma greater_than_eq_sound:
  "sound sat (greater_than_eq P a b n)
     (\<lambda>w r. \<exists>m < 2 ^ (n + 1). w a - w b + 2 ^ n = of_nat m \<and> w r = of_bool (2 ^ n \<le> m))"
  unfolding greater_than_eq_def
  by (rule sound_bind [OF sub_sound], rule sound_weaken [OF greater_than_eq_zero_sound]) (rule impI, erule subst, assumption)

lemma constrain_ge_sound: "sound sat (constrain_greater_than_eq P a b n) (\<lambda>w _. \<exists>m < 2 ^ n. w a - w b = of_nat m)"
  unfolding constrain_greater_than_eq_def
  by (rule sound_bind [OF sub_sound], rule sound_weaken [OF constrain_ge_zero_sound]) (rule impI, erule subst, assumption)

lemma less_than_sound:
  "sound sat (less_than P a b n)
     (\<lambda>w r. \<exists>m < 2 ^ (n + 1). w a - w b + 2 ^ n = of_nat m \<and> w r = of_bool (m < 2 ^ n))"
  unfolding less_than_def
proof (rule sound_bind [OF greater_than_eq_sound], rule sound_weaken [OF logic_neg_sound], intro impI, elim exE conjE)
  fix g r m and w :: assignment
  assume "w r = 1 - w g" "m < 2 ^ (n + 1)" "w a - w b + 2 ^ n = of_nat m" "w g = of_bool (2 ^ n \<le> m)"
  then show "\<exists>m < 2 ^ (n + 1). w a - w b + 2 ^ n = of_nat m \<and> w r = of_bool (m < 2 ^ n)"
    by (intro exI [of _ m] conjI) (simp_all add: not_le)
qed

lemma constrain_lt_sound: "sound sat (constrain_less_than P a b n) (\<lambda>w _. \<exists>m < 2 ^ n. w a - w b + 2 ^ n = of_nat m)"
  unfolding constrain_less_than_def
proof (rule sound_bind [OF less_than_sound], rule sound_weaken [OF enforce_true_sound], intro impI, elim exE conjE)
  fix r m and w :: assignment
  assume "w r = 1" "w a - w b + 2 ^ n = of_nat m" "w r = of_bool (m < 2 ^ n)"
  then show "\<exists>m < 2 ^ n. w a - w b + 2 ^ n = of_nat m"
    by (intro exI [of _ m] conjI) simp_all
qed

lemma cond_select_sound:
  "sound sat (cond_select P a b sel) (\<lambda>w vs. length a = length b \<and> (w sel = 0 \<or> w sel = 1 \<longrightarrow> map w vs = (if w sel = 1 then map w a else map w b)))"
  unfolding cond_select_def
  by (rule sound_seq [OF sound_assert], rule sound_weaken [OF sound_map, OF mux_sound])
    (auto simp: list_all2_conv_all_nth list_eq_iff_nth_eq)

lemma exp_gadget_sound: "sound sat (exp_gadget P x k) (\<lambda>w v. w v = w x ^ k)"
proof (induction k rule: less_induct)
  case (less k)
  consider "k = 0" | "k = 1" | "k > 1" "even k" | "k > 1" "odd k" by linarith
  then show ?case
  proof cases
    case 3
    have "sound sat (bindb (exp_gadget P x (k div 2)) (\<lambda>r. cs_mul P r r)) (\<lambda>w v. w v = w x ^ k)"
    proof (rule sound_bind [OF less.IH], use 3 in simp, rule sound_weaken [OF mul_sound], intro impI)
      fix r v and w :: assignment
      assume "w v = w r * w r" "w r = w x ^ (k div 2)"
      moreover have "k = k div 2 + k div 2" using 3(2) by presburger
      ultimately show "w v = w x ^ k" by (metis power_add)
    qed
    then show ?thesis using 3 by (subst exp_gadget.simps) simp
  next
    case 4
    have "sound sat (bindb (exp_gadget P x ((k - 1) div 2)) (\<lambda>r. bindb (cs_mul P r r) (\<lambda>double. cs_mul P double x))) (\<lambda>w v. w v = w x ^ k)"
    proof (rule sound_bind [OF less.IH], use 4 in simp, rule sound_bind [OF mul_sound], rule sound_weaken [OF mul_sound], intro impI)
      fix r d v and w :: assignment
      assume "w v = w d * w x" "w d = w r * w r" "w r = w x ^ ((k - 1) div 2)"
      moreover have "k = Suc ((k - 1) div 2 + (k - 1) div 2)" using 4 by presburger
      ultimately show "w v = w x ^ k" by (metis mult.commute power_Suc power_add)
    qed
    then show ?thesis using 4 by (subst exp_gadget.simps) simp
  qed (subst exp_gadget.simps, simp add: sound_weaken [OF one_sound] sound_ret)+
qed

lemma div_rem_sound:
  "sound sat (div_rem P a b n)
     (\<lambda>w (q, r). scalar_to_biguint (w q) = scalar_to_biguint (w a) div scalar_to_biguint (w b) \<and>
        scalar_to_biguint (w r) = scalar_to_biguint (w a) mod scalar_to_biguint (w b) \<and> w b \<noteq> 0)"
  unfolding div_rem_def Let_def
proof (rule sound_seq [OF sound_assert], rule sound_bind [OF eval_sound], rule sound_bind [OF eval_sound],
    rule sound_seq [OF sound_assert], rule sound_bind [OF create_witness_sound], rule sound_bind [OF create_witness_sound],
    rule sound_seq [OF bit_range_sound], rule sound_seq [OF bit_range_sound], rule sound_seq [OF bit_range_sound],
    rule sound_bind [OF one_sound], rule sound_seq [OF mul_add_gate_sound], rule sound_seq [OF constrain_lt_sound],
    rule sound_ret, intro impI, elim exE conjE, unfold prod.case)
  fix q r one B Q R m and w :: assignment
  assume n: "n \<le> DIVREM_MAX_BITSIZE" and b: "B < 2 ^ n" "w b = of_nat B"
    and q: "Q < 2 ^ (SCALAR_BITS_MINUS_TWO - n)" "w q = of_nat Q" and r: "R < 2 ^ n" "w r = of_nat R"
    and a: "w one = 1" "1 * (w b * w q) + 1 * (w r * w one) = w a" and m: "m < 2 ^ n" "w r - w b + 2 ^ n = of_nat m"
  have n100: "n \<le> 100" using n by (simp add: DIVREM_MAX_BITSIZE_def)
  have vals: "scalar_to_biguint (w b) = B" "scalar_to_biguint (w q) = Q" "scalar_to_biguint (w r) = R"
    using b q r n100 scalar_nat_less by (simp_all add: SCALAR_BITS_MINUS_TWO_def SCALAR_MAX_BITS_def)
  have "R < B" using less_value [OF m(2,1)] vals b(1) r(1) n100 by simp
  have "B * Q < 2 ^ n * 2 ^ (252 - n)"
    using b(1) q(1) by (intro mult_strict_mono) (simp_all add: SCALAR_BITS_MINUS_TWO_def SCALAR_MAX_BITS_def)
  also have "\<dots> = 2 ^ 252" using n100 by (simp flip: power_add)
  finally have "B * Q + R < 2 ^ 253"
    using less_le_trans [OF r(1) power_increasing [of n 252]] n100 by simp
  moreover have "w a = of_nat (B * Q + R)" using a b(2) q(2) r(2) by simp
  ultimately have A: "scalar_to_biguint (w a) = B * Q + R" using scalar_small by metis
  show "scalar_to_biguint (w q) = scalar_to_biguint (w a) div scalar_to_biguint (w b) \<and>
        scalar_to_biguint (w r) = scalar_to_biguint (w a) mod scalar_to_biguint (w b) \<and> w b \<noteq> 0"
    using \<open>R < B\<close> vals by (auto simp: A)
qed

lemma equal_floor_sound:
  "sound sat (constrain_equal_floor P fp i) (\<lambda>w _. \<exists>d < 2 ^ 63. w fp - TWO_TO_M_SCALAR * w i = of_nat d)"
  unfolding constrain_equal_floor_def
proof (rule sound_bind [OF zero_sound], rule sound_bind [OF lc_sound], rule sound_weaken [OF bit_range_sound],
    intro impI, elim exE conjE)
  fix z v m and w :: assignment
  assume "w z = 0" "w v = lin (map w [fp, i, z, z]) [1, - TWO_TO_M_SCALAR, 1, 1]" "m < 2 ^ DEFAULT_FP_PRECISION" "w v = of_nat m"
  then show "\<exists>d < 2 ^ 63. w fp - TWO_TO_M_SCALAR * w i = of_nat d"
    by (intro exI [of _ m]) (simp add: lin_def DEFAULT_FP_PRECISION_def mult.commute)
qed

lemma floor_gadget_sound:
  "sound sat (floor_gadget P v) (\<lambda>w i. \<exists>d < 2 ^ 63. w v - TWO_TO_M_SCALAR * w i = of_nat d)"
  unfolding floor_gadget_def
  by (rule sound_bind [OF eval_sound], rule sound_bind [OF create_witness_sound], rule sound_seq [OF equal_floor_sound],
      rule sound_ret) blast

lemma mul_integer_sound: "sound sat (mul_integer P a b) (\<lambda>w v. w v = w a * w b)"
  unfolding mul_integer_def by (rule mul_sound)

lemma valid_amount_sound: "sound sat (constrain_valid_amount P a) (\<lambda>w _. scalar_to_biguint (w a) < 2 ^ 100)"
  unfolding constrain_valid_amount_def using bit_range_value [of AMOUNT_BITS a] by (simp add: fp_consts)

lemma valid_price_sound: "sound sat (constrain_valid_price P a) (\<lambda>w _. scalar_to_biguint (w a) < 2 ^ 127)"
  unfolding constrain_valid_price_def using bit_range_value [of PRICE_BITS a] by (simp add: fp_consts)

end

section \<open>Completeness\<close>

lemma scalar_diff_nat: "scalar_to_biguint y \<le> scalar_to_biguint x \<Longrightarrow> x - y = of_nat (scalar_to_biguint x - scalar_to_biguint y)"
  by (simp add: of_nat_diff scalar_of_nat)

lemma scalar_to_biguint_le: "scalar_to_biguint (of_nat m) \<le> m"
  by (simp add: scalar_to_biguint_of_nat)

context circuit_contract
begin

lemma eval_complete: "val P c v = Some x \<Longrightarrow> completes P sat (eval_var P v) c (\<lambda>y _. y = x)"
  by (auto simp: completes_def eval_var_def val_def split: sum.splits)

lemma create_witness_complete: "completes P sat (create_witness P x) c (\<lambda>v c'. val P c' v = Some x)"
  using create_complete [of x c] by (auto simp: completes_def create_witness_def)

lemma bit_reconstruct_complete:
  "vals P c bits (map of_bool bs) \<Longrightarrow>
     completes P sat (bit_reconstruct P bits) c (\<lambda>v c'. val P c' v = Some (of_nat (bits_value bs)))"
  unfolding bit_reconstruct_def using lc_sum_complete [of c bits "map of_bool bs"] vals_length [of P c bits "map of_bool bs"]
  by (simp flip: lin_powers)

lemma to_bits_unconstrained_complete:
  "val P c a = Some x \<Longrightarrow>
     completes P sat (to_bits_unconstrained P a n) c (\<lambda>bits c'. vals P c' bits (scalar_to_bits_le x n))"
  unfolding to_bits_unconstrained_def
proof (rule completes_bind [OF eval_complete], assumption)
  fix y c'
  assume "y = x"
  then show "completes P sat (mapb (cs_create_boolean_variable P) (scalar_to_bits_le y n)) c' (\<lambda>bits c'. vals P c' bits (scalar_to_bits_le x n))"
    using completes_map [of P c' "scalar_to_bits_le x n" sat "cs_create_boolean_variable P" id]
    by (auto simp: scalar_to_bits_le_def intro!: boolean_complete)
qed

lemma to_bits_complete:
  assumes "val P c a = Some x" and "scalar_to_biguint x < 2 ^ n"
  shows "completes P sat (to_bits P a n) c (\<lambda>bits c'. vals P c' bits (scalar_to_bits_le x n))"
  unfolding to_bits_def
proof (rule completes_bind [OF to_bits_unconstrained_complete [OF assms(1)]])
  fix bits c1
  assume c1: "extends P c c1" "vals P c1 bits (scalar_to_bits_le x n)"
  let ?bs = "map (bit (scalar_to_biguint x)) [0..<n]"
  have v: "of_nat (bits_value ?bs) = x" using assms(2) by (simp add: bits_value_bits scalar_of_nat)
  show "completes P sat (bindb (bit_reconstruct P bits) (\<lambda>r. seqb (cs_enforce_equal P r a) (retb bits))) c1
      (\<lambda>bits c'. vals P c' bits (scalar_to_bits_le x n))"
  proof (rule completes_bind [OF bit_reconstruct_complete [of _ _ ?bs]])
    show "vals P c1 bits (map of_bool ?bs)" using c1(2) by (simp add: bits_le)
    fix r c2
    assume c2: "extends P c1 c2" "val P c2 r = Some (of_nat (bits_value ?bs))"
    show "completes P sat (seqb (cs_enforce_equal P r a) (retb bits)) c2 (\<lambda>bits c'. vals P c' bits (scalar_to_bits_le x n))"
    proof (rule completes_seq [OF enforce_equal_complete])
      show "val P c2 r = Some x" using c2(2) v by simp
      show "val P c2 a = Some x" by (rule val_mono [OF c2(1)], rule val_mono [OF c1(1)], rule assms(1))
      show "extends P c2 c3 \<Longrightarrow> completes P sat (retb bits) c3 (\<lambda>bits c'. vals P c' bits (scalar_to_bits_le x n))" for c3
        by (rule completes_ret, rule vals_mono, assumption, rule vals_mono [OF c2(1) c1(2)])
    qed
  qed
qed

lemma bit_range_complete:
  "val P c a = Some x \<Longrightarrow> scalar_to_biguint x < 2 ^ n \<Longrightarrow> completes P sat (constrain_bit_range P a n) c (\<lambda>_ _. True)"
  unfolding constrain_bit_range_def by (rule completes_seq [OF to_bits_complete]) (auto intro: completes_ret)

lemma ge_zero_complete:
  "val P c a = Some x \<Longrightarrow> scalar_to_biguint x < 2 ^ n \<Longrightarrow>
     completes P sat (constrain_greater_than_eq_zero P a n) c (\<lambda>_ _. True)"
  unfolding constrain_greater_than_eq_zero_def by (rule completes_seq [OF to_bits_complete]) (auto intro: completes_ret)

lemma constrain_ge_complete:
  assumes "val P c a = Some x" "val P c b = Some y" and "scalar_to_biguint y \<le> scalar_to_biguint x"
    and "scalar_to_biguint x - scalar_to_biguint y < 2 ^ n"
  shows "completes P sat (constrain_greater_than_eq P a b n) c (\<lambda>_ _. True)"
  unfolding constrain_greater_than_eq_def
proof (rule completes_bind [OF sub_complete [OF assms(1,2)]], rule ge_zero_complete, assumption)
  show "scalar_to_biguint (x - y) < 2 ^ n"
    unfolding scalar_diff_nat [OF assms(3)] by (rule le_less_trans [OF scalar_to_biguint_le assms(4)])
qed

lemma constrain_eq_complete:
  assumes "vals P c a xs" "vals P c b xs"
  shows "completes P sat (constrain_eq P a b) c (\<lambda>_ _. True)"
proof -
  have len: "length a = length b" using vals_length [OF assms(1)] vals_length [OF assms(2)] by simp
  have each: "completes P sat (cs_enforce_equal P (fst ab) (snd ab)) d (\<lambda>_ _. True)"
    if d: "extends P c d" and ab: "ab \<in> set (zip a b)" for d ab
  proof -
    obtain i where i: "i < length a" "ab = (a ! i, b ! i)" using ab by (auto simp: set_zip)
    have "val P c (a ! i) = Some (xs ! i)" "val P c (b ! i) = Some (xs ! i)"
      using assms i(1) len unfolding vals_def by (metis nth_map vals_length assms)+
    then show ?thesis using val_mono [OF d] by (auto simp: i(2) intro: enforce_equal_complete)
  qed
  have "completes P sat (mapb (\<lambda>ab. cs_enforce_equal P (fst ab) (snd ab)) ps) d (\<lambda>_ _. True)"
    if "extends P c d" "set ps \<subseteq> set (zip a b)" for ps d
    using that
  proof (induction ps arbitrary: d)
    case (Cons p ps)
    show ?case
      unfolding mapb.simps
      by (rule completes_bind [OF each], use Cons.prems in simp, use Cons.prems in simp, rule completes_bind [OF Cons.IH])
        (use Cons.prems extends_trans in \<open>auto intro: completes_ret\<close>)
  qed (simp add: completes_ret)
  then show ?thesis
    unfolding constrain_eq_def constrain_eq_vec_def
    by (intro completes_seq [OF completes_assert [OF len]] completes_seq [OF completes_assert [OF len]] TrueI
        completes_seq [where R = "\<lambda>_ _. True"] completes_ret) (auto intro: extends_trans)
qed

lemma zero_advice_complete:
  assumes "x = 0 \<or> fr_inverse P x \<noteq> None"
  shows "completes P sat (zero_advice P x) c (\<lambda>adv _. fst adv = of_bool (x = 0) \<and> - (x * snd adv) + 1 = fst adv)"
  using assms inverse_unit [of x] by (auto simp: zero_advice_def intro!: completes_ret)

lemma eq_zero_var_complete:
  assumes "val P c v = Some x" and "x = 0 \<or> fr_inverse P x \<noteq> None"
  shows "completes P sat (eq_zero_var P v) c (\<lambda>r c'. val P c' r = Some (of_bool (x = 0)))"
  unfolding eq_zero_var_def
proof (rule completes_bind [OF eval_complete [OF assms(1)]])
  fix y c1
  assume c1: "extends P c c1" "y = x"
  show "completes P sat
      (bindb (zero_advice P y) (\<lambda>advice. bindb (create_witness P (fst advice)) (\<lambda>is_zero_var.
       bindb (create_witness P (snd advice)) (\<lambda>inv_var. bindb (getb (cs_zero P)) (\<lambda>zero_var. bindb (getb (cs_one P)) (\<lambda>one_var.
       seqb (cs_mul_add_gate P [v, inv_var, one_var, one_var, is_zero_var] [- 1, 1])
       (seqb (cs_mul_gate P is_zero_var v zero_var) (retb is_zero_var)))))))) c1
      (\<lambda>r c'. val P c' r = Some (of_bool (x = 0)))"
    unfolding c1(2)
  proof (rule completes_bind [OF zero_advice_complete [OF assms(2)]], rule completes_bind [OF create_witness_complete],
      rule completes_bind [OF create_witness_complete], rule completes_bind [OF zero_complete], rule completes_bind [OF one_complete])
    fix adv c2 z c3 i c4 zv c5 ov c6
    assume e: "extends P c1 c2" "extends P c2 c3" "extends P c3 c4" "extends P c4 c5" "extends P c5 c6"
      and adv: "fst adv = of_bool (x = 0) \<and> - (x * snd adv) + 1 = fst adv"
      and z: "val P c3 z = Some (fst adv)" and i: "val P c4 i = Some (snd adv)"
      and zv: "val P c5 zv = Some 0" and ov: "val P c6 ov = Some 1"
    have v6: "val P c6 v = Some x" "val P c6 z = Some (fst adv)" "val P c6 i = Some (snd adv)" "val P c6 zv = Some 0"
      using assms(1) c1(1) e z i zv by (blast intro: val_mono)+
    show "completes P sat (seqb (cs_mul_add_gate P [v, i, ov, ov, z] [- 1, 1]) (seqb (cs_mul_gate P z v zv) (retb z))) c6
        (\<lambda>r c'. val P c' r = Some (of_bool (x = 0)))"
    proof (rule completes_seq [OF mul_add_gate_complete])
      show "vals P c6 [v, i, ov, ov, z] [x, snd adv, 1, 1, - 1 * (x * snd adv) + 1 * (1 * 1)]"
        using v6 ov adv by simp
      show "completes P sat (seqb (cs_mul_gate P z v zv) (retb z)) c7 (\<lambda>r c'. val P c' r = Some (of_bool (x = 0)))"
        if c7: "extends P c6 c7" for c7
      proof (rule completes_seq [OF mul_gate_complete])
        show "val P c7 z = Some (fst adv)" "val P c7 v = Some x" using v6 c7 by (blast intro: val_mono)+
        show "val P c7 zv = Some (fst adv * x)" using val_mono [OF c7 v6(4)] adv by simp
        show "completes P sat (retb z) c8 (\<lambda>r c'. val P c' r = Some (of_bool (x = 0)))" if "extends P c7 c8" for c8
          by (rule completes_ret) (use val_mono [OF that val_mono [OF c7 v6(2)]] adv in simp)
      qed
    qed
  qed
qed

lemma constrain_not_equal_complete:
  assumes "val P c a = Some x" "val P c b = Some y" and "x \<noteq> y" "fr_inverse P (x - y) \<noteq> None"
  shows "completes P sat (constrain_not_equal P [a] [b]) c (\<lambda>_ _. True)"
proof -
  have comp: "completes P sat (component_eq P ab) d (\<lambda>r c'. val P c' r = Some 0)"
    if "extends P c d" "ab \<in> set [(a, b)]" for d ab
  proof -
    have ab: "fst ab = a" "snd ab = b" using that(2) by simp_all
    note sub = sub_complete [OF val_mono [OF that(1) assms(1)] val_mono [OF that(1) assms(2)]]
    show ?thesis
      unfolding component_eq_def ab
    proof (rule completes_bind [OF sub])
      fix v d'
      assume "val P d' v = Some (x - y)"
      from eq_zero_var_complete [OF this] show "completes P sat (eq_zero_var P v) d' (\<lambda>r c'. val P c' r = Some 0)"
        using assms(3,4) by simp
    qed
  qed
  have vec: "completes P sat (eq_vec P [a] [b]) c (\<lambda>r c'. val P c' r = Some 0)"
    unfolding eq_vec_def
  proof (rule completes_seq [OF completes_assert [where Q = "\<lambda>_ d. d = c"]])
    fix c1
    assume "c1 = c"
    then show "completes P sat (bindb (mapb (component_eq P) (zip [a] [b])) (cs_logic_and_all P)) c1 (\<lambda>r c'. val P c' r = Some 0)"
    proof (simp only: zip_Cons_Cons zip_Nil, intro completes_bind [OF completes_map [where g = "\<lambda>_. 0"]])
      show "extends P c d \<Longrightarrow> ab \<in> set [(a, b)] \<Longrightarrow> completes P sat (component_eq P ab) d (\<lambda>r c'. val P c' r = Some 0)" for d ab
        by (rule comp)
      fix rs c2
      assume rs: "vals P c2 rs (map (\<lambda>_. 0) [(a, b)])"
      then have "rs \<noteq> []" using vals_length by fastforce
      then show "completes P sat (cs_logic_and_all P rs) c2 (\<lambda>r c'. val P c' r = Some 0)"
        using logic_and_all_complete [OF _ rs] by simp
    qed
  qed simp_all
  show ?thesis
    unfolding constrain_not_equal_def
    by (rule completes_bind [OF vec], rule completes_bind [OF logic_neg_complete], assumption, rule enforce_true_complete) simp
qed

lemma valid_amount_complete:
  "val P c a = Some x \<Longrightarrow> scalar_to_biguint x < 2 ^ 100 \<Longrightarrow> completes P sat (constrain_valid_amount P a) c (\<lambda>_ _. True)"
  unfolding constrain_valid_amount_def AMOUNT_BITS_def by (rule bit_range_complete)

lemma valid_price_complete:
  "val P c a = Some x \<Longrightarrow> scalar_to_biguint x < 2 ^ 127 \<Longrightarrow> completes P sat (constrain_valid_price P a) c (\<lambda>_ _. True)"
  unfolding constrain_valid_price_def by (rule bit_range_complete) (simp_all add: fp_consts)

lemma mul_integer_complete:
  "val P c a = Some x \<Longrightarrow> val P c b = Some y \<Longrightarrow> completes P sat (mul_integer P a b) c (\<lambda>v c'. val P c' v = Some (x * y))"
  unfolding mul_integer_def by (rule mul_complete)

lemma equal_floor_accepts:
  assumes "val P c fp = Some x" "val P c i = Some y" "x - TWO_TO_M_SCALAR * y = of_nat d" "d < 2 ^ 63"
  shows "completes P sat (constrain_equal_floor P fp i) c (\<lambda>_ _. True)"
  unfolding constrain_equal_floor_def
proof (rule completes_bind [OF zero_complete], rule completes_bind [OF lc_complete])
  fix z c1 v c2
  assume c1: "extends P c c1" "val P c1 z = Some 0"
  show "vals P c1 [fp, i, z, z] [x, y, 0, 0]"
    using c1 assms(1,2) by (auto intro: val_mono)
  assume v: "val P c2 v = Some (lin [x, y, 0, 0] [1, - TWO_TO_M_SCALAR, 1, 1])"
  have "lin [x, y, 0, 0] [1, - TWO_TO_M_SCALAR, 1, 1] = of_nat d"
    using assms(3) by (simp add: lin_def algebra_simps)
  then show "completes P sat (constrain_bit_range P v DEFAULT_FP_PRECISION) c2 (\<lambda>_ _. True)"
    using v assms(4)
    by (intro bit_range_complete) (auto simp: DEFAULT_FP_PRECISION_def intro: le_less_trans [OF scalar_to_biguint_le])
qed

lemma equal_floor_complete:
  assumes "val P c fp = Some x" "val P c i = Some (of_nat (scalar_to_biguint x div 2 ^ 63))"
  shows "completes P sat (constrain_equal_floor P fp i) c (\<lambda>_ _. True)"
proof (rule equal_floor_accepts [OF assms])
  let ?X = "scalar_to_biguint x"
  have "x = of_nat (2 ^ 63 * (?X div 2 ^ 63) + ?X mod 2 ^ 63)" by (simp add: scalar_of_nat)
  then have "x = TWO_TO_M_SCALAR * of_nat (?X div 2 ^ 63) + of_nat (?X mod 2 ^ 63)"
    unfolding TWO_TO_M_nat of_nat_add of_nat_mult .
  then show "x - TWO_TO_M_SCALAR * of_nat (?X div 2 ^ 63) = of_nat (?X mod 2 ^ 63)" by (simp add: algebra_simps)
qed simp

lemma ignore_fraction_accepts:
  assumes vs: "vals P c [a, b] [x, y]" and d: "TWO_TO_M_SCALAR - 1 - (x - TWO_TO_M_SCALAR * y) = of_nat d" "d < 2 ^ 64"
  shows "completes P sat (constrain_equal_integer_ignore_fraction P a b) c (\<lambda>_ _. True)"
proof -
  have l1: "lin [x, y, 0, 0] [1, - TWO_TO_M_SCALAR, 1, 1] = x - TWO_TO_M_SCALAR * y"
    by (simp add: lin_def algebra_simps)
  have l2: "lin [1, x - TWO_TO_M_SCALAR * y, 0, 0] [TWO_TO_M_SCALAR - 1, - 1, 1, 1] = of_nat d"
    using d(1) by (simp add: lin_def algebra_simps)
  have small: "scalar_to_biguint (of_nat d :: scalar) < 2 ^ 64" by (rule le_less_trans [OF scalar_to_biguint_le d(2)])
  show ?thesis
    unfolding constrain_equal_integer_ignore_fraction_def
    by (rule completes_bind_vals [OF vs zero_complete], rule completes_bind_vals [OF _ one_complete], assumption,
        rule completes_bind_vals [OF _ lc_complete [of _ _ "[x, y, 0, 0]"]], assumption, simp,
        rule completes_bind_vals [OF _ lc_complete [of _ _ "[1, x - TWO_TO_M_SCALAR * y, 0, 0]"]], assumption, simp add: l1,
        rule ge_zero_complete [of _ _ "of_nat d"])
      (use small in \<open>simp_all add: l2 DEFAULT_FP_PRECISION_def\<close>)
qed

lemma floor_gadget_complete:
  assumes "val P c v = Some x"
  shows "completes P sat (floor_gadget P v) c (\<lambda>i c'. val P c' i = Some (of_nat (scalar_to_biguint x div 2 ^ 63)))"
  unfolding floor_gadget_def
proof (rule completes_bind [OF eval_complete [OF assms]], rule completes_bind [OF create_witness_complete])
  fix y c1 i c2
  have floor: "fp_floor (from_repr x) = of_nat (scalar_to_biguint x div 2 ^ 63)" by (simp add: fp_floor_scalar from_repr_def)
  assume a: "extends P c c1" "y = x" "extends P c1 c2" "val P c2 i = Some (fp_floor (from_repr y))"
  show "completes P sat (seqb (constrain_equal_floor P v i) (retb i)) c2
      (\<lambda>i c'. val P c' i = Some (of_nat (scalar_to_biguint x div 2 ^ 63)))"
  proof (rule completes_seq [OF equal_floor_complete [where x = x]])
    show "val P c2 v = Some x" by (rule val_mono [OF a(3)], rule val_mono [OF a(1)], rule assms)
    show i: "val P c2 i = Some (of_nat (scalar_to_biguint x div 2 ^ 63))" using a(2,4) floor by simp
    show "extends P c2 c3 \<Longrightarrow> completes P sat (retb i) c3 (\<lambda>i c'. val P c' i = Some (of_nat (scalar_to_biguint x div 2 ^ 63)))" for c3
      by (rule completes_ret, rule val_mono, assumption, rule i)
  qed
qed

end

end
