(* ===== verification/Circuit_Settlement.thy ===== *)
theory Circuit_Settlement
  imports Circuit_Gadgets
begin

text \<open>
  The settlement circuits: \<open>circuits/circuits-core/src/zk_circuits/settlement\<close> with the gadgets
  of \<open>settlement_lib.rs\<close> and the fee gadget of \<open>zk_gadgets/state_gadgets/fee.rs\<close>. The variable
  types that the macros derive from a base type have one variable per scalar of the base type.
\<close>

section \<open>Variable types\<close>

record intent_var =
  iv_in_token :: variable
  iv_out_token :: variable
  iv_owner :: variable
  iv_min_price :: variable
  iv_amount_in :: variable

definition intent_vars :: "intent_var \<Rightarrow> variable list" where
  "intent_vars i = [iv_in_token i, iv_out_token i, iv_owner i, iv_min_price i, iv_amount_in i]"

record balance_var =
  bv_mint :: variable
  bv_owner :: variable
  bv_relayer_fee_recipient :: variable
  bv_authority_x :: variable
  bv_authority_y :: variable
  bv_relayer_fee_balance :: variable
  bv_protocol_fee_balance :: variable
  bv_amount :: variable

definition balance_vars :: "balance_var \<Rightarrow> variable list" where
  "balance_vars b =
     [bv_mint b, bv_owner b, bv_relayer_fee_recipient b, bv_authority_x b, bv_authority_y b,
      bv_relayer_fee_balance b, bv_protocol_fee_balance b, bv_amount b]"

record post_match_var =
  pv_relayer_fee_balance :: variable
  pv_protocol_fee_balance :: variable
  pv_amount :: variable

definition post_match_vars :: "post_match_var \<Rightarrow> variable list" where
  "post_match_vars p = [pv_relayer_fee_balance p, pv_protocol_fee_balance p, pv_amount p]"

record obligation_var =
  ov_input_token :: variable
  ov_output_token :: variable
  ov_amount_in :: variable
  ov_amount_out :: variable

definition obligation_vars :: "obligation_var \<Rightarrow> variable list" where
  "obligation_vars ob = [ov_input_token ob, ov_output_token ob, ov_amount_in ob, ov_amount_out ob]"

record fee_take_var =
  tv_relayer_fee :: variable
  tv_protocol_fee :: variable

record fee_rates_var =
  rv_relayer_fee_rate :: variable
  rv_protocol_fee_rate :: variable

record bounded_match_var =
  mv_input_token :: variable
  mv_output_token :: variable
  mv_min_amount_in :: variable
  mv_max_amount_in :: variable
  mv_price :: variable
  mv_block_deadline :: variable

section \<open>The fee gadget\<close>

definition FEE_BITS :: nat where
  "FEE_BITS = DEFAULT_FP_PRECISION"

definition constrain_valid_fee :: "('c, 'e) circuit \<Rightarrow> variable \<Rightarrow> (unit, 'c, 'e) build" where
  "constrain_valid_fee P fee = constrain_bit_range P fee FEE_BITS"

definition fee_take_gadget ::
    "('c, 'e) circuit \<Rightarrow> variable \<Rightarrow> fee_rates_var \<Rightarrow> (fee_take_var, 'c, 'e) build" where
  "fee_take_gadget P receive_amount rates =
     bindb (mul_integer P (rv_relayer_fee_rate rates) receive_amount) (\<lambda>relayer_fee_fp.
     bindb (mul_integer P (rv_protocol_fee_rate rates) receive_amount) (\<lambda>protocol_fee_fp.
     bindb (floor_gadget P relayer_fee_fp) (\<lambda>relayer_fee.
     bindb (floor_gadget P protocol_fee_fp) (\<lambda>protocol_fee.
     retb \<lparr>tv_relayer_fee = relayer_fee, tv_protocol_fee = protocol_fee\<rparr>))))"

definition total_fee :: "('c, 'e) circuit \<Rightarrow> fee_take_var \<Rightarrow> (variable, 'c, 'e) build" where
  "total_fee P fee_take = cs_add P (tv_relayer_fee fee_take) (tv_protocol_fee fee_take)"

section \<open>The settlement gadgets\<close>

definition verify_intent_constraints ::
    "('c, 'e) circuit \<Rightarrow> intent_var \<Rightarrow> obligation_var \<Rightarrow> (unit, 'c, 'e) build" where
  "verify_intent_constraints P intent obligation =
     seqb (constrain_eq P [ov_input_token obligation] [iv_in_token intent])
     (seqb (constrain_eq P [ov_output_token obligation] [iv_out_token intent])
     (seqb (constrain_greater_than_eq P (iv_amount_in intent) (ov_amount_in obligation) AMOUNT_BITS)
     (bindb (mul_integer P (iv_min_price intent) (ov_amount_in obligation)) (\<lambda>min_output_fp.
     bindb (floor_gadget P min_output_fp) (\<lambda>min_output.
     constrain_greater_than_eq P (ov_amount_out obligation) min_output AMOUNT_BITS)))))"

definition verify_in_balance_constraints ::
    "('c, 'e) circuit \<Rightarrow> balance_var \<Rightarrow> obligation_var \<Rightarrow> (unit, 'c, 'e) build" where
  "verify_in_balance_constraints P in_balance obligation =
     constrain_greater_than_eq P (bv_amount in_balance) (ov_amount_in obligation) AMOUNT_BITS"

definition verify_out_balance_constraints ::
    "('c, 'e) circuit \<Rightarrow> intent_var \<Rightarrow> balance_var \<Rightarrow> fee_take_var \<Rightarrow> obligation_var \<Rightarrow> (unit, 'c, 'e) build" where
  "verify_out_balance_constraints P intent out_balance fee_take obligation =
     seqb (constrain_eq P [bv_mint out_balance] [ov_output_token obligation])
     (seqb (constrain_eq P [bv_owner out_balance] [iv_owner intent])
     (bindb (total_fee P fee_take) (\<lambda>total.
     bindb (cs_sub P (ov_amount_out obligation) total) (\<lambda>net_receive.
     bindb (cs_add P (bv_amount out_balance) net_receive) (\<lambda>new_bal_amount.
     seqb (constrain_valid_amount P new_bal_amount)
     (bindb (cs_add P (bv_relayer_fee_balance out_balance) (tv_relayer_fee fee_take)) (\<lambda>new_relayer_fee_balance.
     bindb (cs_add P (bv_protocol_fee_balance out_balance) (tv_protocol_fee fee_take)) (\<lambda>new_protocol_fee_balance.
     seqb (constrain_valid_amount P new_relayer_fee_balance)
     (constrain_valid_amount P new_protocol_fee_balance)))))))))"

definition verify_intent_and_balance_obligation_constraints ::
    "('c, 'e) circuit \<Rightarrow> intent_var \<Rightarrow> balance_var \<Rightarrow> balance_var \<Rightarrow> obligation_var \<Rightarrow> fee_take_var \<Rightarrow> (unit, 'c, 'e) build" where
  "verify_intent_and_balance_obligation_constraints P intent in_balance out_balance obligation fee_take =
     seqb (verify_intent_constraints P intent obligation)
     (seqb (verify_in_balance_constraints P in_balance obligation)
     (verify_out_balance_constraints P intent out_balance fee_take obligation))"

definition verify_output_balance_share_updates ::
    "('c, 'e) circuit \<Rightarrow> fee_take_var \<Rightarrow> post_match_var \<Rightarrow> post_match_var \<Rightarrow> obligation_var \<Rightarrow> (unit, 'c, 'e) build" where
  "verify_output_balance_share_updates P fee_take old_shares new_shares obligation =
     bindb (total_fee P fee_take) (\<lambda>total.
     bindb (cs_sub P (ov_amount_out obligation) total) (\<lambda>net_receive.
     bindb (cs_add P (pv_amount old_shares) net_receive) (\<lambda>amount.
     bindb (cs_add P (pv_relayer_fee_balance old_shares) (tv_relayer_fee fee_take)) (\<lambda>relayer.
     bindb (cs_add P (pv_protocol_fee_balance old_shares) (tv_protocol_fee fee_take)) (\<lambda>protocol.
     constrain_eq P
       (post_match_vars (old_shares\<lparr>pv_amount := amount, pv_relayer_fee_balance := relayer, pv_protocol_fee_balance := protocol\<rparr>))
       (post_match_vars new_shares))))))"

definition verify_state_updates ::
    "('c, 'e) circuit \<Rightarrow> fee_take_var \<Rightarrow> variable \<Rightarrow> variable \<Rightarrow> post_match_var \<Rightarrow> post_match_var \<Rightarrow>
     post_match_var \<Rightarrow> post_match_var \<Rightarrow> obligation_var \<Rightarrow> (unit, 'c, 'e) build" where
  "verify_state_updates P fee_take intent_share new_intent_share in_shares new_in_shares out_shares new_out_shares obligation =
     bindb (cs_sub P intent_share (ov_amount_in obligation)) (\<lambda>expected_share.
     seqb (constrain_eq P [expected_share] [new_intent_share])
     (bindb (cs_sub P (pv_amount in_shares) (ov_amount_in obligation)) (\<lambda>amount.
     seqb (constrain_eq P (post_match_vars (in_shares\<lparr>pv_amount := amount\<rparr>)) (post_match_vars new_in_shares))
     (verify_output_balance_share_updates P fee_take out_shares new_out_shares obligation))))"

section \<open>The bounded settlement gadgets\<close>

definition verify_bounded_intent_constraints ::
    "('c, 'e) circuit \<Rightarrow> intent_var \<Rightarrow> bounded_match_var \<Rightarrow> (unit, 'c, 'e) build" where
  "verify_bounded_intent_constraints P intent result =
     seqb (constrain_eq P [mv_input_token result] [iv_in_token intent])
     (seqb (constrain_eq P [mv_output_token result] [iv_out_token intent])
     (seqb (constrain_greater_than_eq P (iv_amount_in intent) (mv_max_amount_in result) AMOUNT_BITS)
     (constrain_greater_than_eq P (mv_price result) (iv_min_price intent) PRICE_BITS)))"

definition verify_bounded_in_balance_constraints ::
    "('c, 'e) circuit \<Rightarrow> balance_var \<Rightarrow> bounded_match_var \<Rightarrow> (unit, 'c, 'e) build" where
  "verify_bounded_in_balance_constraints P in_balance result =
     constrain_greater_than_eq P (bv_amount in_balance) (mv_max_amount_in result) AMOUNT_BITS"

definition verify_bounded_out_balance_constraints ::
    "('c, 'e) circuit \<Rightarrow> balance_var \<Rightarrow> intent_var \<Rightarrow> bounded_match_var \<Rightarrow> (unit, 'c, 'e) build" where
  "verify_bounded_out_balance_constraints P out_balance intent result =
     seqb (constrain_eq P [bv_mint out_balance] [mv_output_token result])
     (seqb (constrain_eq P [bv_owner out_balance] [iv_owner intent])
     (bindb (mul_integer P (mv_price result) (mv_max_amount_in result)) (\<lambda>max_output_fp.
     bindb (floor_gadget P max_output_fp) (\<lambda>max_output.
     bindb (cs_add P (bv_amount out_balance) max_output) (\<lambda>max_bal_amount.
     constrain_valid_amount P max_bal_amount)))))"

definition verify_bounded_match_result_constraints ::
    "('c, 'e) circuit \<Rightarrow> intent_var \<Rightarrow> balance_var \<Rightarrow> balance_var \<Rightarrow> bounded_match_var \<Rightarrow> (unit, 'c, 'e) build" where
  "verify_bounded_match_result_constraints P intent in_balance out_balance result =
     seqb (verify_bounded_intent_constraints P intent result)
     (seqb (verify_bounded_in_balance_constraints P in_balance result)
     (verify_bounded_out_balance_constraints P out_balance intent result))"

section \<open>The circuits\<close>

record public_settlement_witness =
  pw_intent :: intent_var
  pw_amount_public_share :: variable
  pw_in_balance :: balance_var
  pw_in_balance_shares :: post_match_var
  pw_out_balance :: balance_var
  pw_out_balance_shares :: post_match_var

record public_settlement_statement =
  ps_obligation :: obligation_var
  ps_amount_public_share :: variable
  ps_in_balance_public_shares :: post_match_var
  ps_out_balance_public_shares :: post_match_var
  ps_fee_rates :: fee_rates_var
  ps_relayer_fee_recipient :: variable

definition intent_and_balance_public_settlement ::
    "('c, 'e) circuit \<Rightarrow> public_settlement_statement \<Rightarrow> public_settlement_witness \<Rightarrow> (unit, 'c, 'e) build" where
  "intent_and_balance_public_settlement P st wit =
     bindb (fee_take_gadget P (ov_amount_out (ps_obligation st)) (ps_fee_rates st)) (\<lambda>fee_take.
     seqb (verify_intent_and_balance_obligation_constraints P (pw_intent wit) (pw_in_balance wit) (pw_out_balance wit)
       (ps_obligation st) fee_take)
     (seqb (constrain_eq P [pw_amount_public_share wit] [ps_amount_public_share st])
     (seqb (constrain_eq P (post_match_vars (pw_in_balance_shares wit)) (post_match_vars (ps_in_balance_public_shares st)))
     (seqb (constrain_eq P (post_match_vars (pw_out_balance_shares wit)) (post_match_vars (ps_out_balance_public_shares st)))
     (constrain_eq P [bv_relayer_fee_recipient (pw_out_balance wit)] [ps_relayer_fee_recipient st])))))"

record bounded_settlement_statement =
  bs_result :: bounded_match_var
  bs_amount_public_share :: variable
  bs_in_balance_public_shares :: post_match_var
  bs_out_balance_public_shares :: post_match_var
  bs_internal_relayer_fee :: variable
  bs_external_relayer_fee :: variable
  bs_relayer_fee_recipient :: variable

definition intent_and_balance_bounded_settlement ::
    "('c, 'e) circuit \<Rightarrow> bounded_settlement_statement \<Rightarrow> public_settlement_witness \<Rightarrow> (unit, 'c, 'e) build" where
  "intent_and_balance_bounded_settlement P st wit =
     seqb (verify_bounded_match_result_constraints P (pw_intent wit) (pw_in_balance wit) (pw_out_balance wit) (bs_result st))
     (seqb (constrain_eq P [pw_amount_public_share wit] [bs_amount_public_share st])
     (seqb (constrain_eq P (post_match_vars (pw_in_balance_shares wit)) (post_match_vars (bs_in_balance_public_shares st)))
     (seqb (constrain_eq P (post_match_vars (pw_out_balance_shares wit)) (post_match_vars (bs_out_balance_public_shares st)))
     (constrain_eq P [bv_relayer_fee_recipient (pw_out_balance wit)] [bs_relayer_fee_recipient st]))))"

text \<open>
  The witness and the statement of a private settlement have each field twice, with the suffix 0
  for the first party and 1 for the second: a record per party here.
\<close>

record party_witness =
  yw_obligation :: obligation_var
  yw_intent :: intent_var
  yw_amount_public_share :: variable
  yw_input_balance :: balance_var
  yw_in_balance_shares :: post_match_var
  yw_output_balance :: balance_var
  yw_out_balance_shares :: post_match_var

record private_settlement_witness =
  party0 :: party_witness
  party1 :: party_witness

record party_statement =
  ys_new_amount_public_share :: variable
  ys_new_in_balance_public_shares :: post_match_var
  ys_new_out_balance_public_shares :: post_match_var

record private_settlement_statement =
  st_party0 :: party_statement
  st_party1 :: party_statement
  st_relayer_fee0 :: variable
  st_relayer_fee1 :: variable
  st_protocol_fee :: variable

definition validate_obligation_compatibility ::
    "('c, 'e) circuit \<Rightarrow> private_settlement_witness \<Rightarrow> (unit, 'c, 'e) build" where
  "validate_obligation_compatibility P wit =
     (let obligation0 = yw_obligation (party0 wit); obligation1 = yw_obligation (party1 wit) in
      seqb (constrain_valid_amount P (ov_amount_in obligation0))
      (seqb (constrain_valid_amount P (ov_amount_out obligation0))
      (seqb (constrain_valid_amount P (ov_amount_in obligation1))
      (seqb (constrain_valid_amount P (ov_amount_out obligation1))
      (seqb (constrain_eq P [ov_input_token obligation0] [ov_output_token obligation1])
      (seqb (constrain_eq P [ov_output_token obligation0] [ov_input_token obligation1])
      (seqb (constrain_eq P [ov_amount_in obligation0] [ov_amount_out obligation1])
      (constrain_eq P [ov_amount_out obligation0] [ov_amount_in obligation1]))))))))"

definition get_fee_takes ::
    "('c, 'e) circuit \<Rightarrow> private_settlement_statement \<Rightarrow> private_settlement_witness \<Rightarrow> (fee_take_var \<times> fee_take_var, 'c, 'e) build" where
  "get_fee_takes P st wit =
     (let fee_rate0 = \<lparr>rv_relayer_fee_rate = st_relayer_fee0 st, rv_protocol_fee_rate = st_protocol_fee st\<rparr>;
          fee_rate1 = \<lparr>rv_relayer_fee_rate = st_relayer_fee1 st, rv_protocol_fee_rate = st_protocol_fee st\<rparr> in
      bindb (fee_take_gadget P (ov_amount_out (yw_obligation (party0 wit))) fee_rate0) (\<lambda>fee_take0.
      bindb (fee_take_gadget P (ov_amount_out (yw_obligation (party1 wit))) fee_rate1) (\<lambda>fee_take1.
      retb (fee_take0, fee_take1))))"

definition intent_and_balance_private_settlement ::
    "('c, 'e) circuit \<Rightarrow> private_settlement_statement \<Rightarrow> private_settlement_witness \<Rightarrow> (unit, 'c, 'e) build" where
  "intent_and_balance_private_settlement P st wit =
     (let y0 = party0 wit; y1 = party1 wit; s0 = st_party0 st; s1 = st_party1 st in
      seqb (validate_obligation_compatibility P wit)
      (bindb (get_fee_takes P st wit) (\<lambda>(fee_take0, fee_take1).
      seqb (verify_intent_and_balance_obligation_constraints P (yw_intent y0) (yw_input_balance y0) (yw_output_balance y0)
        (yw_obligation y0) fee_take0)
      (seqb (verify_intent_and_balance_obligation_constraints P (yw_intent y1) (yw_input_balance y1) (yw_output_balance y1)
        (yw_obligation y1) fee_take1)
      (seqb (verify_state_updates P fee_take0 (yw_amount_public_share y0) (ys_new_amount_public_share s0)
        (yw_in_balance_shares y0) (ys_new_in_balance_public_shares s0)
        (yw_out_balance_shares y0) (ys_new_out_balance_public_shares s0) (yw_obligation y0))
      (verify_state_updates P fee_take1 (yw_amount_public_share y1) (ys_new_amount_public_share s1)
        (yw_in_balance_shares y1) (ys_new_in_balance_public_shares s1)
        (yw_out_balance_shares y1) (ys_new_out_balance_public_shares s1) (yw_obligation y1)))))))"

record intent_only_public_statement =
  os_obligation :: obligation_var
  os_relayer_fee :: variable
  os_relayer_fee_recipient :: variable

record intent_only_witness =
  ow_intent :: intent_var

definition intent_only_public_settlement ::
    "('c, 'e) circuit \<Rightarrow> intent_only_public_statement \<Rightarrow> intent_only_witness \<Rightarrow> (unit, 'c, 'e) build" where
  "intent_only_public_settlement P st wit = verify_intent_constraints P (ow_intent wit) (os_obligation st)"

record intent_only_bounded_statement =
  obs_result :: bounded_match_var
  obs_internal_relayer_fee :: variable
  obs_external_relayer_fee :: variable
  obs_relayer_fee_recipient :: variable

definition intent_only_bounded_settlement ::
    "('c, 'e) circuit \<Rightarrow> intent_only_bounded_statement \<Rightarrow> intent_only_witness \<Rightarrow> (unit, 'c, 'e) build" where
  "intent_only_bounded_settlement P st wit = verify_bounded_intent_constraints P (ow_intent wit) (obs_result st)"

section \<open>What the constraints say\<close>

text \<open>The relations between the values of the variables that the gadgets enforce.\<close>

definition floor_of :: "scalar \<Rightarrow> scalar \<Rightarrow> bool" where
  "floor_of x i \<longleftrightarrow> (\<exists>d < 2 ^ 63. x - TWO_TO_M_SCALAR * i = of_nat d)"

definition at_least :: "nat \<Rightarrow> scalar \<Rightarrow> scalar \<Rightarrow> bool" where
  "at_least n x y \<longleftrightarrow> (\<exists>m < 2 ^ n. x - y = of_nat m)"

definition intent_rel :: "assignment \<Rightarrow> intent_var \<Rightarrow> obligation_var \<Rightarrow> bool" where
  "intent_rel w i ob \<longleftrightarrow>
     w (ov_input_token ob) = w (iv_in_token i) \<and> w (ov_output_token ob) = w (iv_out_token i) \<and>
     at_least 100 (w (iv_amount_in i)) (w (ov_amount_in ob)) \<and>
     (\<exists>out. floor_of (w (iv_min_price i) * w (ov_amount_in ob)) out \<and> at_least 100 (w (ov_amount_out ob)) out)"

definition valid :: "scalar \<Rightarrow> bool" where
  "valid x \<longleftrightarrow> scalar_to_biguint x < 2 ^ 100"

definition out_rel :: "assignment \<Rightarrow> intent_var \<Rightarrow> balance_var \<Rightarrow> scalar \<Rightarrow> scalar \<Rightarrow> obligation_var \<Rightarrow> bool" where
  "out_rel w i b rf pf ob \<longleftrightarrow>
     w (bv_mint b) = w (ov_output_token ob) \<and> w (bv_owner b) = w (iv_owner i) \<and>
     valid (w (bv_amount b) + (w (ov_amount_out ob) - (rf + pf))) \<and>
     valid (w (bv_relayer_fee_balance b) + rf) \<and> valid (w (bv_protocol_fee_balance b) + pf)"

definition take_rel :: "assignment \<Rightarrow> fee_rates_var \<Rightarrow> scalar \<Rightarrow> fee_take_var \<Rightarrow> bool" where
  "take_rel w r a t \<longleftrightarrow>
     floor_of (w (rv_relayer_fee_rate r) * a) (w (tv_relayer_fee t)) \<and>
     floor_of (w (rv_protocol_fee_rate r) * a) (w (tv_protocol_fee t))"

definition party_rel :: "assignment \<Rightarrow> intent_var \<Rightarrow> balance_var \<Rightarrow> balance_var \<Rightarrow> obligation_var \<Rightarrow> fee_take_var \<Rightarrow> bool" where
  "party_rel w i b b' ob t \<longleftrightarrow>
     intent_rel w i ob \<and> at_least 100 (w (bv_amount b)) (w (ov_amount_in ob)) \<and>
     out_rel w i b' (w (tv_relayer_fee t)) (w (tv_protocol_fee t)) ob"

definition update_rel ::
    "assignment \<Rightarrow> fee_take_var \<Rightarrow> variable \<Rightarrow> variable \<Rightarrow> post_match_var \<Rightarrow> post_match_var \<Rightarrow> post_match_var \<Rightarrow>
     post_match_var \<Rightarrow> obligation_var \<Rightarrow> bool" where
  "update_rel w t s s' b b' o' o'' ob \<longleftrightarrow>
     w s' = w s - w (ov_amount_in ob) \<and>
     map w (post_match_vars b') =
       [w (pv_relayer_fee_balance b), w (pv_protocol_fee_balance b), w (pv_amount b) - w (ov_amount_in ob)] \<and>
     map w (post_match_vars o'') =
       [w (pv_relayer_fee_balance o') + w (tv_relayer_fee t), w (pv_protocol_fee_balance o') + w (tv_protocol_fee t),
        w (pv_amount o') + (w (ov_amount_out ob) - (w (tv_relayer_fee t) + w (tv_protocol_fee t)))]"

definition leak_rel ::
    "assignment \<Rightarrow> public_settlement_witness \<Rightarrow> variable \<Rightarrow> post_match_var \<Rightarrow> post_match_var \<Rightarrow> variable \<Rightarrow> bool" where
  "leak_rel w wit s b o' r \<longleftrightarrow>
     w s = w (pw_amount_public_share wit) \<and>
     map w (post_match_vars b) = map w (post_match_vars (pw_in_balance_shares wit)) \<and>
     map w (post_match_vars o') = map w (post_match_vars (pw_out_balance_shares wit)) \<and>
     w r = w (bv_relayer_fee_recipient (pw_out_balance wit))"

definition mirror_rel :: "assignment \<Rightarrow> obligation_var \<Rightarrow> obligation_var \<Rightarrow> bool" where
  "mirror_rel w x y \<longleftrightarrow>
     valid (w (ov_amount_in x)) \<and> valid (w (ov_amount_out x)) \<and> valid (w (ov_amount_in y)) \<and> valid (w (ov_amount_out y)) \<and>
     w (ov_input_token x) = w (ov_output_token y) \<and> w (ov_output_token x) = w (ov_input_token y) \<and>
     w (ov_amount_in x) = w (ov_amount_out y) \<and> w (ov_amount_out x) = w (ov_amount_in y)"

definition private_rel :: "assignment \<Rightarrow> variable \<Rightarrow> variable \<Rightarrow> party_witness \<Rightarrow> party_statement \<Rightarrow> bool" where
  "private_rel w rr pr y s \<longleftrightarrow>
     (\<exists>t. take_rel w \<lparr>rv_relayer_fee_rate = rr, rv_protocol_fee_rate = pr\<rparr> (w (ov_amount_out (yw_obligation y))) t \<and>
          party_rel w (yw_intent y) (yw_input_balance y) (yw_output_balance y) (yw_obligation y) t \<and>
          update_rel w t (yw_amount_public_share y) (ys_new_amount_public_share s)
            (yw_in_balance_shares y) (ys_new_in_balance_public_shares s)
            (yw_out_balance_shares y) (ys_new_out_balance_public_shares s) (yw_obligation y))"

definition bounded_intent_rel :: "assignment \<Rightarrow> intent_var \<Rightarrow> bounded_match_var \<Rightarrow> bool" where
  "bounded_intent_rel w i m \<longleftrightarrow>
     w (mv_input_token m) = w (iv_in_token i) \<and> w (mv_output_token m) = w (iv_out_token i) \<and>
     at_least 100 (w (iv_amount_in i)) (w (mv_max_amount_in m)) \<and> at_least 127 (w (mv_price m)) (w (iv_min_price i))"

definition bounded_rel :: "assignment \<Rightarrow> intent_var \<Rightarrow> balance_var \<Rightarrow> balance_var \<Rightarrow> bounded_match_var \<Rightarrow> bool" where
  "bounded_rel w i b b' m \<longleftrightarrow>
     bounded_intent_rel w i m \<and> at_least 100 (w (bv_amount b)) (w (mv_max_amount_in m)) \<and>
     w (bv_mint b') = w (mv_output_token m) \<and> w (bv_owner b') = w (iv_owner i) \<and>
     (\<exists>out. floor_of (w (mv_price m) * w (mv_max_amount_in m)) out \<and> valid (w (bv_amount b') + out))"

context circuit_contract
begin

lemma at_least_sound: "sound sat (constrain_greater_than_eq P a b n) (\<lambda>w _. at_least n (w a) (w b))"
  unfolding at_least_def by (rule constrain_ge_sound)

lemma floor_of_sound: "sound sat (floor_gadget P v) (\<lambda>w i. floor_of (w v) (w i))"
  unfolding floor_of_def by (rule floor_gadget_sound)

lemma valid_sound: "sound sat (constrain_valid_amount P a) (\<lambda>w _. valid (w a))"
  unfolding valid_def by (rule valid_amount_sound)

lemma fee_take_sound: "sound sat (fee_take_gadget P a r) (\<lambda>w t. take_rel w r (w a) t)"
  unfolding fee_take_gadget_def take_rel_def
  by (rule sound_bind [OF mul_integer_sound], rule sound_bind [OF mul_integer_sound],
      rule sound_bind [OF floor_of_sound], rule sound_bind [OF floor_of_sound], rule sound_ret) auto

lemma total_fee_sound: "sound sat (total_fee P t) (\<lambda>w v. w v = w (tv_relayer_fee t) + w (tv_protocol_fee t))"
  unfolding total_fee_def by (rule add_sound)

lemma intent_constraints_sound: "sound sat (verify_intent_constraints P i ob) (\<lambda>w _. intent_rel w i ob)"
  unfolding verify_intent_constraints_def intent_rel_def AMOUNT_BITS_def
  by (rule sound_seq [OF constrain_eq_sound], rule sound_seq [OF constrain_eq_sound], rule sound_seq [OF at_least_sound],
      rule sound_bind [OF mul_integer_sound], rule sound_bind [OF floor_of_sound], rule sound_weaken [OF at_least_sound]) auto

lemma out_balance_constraints_sound:
  "sound sat (verify_out_balance_constraints P i b t ob)
     (\<lambda>w _. out_rel w i b (w (tv_relayer_fee t)) (w (tv_protocol_fee t)) ob)"
  unfolding verify_out_balance_constraints_def out_rel_def
  by (rule sound_seq [OF constrain_eq_sound], rule sound_seq [OF constrain_eq_sound], rule sound_bind [OF total_fee_sound],
      rule sound_bind [OF sub_sound], rule sound_bind [OF add_sound], rule sound_seq [OF valid_sound],
      rule sound_bind [OF add_sound], rule sound_bind [OF add_sound], rule sound_seq [OF valid_sound],
      rule sound_weaken [OF valid_sound]) auto

lemma obligation_constraints_sound:
  "sound sat (verify_intent_and_balance_obligation_constraints P i b b' ob t) (\<lambda>w _. party_rel w i b b' ob t)"
  unfolding verify_intent_and_balance_obligation_constraints_def verify_in_balance_constraints_def party_rel_def AMOUNT_BITS_def
  by (rule sound_seq [OF intent_constraints_sound], rule sound_seq [OF at_least_sound],
      rule sound_weaken [OF out_balance_constraints_sound]) auto

lemma state_updates_sound:
  "sound sat (verify_state_updates P t s s' b b' o' o'' ob) (\<lambda>w _. update_rel w t s s' b b' o' o'' ob)"
  unfolding verify_state_updates_def verify_output_balance_share_updates_def update_rel_def
  by (rule sound_bind [OF sub_sound], rule sound_seq [OF constrain_eq_sound], rule sound_bind [OF sub_sound],
      rule sound_seq [OF constrain_eq_sound], rule sound_bind [OF total_fee_sound], rule sound_bind [OF sub_sound],
      rule sound_bind [OF add_sound], rule sound_bind [OF add_sound], rule sound_bind [OF add_sound],
      rule sound_weaken [OF constrain_eq_sound]) (auto simp: post_match_vars_def)

lemma bounded_intent_constraints_sound:
  "sound sat (verify_bounded_intent_constraints P i m) (\<lambda>w _. bounded_intent_rel w i m)"
  unfolding verify_bounded_intent_constraints_def bounded_intent_rel_def fp_consts
  by (rule sound_seq [OF constrain_eq_sound], rule sound_seq [OF constrain_eq_sound], rule sound_seq [OF at_least_sound],
      rule sound_weaken [OF at_least_sound]) auto

lemma valid_fee_sound: "sound sat (constrain_valid_fee P fee) (\<lambda>w _. scalar_to_biguint (w fee) < 2 ^ 63)"
  unfolding constrain_valid_fee_def FEE_BITS_def DEFAULT_FP_PRECISION_def by (rule bit_range_value) simp

lemma intent_only_sound:
  "sound sat (intent_only_public_settlement P ps ow) (\<lambda>w _. intent_rel w (ow_intent ow) (os_obligation ps))"
  "sound sat (intent_only_bounded_settlement P bs ow) (\<lambda>w _. bounded_intent_rel w (ow_intent ow) (obs_result bs))"
  unfolding intent_only_public_settlement_def intent_only_bounded_settlement_def
  by (rule intent_constraints_sound, rule bounded_intent_constraints_sound)

lemma bounded_constraints_sound:
  "sound sat (verify_bounded_match_result_constraints P i b b' m) (\<lambda>w _. bounded_rel w i b b' m)"
  unfolding verify_bounded_match_result_constraints_def verify_bounded_in_balance_constraints_def
    verify_bounded_out_balance_constraints_def bounded_rel_def AMOUNT_BITS_def
  by (rule sound_seq [OF bounded_intent_constraints_sound], rule sound_seq [OF at_least_sound],
      rule sound_seq [OF constrain_eq_sound], rule sound_seq [OF constrain_eq_sound], rule sound_bind [OF mul_integer_sound],
      rule sound_bind [OF floor_of_sound], rule sound_bind [OF add_sound], rule sound_weaken [OF valid_sound]) auto

lemma bounded_settlement_sound:
  "sound sat (intent_and_balance_bounded_settlement P st wit)
     (\<lambda>w _. bounded_rel w (pw_intent wit) (pw_in_balance wit) (pw_out_balance wit) (bs_result st) \<and>
        leak_rel w wit (bs_amount_public_share st) (bs_in_balance_public_shares st) (bs_out_balance_public_shares st)
          (bs_relayer_fee_recipient st))"
  unfolding intent_and_balance_bounded_settlement_def leak_rel_def
  by (rule sound_seq [OF bounded_constraints_sound],
      rule sound_seq [OF constrain_eq_sound], rule sound_seq [OF constrain_eq_sound], rule sound_seq [OF constrain_eq_sound],
      rule sound_weaken [OF constrain_eq_sound]) auto

lemma public_settlement_sound:
  "sound sat (intent_and_balance_public_settlement P st wit)
     (\<lambda>w _. \<exists>t. take_rel w (ps_fee_rates st) (w (ov_amount_out (ps_obligation st))) t \<and>
        party_rel w (pw_intent wit) (pw_in_balance wit) (pw_out_balance wit) (ps_obligation st) t \<and>
        leak_rel w wit (ps_amount_public_share st) (ps_in_balance_public_shares st) (ps_out_balance_public_shares st)
          (ps_relayer_fee_recipient st))"
  unfolding intent_and_balance_public_settlement_def leak_rel_def
  by (rule sound_bind [OF fee_take_sound], rule sound_seq [OF obligation_constraints_sound],
      rule sound_seq [OF constrain_eq_sound], rule sound_seq [OF constrain_eq_sound], rule sound_seq [OF constrain_eq_sound],
      rule sound_weaken [OF constrain_eq_sound]) auto

lemma compatibility_sound:
  "sound sat (validate_obligation_compatibility P wit)
     (\<lambda>w _. mirror_rel w (yw_obligation (party0 wit)) (yw_obligation (party1 wit)))"
  unfolding validate_obligation_compatibility_def Let_def mirror_rel_def
  by (rule sound_seq [OF valid_sound], rule sound_seq [OF valid_sound], rule sound_seq [OF valid_sound],
      rule sound_seq [OF valid_sound], rule sound_seq [OF constrain_eq_sound], rule sound_seq [OF constrain_eq_sound],
      rule sound_seq [OF constrain_eq_sound], rule sound_weaken [OF constrain_eq_sound]) simp

lemma fee_takes_sound:
  "sound sat (get_fee_takes P st wit) (\<lambda>w (t0, t1).
     take_rel w \<lparr>rv_relayer_fee_rate = st_relayer_fee0 st, rv_protocol_fee_rate = st_protocol_fee st\<rparr>
       (w (ov_amount_out (yw_obligation (party0 wit)))) t0 \<and>
     take_rel w \<lparr>rv_relayer_fee_rate = st_relayer_fee1 st, rv_protocol_fee_rate = st_protocol_fee st\<rparr>
       (w (ov_amount_out (yw_obligation (party1 wit)))) t1)"
  unfolding get_fee_takes_def Let_def
  by (rule sound_bind [OF fee_take_sound], rule sound_bind [OF fee_take_sound], rule sound_ret) simp

lemma private_settlement_sound:
  "sound sat (intent_and_balance_private_settlement P st wit)
     (\<lambda>w _. mirror_rel w (yw_obligation (party0 wit)) (yw_obligation (party1 wit)) \<and>
        private_rel w (st_relayer_fee0 st) (st_protocol_fee st) (party0 wit) (st_party0 st) \<and>
        private_rel w (st_relayer_fee1 st) (st_protocol_fee st) (party1 wit) (st_party1 st))"
  unfolding intent_and_balance_private_settlement_def Let_def private_rel_def
proof (rule sound_seq [OF compatibility_sound], rule sound_bind [OF fee_takes_sound], simp only: case_prod_beta,
    rule sound_seq [OF obligation_constraints_sound], rule sound_seq [OF obligation_constraints_sound],
    rule sound_seq [OF state_updates_sound], rule sound_weaken [OF state_updates_sound])
qed blast

end

section \<open>What the settlement circuits accept\<close>

text \<open>
  The conditions of a settlement on the values of the state elements: the obligation trades the
  intent's pair within its amount and at its price or better, the input balance covers it, and
  the output balance has the intent's owner, the output token, and room for what is received.
\<close>

definition obligation_accepted :: "intent \<Rightarrow> settlement_obligation \<Rightarrow> bool" where
  "obligation_accepted i ob \<longleftrightarrow>
     input_token ob = in_token i \<and> output_token ob = out_token i \<and> ob_amount_in ob \<le> amount_in i \<and>
     scalar_to_biguint (floor_mul_int (min_price i) (ob_amount_in ob)) \<le> unat (ob_amount_out ob)"

definition receipt_accepted :: "intent \<Rightarrow> darkpool_balance \<Rightarrow> settlement_obligation \<Rightarrow> fee_take \<Rightarrow> bool" where
  "receipt_accepted i b ob f \<longleftrightarrow>
     mint b = output_token ob \<and> bal_owner b = owner i \<and>
     unat (relayer_fee f) + unat (protocol_fee f) \<le> unat (bal_amount b) + unat (ob_amount_out ob) \<and>
     unat (bal_amount b) + unat (ob_amount_out ob) < 2 ^ AMOUNT_BITS + unat (relayer_fee f) + unat (protocol_fee f) \<and>
     unat (relayer_fee_balance b) + unat (relayer_fee f) < 2 ^ AMOUNT_BITS \<and>
     unat (protocol_fee_balance b) + unat (protocol_fee f) < 2 ^ AMOUNT_BITS"

definition party_accepted ::
    "intent \<Rightarrow> darkpool_balance \<Rightarrow> darkpool_balance \<Rightarrow> settlement_obligation \<Rightarrow> fee_take \<Rightarrow> bool" where
  "party_accepted i b b' ob f \<longleftrightarrow>
     obligation_accepted i ob \<and> ob_amount_in ob \<le> bal_amount b \<and> receipt_accepted i b' ob f"

definition valid_intent :: "intent \<Rightarrow> bool" where
  "valid_intent i \<longleftrightarrow> validate_price_bitlength (min_price i) \<and> validate_amount_bitlength (amount_in i)"

definition valid_balance :: "darkpool_balance \<Rightarrow> bool" where
  "valid_balance b \<longleftrightarrow>
     validate_amount_bitlength (bal_amount b) \<and> validate_amount_bitlength (relayer_fee_balance b) \<and>
     validate_amount_bitlength (protocol_fee_balance b)"

definition valid_obligation :: "settlement_obligation \<Rightarrow> bool" where
  "valid_obligation ob \<longleftrightarrow> validate_amount_bitlength (ob_amount_in ob) \<and> validate_amount_bitlength (ob_amount_out ob)"

definition valid_rates :: "fee_rates \<Rightarrow> bool" where
  "valid_rates r \<longleftrightarrow>
     scalar_to_biguint (repr (relayer_fee_rate r)) + scalar_to_biguint (repr (protocol_fee_rate r)) \<le> 2 ^ DEFAULT_FP_PRECISION"

text \<open>The variables hold the values of the state elements.\<close>

definition obligation_to_scalars :: "settlement_obligation \<Rightarrow> scalar list" where
  "obligation_to_scalars ob =
     [address_to_scalar (input_token ob), address_to_scalar (output_token ob), scalar_of_u128 (ob_amount_in ob),
      scalar_of_u128 (ob_amount_out ob)]"

definition rates_to_scalars :: "fee_rates \<Rightarrow> scalar list" where
  "rates_to_scalars r = [repr (relayer_fee_rate r), repr (protocol_fee_rate r)]"

definition rates_vars :: "fee_rates_var \<Rightarrow> variable list" where
  "rates_vars r = [rv_relayer_fee_rate r, rv_protocol_fee_rate r]"

lemmas holds_defs = intent_vars_def intent_to_scalars_def balance_vars_def balance_to_scalars_def obligation_vars_def
  obligation_to_scalars_def rates_vars_def rates_to_scalars_def

lemma address_to_scalar_inj [simp]: "address_to_scalar a = address_to_scalar b \<longleftrightarrow> a = b"
  by (metis scalar_address_roundtrip)

lemma of_nat_unat: "scalar_of_u128 a = of_nat (unat a)"
  by (metis scalar_of_nat scalar_to_biguint_of_u128)

lemma scalar_u128_value: "scalar_to_biguint x < 2 ^ 128 \<Longrightarrow> scalar_of_u128 (scalar_to_u128 x) = x"
  by (simp add: scalar_eq_iff unat_scalar_to_u128)

lemma at_least_iff:
  assumes "scalar_to_biguint x < 2 ^ n" "scalar_to_biguint y < 2 ^ n" "n \<le> 252"
  shows "at_least n x y \<longleftrightarrow> scalar_to_biguint y \<le> scalar_to_biguint x"
proof
  assume "at_least n x y"
  then obtain m where "m < 2 ^ n" "x - y = of_nat m" by (auto simp: at_least_def)
  then show "scalar_to_biguint y \<le> scalar_to_biguint x" using difference_value [OF _ _ assms(2,3)] by simp
next
  assume le: "scalar_to_biguint y \<le> scalar_to_biguint x"
  then show "at_least n x y"
    using assms(1) scalar_diff_nat [OF le] unfolding at_least_def by (intro exI [of _ "scalar_to_biguint x - scalar_to_biguint y"]) simp
qed

lemma at_least_amounts:
  "validate_amount_bitlength a \<Longrightarrow> validate_amount_bitlength b \<Longrightarrow>
     at_least 100 (scalar_of_u128 a) (scalar_of_u128 b) \<longleftrightarrow> b \<le> a"
  by (simp add: at_least_iff validate_amount_iff word_le_nat_alt)

text \<open>The product of a price and an amount, and what its floor is.\<close>

definition floor_fn :: "scalar \<Rightarrow> scalar" where
  "floor_fn x = of_nat (scalar_to_biguint x div 2 ^ 63)"

lemma floor_fn_of: "floor_of x (floor_fn x)"
proof -
  have "x = of_nat (2 ^ 63 * (scalar_to_biguint x div 2 ^ 63) + scalar_to_biguint x mod 2 ^ 63)" by (simp add: scalar_of_nat)
  then have "x = TWO_TO_M_SCALAR * floor_fn x + of_nat (scalar_to_biguint x mod 2 ^ 63)"
    unfolding TWO_TO_M_nat of_nat_add of_nat_mult floor_fn_def .
  then have "x - TWO_TO_M_SCALAR * floor_fn x = of_nat (scalar_to_biguint x mod 2 ^ 63)" by (simp add: algebra_simps)
  then show ?thesis unfolding floor_of_def by (intro exI [of _ "scalar_to_biguint x mod 2 ^ 63"]) simp
qed

lemma floor_fn_price: "floor_fn (repr p * scalar_of_u128 a) = floor_mul_int p a"
  by (simp add: floor_fn_def floor_mul_int_def mul_scalar_def fp_floor_scalar)

lemma product_value:
  assumes "scalar_to_biguint x < 2 ^ 127" "scalar_to_biguint y < 2 ^ 100"
  shows "scalar_to_biguint (x * y) = scalar_to_biguint x * scalar_to_biguint y" "scalar_to_biguint (x * y) < 2 ^ 252"
proof -
  have "scalar_to_biguint x * scalar_to_biguint y < 2 ^ 127 * 2 ^ 100" using assms by (intro mult_strict_mono) auto
  then have b: "scalar_to_biguint x * scalar_to_biguint y < 2 ^ 227" by simp
  have "x * y = of_nat (scalar_to_biguint x * scalar_to_biguint y)" by (simp add: scalar_of_nat)
  then show v: "scalar_to_biguint (x * y) = scalar_to_biguint x * scalar_to_biguint y"
    using scalar_small [of "scalar_to_biguint x * scalar_to_biguint y"] b by simp
  show "scalar_to_biguint (x * y) < 2 ^ 252" unfolding v using b by simp
qed

lemma floor_determined:
  assumes "floor_of x i" "of_nat k + i = of_nat l" "k < 2 ^ 128" "l < 2 ^ 128" "scalar_to_biguint x < 2 ^ 252"
  shows "i = floor_fn x" and "k + scalar_to_biguint (floor_fn x) = l"
proof -
  have kl: "k < 2 ^ 189" "l < 2 ^ 189" using assms(3,4) by simp_all
  obtain d where d: "x - TWO_TO_M_SCALAR * i = of_nat d" "d < 2 ^ 63" using assms(1) by (auto simp: floor_of_def)
  note v = floor_value [OF d assms(2) kl assms(5)]
  show "i = floor_fn x" using v(2) by (simp add: floor_fn_def)
  have "scalar_to_biguint x div 2 ^ 63 \<le> l" using v(1) by simp
  then show "k + scalar_to_biguint (floor_fn x) = l" using v(1) kl(2) by (simp add: floor_fn_def scalar_small)
qed

lemma price_product:
  "validate_price_bitlength p \<Longrightarrow> validate_amount_bitlength a \<Longrightarrow>
     scalar_to_biguint (repr p * scalar_of_u128 a) < 2 ^ 252"
  by (rule product_value(2)) (simp_all add: validate_price_iff validate_amount_iff)

lemma intent_rel_iff:
  assumes i: "map w (intent_vars iv) = intent_to_scalars i" and ob: "map w (obligation_vars ov) = obligation_to_scalars ob"
    and v: "valid_intent i" "valid_obligation ob"
  shows "intent_rel w iv ov \<longleftrightarrow> obligation_accepted i ob"
    and "obligation_accepted i ob \<Longrightarrow>
      at_least 100 (w (ov_amount_out ov)) (floor_fn (w (iv_min_price iv) * w (ov_amount_in ov)))"
proof -
  let ?x = "repr (min_price i) * scalar_of_u128 (ob_amount_in ob)"
  have b: "scalar_to_biguint ?x < 2 ^ 252"
    using v by (intro price_product) (simp_all add: valid_intent_def valid_obligation_def)
  have out: "unat (ob_amount_out ob) < 2 ^ 100"
    using v by (simp add: valid_obligation_def validate_amount_iff)
  have price: "at_least 100 (scalar_of_u128 (ob_amount_out ob)) (floor_fn ?x)"
    if "scalar_to_biguint (floor_mul_int (min_price i) (ob_amount_in ob)) \<le> unat (ob_amount_out ob)"
    using that out by (subst at_least_iff) (simp_all add: floor_fn_price)
  have price': "scalar_to_biguint (floor_mul_int (min_price i) (ob_amount_in ob)) \<le> unat (ob_amount_out ob)"
    if f: "floor_of ?x z" and z: "at_least 100 (scalar_of_u128 (ob_amount_out ob)) z" for z
  proof -
    obtain m where m: "m < 2 ^ 100" "scalar_of_u128 (ob_amount_out ob) - z = of_nat m" using z by (auto simp: at_least_def)
    have "of_nat m + z = of_nat (unat (ob_amount_out ob))" using m(2) by (simp add: of_nat_unat algebra_simps)
    from floor_determined(2) [OF f this _ _ b] show ?thesis using m(1) out by (simp add: floor_fn_price)
  qed
  have amt: "at_least 100 (scalar_of_u128 (amount_in i)) (scalar_of_u128 (ob_amount_in ob)) \<longleftrightarrow> ob_amount_in ob \<le> amount_in i"
    using v by (intro at_least_amounts) (simp_all add: valid_intent_def valid_obligation_def)
  show "intent_rel w iv ov \<longleftrightarrow> obligation_accepted i ob"
    using i ob price price' floor_fn_of [of ?x] unfolding intent_rel_def obligation_accepted_def
    by (auto simp: holds_defs amt)
  show "at_least 100 (w (ov_amount_out ov)) (floor_fn (w (iv_min_price iv) * w (ov_amount_in ov)))"
    if "obligation_accepted i ob"
    using that i ob price by (simp add: holds_defs obligation_accepted_def)
qed

lemma fee_value:
  assumes rate: "scalar_to_biguint (repr r) \<le> 2 ^ 63" and a: "validate_amount_bitlength a"
  shows "floor_fn (repr r * scalar_of_u128 a) = scalar_of_u128 (scalar_to_u128 (floor_mul_int r a))"
    and "validate_amount_bitlength k \<Longrightarrow> floor_of (repr r * scalar_of_u128 a) z \<Longrightarrow> valid (scalar_of_u128 k + z) \<Longrightarrow>
      z = scalar_of_u128 (scalar_to_u128 (floor_mul_int r a))"
proof -
  note nw = rate_no_wrap [OF rate a]
  have a': "unat a < 2 ^ 100" using a by (simp add: validate_amount_iff)
  have b: "scalar_to_biguint (repr r) < 2 ^ 127" using rate by simp
  note pv = product_value [OF b, of "scalar_of_u128 a"]
  have "scalar_to_biguint (floor_mul_int r a) = scalar_to_biguint (repr r) * unat a div 2 ^ 63"
    using nw(2) a' pv by (simp add: floor_fn_def scalar_small flip: floor_fn_price)
  then show v: "floor_fn (repr r * scalar_of_u128 a) = scalar_of_u128 (scalar_to_u128 (floor_mul_int r a))"
    using nw(2) a' by (subst scalar_u128_value) (simp_all add: floor_fn_price)
  assume k: "validate_amount_bitlength k" and z: "floor_of (repr r * scalar_of_u128 a) z" and l: "valid (scalar_of_u128 k + z)"
  have "of_nat (unat k) + z = of_nat (scalar_to_biguint (scalar_of_u128 k + z))" by (simp add: of_nat_unat scalar_of_nat)
  from floor_determined(1) [OF z this] show "z = scalar_of_u128 (scalar_to_u128 (floor_mul_int r a))"
    using v k l pv(2) a' by (simp add: validate_amount_iff valid_def)
qed

lemma valid_sum: "valid (scalar_of_u128 a + scalar_of_u128 b) \<longleftrightarrow> unat a + unat b < 2 ^ 100"
proof -
  have "unat a + unat b < 2 ^ 253" using unat_less_u128 [of a] unat_less_u128 [of b] by simp
  then have "scalar_to_biguint (of_nat (unat a + unat b)) = unat a + unat b" by (rule scalar_small)
  then show ?thesis by (simp add: valid_def of_nat_unat)
qed

lemma valid_net:
  "valid (scalar_of_u128 a + (scalar_of_u128 b - (scalar_of_u128 f + scalar_of_u128 g))) \<longleftrightarrow>
     unat f + unat g \<le> unat a + unat b \<and> unat a + unat b < 2 ^ 100 + unat f + unat g"
  (is "valid ?x \<longleftrightarrow> _")
proof
  note b = unat_less_u128 [of a] unat_less_u128 [of b] unat_less_u128 [of f] unat_less_u128 [of g]
  have "?x + of_nat (unat f + unat g) = of_nat (unat a + unat b)" by (simp add: of_nat_unat)
  then have e: "of_nat (scalar_to_biguint ?x + (unat f + unat g)) = (of_nat (unat a + unat b) :: scalar)"
    by (simp add: scalar_of_nat)
  show "unat f + unat g \<le> unat a + unat b \<and> unat a + unat b < 2 ^ 100 + unat f + unat g" if "valid ?x"
  proof -
    have "scalar_to_biguint ?x < 2 ^ 100" using that by (simp add: valid_def)
    then have "scalar_to_biguint ?x + (unat f + unat g) < 2 ^ 253" "unat a + unat b < 2 ^ 253" using b by simp_all
    from scalar_small_inj [OF e this] show ?thesis using \<open>scalar_to_biguint ?x < 2 ^ 100\<close> by linarith
  qed
  assume h: "unat f + unat g \<le> unat a + unat b \<and> unat a + unat b < 2 ^ 100 + unat f + unat g"
  have "?x = of_nat (unat a + unat b) - of_nat (unat f + unat g)" by (simp add: of_nat_unat)
  also have "\<dots> = of_nat (unat a + unat b - (unat f + unat g))" using h by simp
  finally have x: "?x = of_nat (unat a + unat b - (unat f + unat g))" .
  show "valid ?x"
    unfolding valid_def x using scalar_to_biguint_le [of "unat a + unat b - (unat f + unat g)"] h by linarith
qed

lemma out_rel_iff:
  assumes "map w (intent_vars iv) = intent_to_scalars i" "map w (obligation_vars ov) = obligation_to_scalars ob"
    "map w (balance_vars bv) = balance_to_scalars b"
  shows "out_rel w iv bv (scalar_of_u128 (relayer_fee f)) (scalar_of_u128 (protocol_fee f)) ov \<longleftrightarrow> receipt_accepted i b ob f"
  using assms by (auto simp: out_rel_def receipt_accepted_def holds_defs valid_sum valid_net AMOUNT_BITS_def)

lemma valid_ratesD:
  "valid_rates r \<Longrightarrow> scalar_to_biguint (repr (relayer_fee_rate r)) \<le> 2 ^ 63"
  "valid_rates r \<Longrightarrow> scalar_to_biguint (repr (protocol_fee_rate r)) \<le> 2 ^ 63"
  by (simp_all add: valid_rates_def DEFAULT_FP_PRECISION_def)

lemma party_values:
  assumes at: "map w (intent_vars iv) = intent_to_scalars i" "map w (obligation_vars ov) = obligation_to_scalars ob"
      "map w (balance_vars bv) = balance_to_scalars b" "map w (balance_vars bv') = balance_to_scalars b'"
      "map w (rates_vars rv) = rates_to_scalars r"
    and v: "valid_intent i" "valid_obligation ob" "valid_balance b" "valid_balance b'" "valid_rates r"
    and rel: "take_rel w rv (w (ov_amount_out ov)) t" "party_rel w iv bv bv' ov t"
  shows "w (tv_relayer_fee t) = scalar_of_u128 (relayer_fee (compute_fee_take r (ob_amount_out ob)))" (is ?r)
    and "w (tv_protocol_fee t) = scalar_of_u128 (protocol_fee (compute_fee_take r (ob_amount_out ob)))" (is ?p)
    and "party_accepted i b b' ob (compute_fee_take r (ob_amount_out ob))"
proof -
  have out: "out_rel w iv bv' (w (tv_relayer_fee t)) (w (tv_protocol_fee t)) ov" using rel(2) by (simp add: party_rel_def)
  have a: "validate_amount_bitlength (ob_amount_out ob)" using v(2) by (simp add: valid_obligation_def)
  have at': "w (ov_amount_out ov) = scalar_of_u128 (ob_amount_out ob)"
    "w (rv_relayer_fee_rate rv) = repr (relayer_fee_rate r)" "w (rv_protocol_fee_rate rv) = repr (protocol_fee_rate r)"
    "w (bv_relayer_fee_balance bv') = scalar_of_u128 (relayer_fee_balance b')"
    "w (bv_protocol_fee_balance bv') = scalar_of_u128 (protocol_fee_balance b')"
    "w (bv_amount bv) = scalar_of_u128 (bal_amount b)" "w (ov_amount_in ov) = scalar_of_u128 (ob_amount_in ob)"
    using at by (simp_all add: holds_defs)
  show r: ?r
    using rel(1) out v(4) unfolding take_rel_def at' out_rel_def compute_fee_take_def fee_take.simps valid_balance_def
    by (intro fee_value(2) [OF valid_ratesD(1) [OF v(5)] a, of "relayer_fee_balance b'"]) simp_all
  show p: ?p
    using rel(1) out v(4) unfolding take_rel_def at' out_rel_def compute_fee_take_def fee_take.simps valid_balance_def
    by (intro fee_value(2) [OF valid_ratesD(2) [OF v(5)] a, of "protocol_fee_balance b'"]) simp_all
  have "receipt_accepted i b' ob (compute_fee_take r (ob_amount_out ob))"
    using out unfolding r p by (simp add: out_rel_iff [OF at(1,2,4)])
  moreover have "obligation_accepted i ob"
    using rel(2) intent_rel_iff(1) [OF at(1,2) v(1,2)] by (simp add: party_rel_def)
  moreover have "ob_amount_in ob \<le> bal_amount b"
    using rel(2) v(2,3) unfolding party_rel_def at' valid_obligation_def valid_balance_def by (simp add: at_least_amounts)
  ultimately show "party_accepted i b b' ob (compute_fee_take r (ob_amount_out ob))" by (simp add: party_accepted_def)
qed

section \<open>Completeness of the settlement circuits\<close>

context circuit_contract
begin

lemma at_least_complete:
  assumes "val P c a = Some x" "val P c b = Some y" "at_least n x y"
  shows "completes P sat (constrain_greater_than_eq P a b n) c (\<lambda>_ _. True)"
proof -
  obtain m where m: "m < 2 ^ n" "x - y = of_nat m" using assms(3) by (auto simp: at_least_def)
  show ?thesis
    unfolding constrain_greater_than_eq_def
    by (rule completes_bind [OF sub_complete [OF assms(1,2)]], rule ge_zero_complete, assumption,
        unfold m(2), rule le_less_trans [OF scalar_to_biguint_le m(1)])
qed

lemma valid_complete: "val P c a = Some x \<Longrightarrow> valid x \<Longrightarrow> completes P sat (constrain_valid_amount P a) c (\<lambda>_ _. True)"
  unfolding valid_def by (rule valid_amount_complete)

lemma floor_fn_complete:
  "val P c v = Some x \<Longrightarrow> completes P sat (floor_gadget P v) c (\<lambda>i c'. val P c' i = Some (floor_fn x))"
  unfolding floor_fn_def by (rule floor_gadget_complete)

lemma fee_take_complete:
  assumes "vals P c [a, rv_relayer_fee_rate r, rv_protocol_fee_rate r] [x, y, z]"
  shows "completes P sat (fee_take_gadget P a r) c (\<lambda>t c'.
     val P c' (tv_relayer_fee t) = Some (floor_fn (y * x)) \<and> val P c' (tv_protocol_fee t) = Some (floor_fn (z * x)))"
  unfolding fee_take_gadget_def
  by (rule completes_bind_vals [OF assms mul_integer_complete [of _ _ y _ x]], use assms in simp, use assms in simp,
      rule completes_bind_vals [OF _ mul_integer_complete [of _ _ z _ x]], assumption, simp, simp,
      rule completes_bind_vals [OF _ floor_fn_complete [of _ _ "y * x"]], assumption, simp,
      rule completes_bind_vals [OF _ floor_fn_complete [of _ _ "z * x"]], assumption, simp, rule completes_ret) simp

lemma intent_constraints_complete:
  assumes vs: "vals P c [iv_in_token i, iv_out_token i, iv_min_price i, iv_amount_in i, ov_input_token ob, ov_output_token ob,
      ov_amount_in ob, ov_amount_out ob] [it, ot, p, a, it, ot, ai, ao]"
    and "at_least 100 a ai" "at_least 100 ao (floor_fn (p * ai))"
  shows "completes P sat (verify_intent_constraints P i ob) c (\<lambda>_ _. True)"
  unfolding verify_intent_constraints_def AMOUNT_BITS_def
  by (rule completes_seq_vals [OF vs constrain_eq_complete [of _ _ "[it]"]], use vs in simp, use vs in simp,
      rule completes_seq_vals [OF _ constrain_eq_complete [of _ _ "[ot]"]], assumption, simp, simp,
      rule completes_seq_vals [OF _ at_least_complete [OF _ _ assms(2)]], assumption, simp, simp,
      rule completes_bind_vals [OF _ mul_integer_complete [of _ _ p _ ai]], assumption, simp, simp,
      rule completes_bind_vals [OF _ floor_fn_complete [of _ _ "p * ai"]], assumption, simp,
      rule at_least_complete [OF _ _ assms(3)]) simp_all

lemma out_balance_constraints_complete:
  assumes vs: "vals P c [iv_owner i, bv_mint b, bv_owner b, bv_amount b, bv_relayer_fee_balance b, bv_protocol_fee_balance b,
      ov_output_token ob, ov_amount_out ob, tv_relayer_fee t, tv_protocol_fee t] [ow, ot, ow, ba, rb, pb, ot, ao, rf, pf]"
    and v: "valid (ba + (ao - (rf + pf)))" "valid (rb + rf)" "valid (pb + pf)"
  shows "completes P sat (verify_out_balance_constraints P i b t ob) c (\<lambda>_ _. True)"
  unfolding verify_out_balance_constraints_def total_fee_def
  by (rule completes_seq_vals [OF vs constrain_eq_complete [of _ _ "[ot]"]], use vs in simp, use vs in simp,
      rule completes_seq_vals [OF _ constrain_eq_complete [of _ _ "[ow]"]], assumption, simp, simp,
      rule completes_bind_vals [OF _ add_complete [of _ _ rf _ pf]], assumption, simp, simp,
      rule completes_bind_vals [OF _ sub_complete [of _ _ ao _ "rf + pf"]], assumption, simp, simp,
      rule completes_bind_vals [OF _ add_complete [of _ _ ba _ "ao - (rf + pf)"]], assumption, simp, simp,
      rule completes_seq_vals [OF _ valid_complete [OF _ v(1)]], assumption, simp,
      rule completes_bind_vals [OF _ add_complete [of _ _ rb _ rf]], assumption, simp, simp,
      rule completes_bind_vals [OF _ add_complete [of _ _ pb _ pf]], assumption, simp, simp,
      rule completes_seq_vals [OF _ valid_complete [OF _ v(2)]], assumption, simp,
      rule valid_complete [OF _ v(3)]) simp

lemma in_balance_constraints_complete:
  "val P c (bv_amount b) = Some x \<Longrightarrow> val P c (ov_amount_in ob) = Some y \<Longrightarrow> at_least 100 x y \<Longrightarrow>
     completes P sat (verify_in_balance_constraints P b ob) c (\<lambda>_ _. True)"
  unfolding verify_in_balance_constraints_def AMOUNT_BITS_def by (rule at_least_complete)

lemma party_complete:
  assumes at: "vals P c (intent_vars iv) (intent_to_scalars i)" "vals P c (obligation_vars ov) (obligation_to_scalars ob)"
      "vals P c (balance_vars bv) (balance_to_scalars b)" "vals P c (balance_vars bv') (balance_to_scalars b')"
      "val P c (tv_relayer_fee t) = Some (scalar_of_u128 (relayer_fee f))"
      "val P c (tv_protocol_fee t) = Some (scalar_of_u128 (protocol_fee f))"
    and v: "valid_intent i" "valid_obligation ob" "valid_balance b" "valid_balance b'"
    and acc: "party_accepted i b b' ob f"
  shows "completes P sat (verify_intent_and_balance_obligation_constraints P iv bv bv' ov t) c (\<lambda>_ _. True)"
proof -
  have ob: "obligation_accepted i ob" and rc: "receipt_accepted i b' ob f" and le: "ob_amount_in ob \<le> bal_amount b"
    using acc by (simp_all add: party_accepted_def)
  define w :: assignment where "w v = the (val P c v)" for v
  have w: "map w (intent_vars iv) = intent_to_scalars i" "map w (obligation_vars ov) = obligation_to_scalars ob"
      "map w (balance_vars bv') = balance_to_scalars b'"
    using at by (simp_all add: w_def holds_defs)
  have tok: "input_token ob = in_token i" "output_token ob = out_token i" "mint b' = output_token ob" "bal_owner b' = owner i"
    using ob rc by (simp_all add: obligation_accepted_def receipt_accepted_def)
  have amt: "at_least 100 (scalar_of_u128 (amount_in i)) (scalar_of_u128 (ob_amount_in ob))"
      "at_least 100 (scalar_of_u128 (bal_amount b)) (scalar_of_u128 (ob_amount_in ob))"
    using ob le v by (simp_all add: at_least_amounts obligation_accepted_def valid_intent_def valid_obligation_def valid_balance_def)
  have price: "at_least 100 (scalar_of_u128 (ob_amount_out ob)) (floor_fn (repr (min_price i) * scalar_of_u128 (ob_amount_in ob)))"
    using intent_rel_iff(2) [OF w(1,2) v(1,2) ob] w by (simp add: holds_defs)
  note out = rc [folded out_rel_iff [OF w]]
  let ?rf = "scalar_of_u128 (relayer_fee f)" and ?pf = "scalar_of_u128 (protocol_fee f)"
  have valid: "valid (scalar_of_u128 (bal_amount b') + (scalar_of_u128 (ob_amount_out ob) - (?rf + ?pf)))"
      "valid (scalar_of_u128 (relayer_fee_balance b') + ?rf)" "valid (scalar_of_u128 (protocol_fee_balance b') + ?pf)"
    using out w by (simp_all add: out_rel_def holds_defs)
  let ?I = "intent_vars iv @ obligation_vars ov @ balance_vars bv @ balance_vars bv' @ [tv_relayer_fee t, tv_protocol_fee t]"
  have all: "vals P c ?I (intent_to_scalars i @ obligation_to_scalars ob @ balance_to_scalars b @ balance_to_scalars b' @ [?rf, ?pf])"
    using at by (simp add: holds_defs)
  show ?thesis
    unfolding verify_intent_and_balance_obligation_constraints_def
    by (rule completes_seq_vals [OF all intent_constraints_complete [OF _ amt(1) price]], use at tok in \<open>simp add: holds_defs\<close>,
        rule completes_seq_vals [OF _ in_balance_constraints_complete [OF _ _ amt(2)]], assumption,
        simp add: holds_defs, simp add: holds_defs,
        rule out_balance_constraints_complete [OF _ valid]) (use tok in \<open>simp add: holds_defs\<close>)
qed

lemma state_updates_complete:
  assumes vs: "vals P c ([s, s'] @ post_match_vars b @ post_match_vars b' @ post_match_vars d @ post_match_vars d' @
      [ov_amount_in ob, ov_amount_out ob, tv_relayer_fee t, tv_protocol_fee t])
      ([x, x - ai] @ [r, p, a] @ [r, p, a - ai] @ [r', p', a'] @ [r' + rf, p' + pf, a' + (ao - (rf + pf))] @ [ai, ao, rf, pf])"
  shows "completes P sat (verify_state_updates P t s s' b b' d d' ob) c (\<lambda>_ _. True)"
proof -
  note vs' = vs [unfolded post_match_vars_def append_Cons append_Nil]
  show ?thesis
    unfolding verify_state_updates_def verify_output_balance_share_updates_def total_fee_def
    by (rule completes_bind_vals [OF vs' sub_complete [of _ _ x _ ai]], use vs' in simp, use vs' in simp,
        rule completes_seq_vals [OF _ constrain_eq_complete [of _ _ "[x - ai]"]], assumption, simp, simp,
        rule completes_bind_vals [OF _ sub_complete [of _ _ a _ ai]], assumption, simp, simp,
        rule completes_seq_vals [OF _ constrain_eq_complete [of _ _ "[r, p, a - ai]"]], assumption,
        simp add: post_match_vars_def, simp add: post_match_vars_def,
        rule completes_bind_vals [OF _ add_complete [of _ _ rf _ pf]], assumption, simp, simp,
        rule completes_bind_vals [OF _ sub_complete [of _ _ ao _ "rf + pf"]], assumption, simp, simp,
        rule completes_bind_vals [OF _ add_complete [of _ _ a' _ "ao - (rf + pf)"]], assumption, simp, simp,
        rule completes_bind_vals [OF _ add_complete [of _ _ r' _ rf]], assumption, simp, simp,
        rule completes_bind_vals [OF _ add_complete [of _ _ p' _ pf]], assumption, simp, simp,
        rule constrain_eq_complete [of _ _ "[r' + rf, p' + pf, a' + (ao - (rf + pf))]"]) (simp_all add: post_match_vars_def)
qed

end

end
