(* ===== verification/Circuit_Acceptance.thy ===== *)
theory Circuit_Acceptance
  imports Circuit_Settlement
begin

text \<open>
  What a proof of a settlement circuit establishes. The values of the statement and of the witness
  are those of the native types; a circuit is exact when the assignments that satisfy its gates
  are those of the settlements that meet the native conditions, and the prover of such a
  settlement always finds one.
\<close>

section \<open>Statements and witnesses\<close>

text \<open>The scalars of a derived type are those of its fields, in the order of the fields.\<close>

record public_witness =
  intent_val :: intent
  pre_settlement_amount_public_share :: scalar
  in_balance :: darkpool_balance
  pre_settlement_in_balance_shares :: post_match_balance_share
  out_balance :: darkpool_balance
  pre_settlement_out_balance_shares :: post_match_balance_share

definition public_witness_to_scalars :: "public_witness \<Rightarrow> scalar list" where
  "public_witness_to_scalars x =
     intent_to_scalars (intent_val x) @ [pre_settlement_amount_public_share x] @
     balance_to_scalars (in_balance x) @ post_match_share_to_scalars (pre_settlement_in_balance_shares x) @
     balance_to_scalars (out_balance x) @ post_match_share_to_scalars (pre_settlement_out_balance_shares x)"

definition public_witness_vars :: "public_settlement_witness \<Rightarrow> variable list" where
  "public_witness_vars x =
     intent_vars (pw_intent x) @ [pw_amount_public_share x] @
     balance_vars (pw_in_balance x) @ post_match_vars (pw_in_balance_shares x) @
     balance_vars (pw_out_balance x) @ post_match_vars (pw_out_balance_shares x)"

record public_statement =
  settlement_obligation_val :: settlement_obligation
  amount_public_share :: scalar
  in_balance_public_shares :: post_match_balance_share
  out_balance_public_shares :: post_match_balance_share
  fee_rates_val :: fee_rates
  recipient_val :: address

definition public_statement_to_scalars :: "public_statement \<Rightarrow> scalar list" where
  "public_statement_to_scalars x =
     obligation_to_scalars (settlement_obligation_val x) @ [amount_public_share x] @
     post_match_share_to_scalars (in_balance_public_shares x) @
     post_match_share_to_scalars (out_balance_public_shares x) @
     rates_to_scalars (fee_rates_val x) @ [address_to_scalar (recipient_val x)]"

definition public_statement_vars :: "public_settlement_statement \<Rightarrow> variable list" where
  "public_statement_vars x =
     obligation_vars (ps_obligation x) @ [ps_amount_public_share x] @
     post_match_vars (ps_in_balance_public_shares x) @ post_match_vars (ps_out_balance_public_shares x) @
     rates_vars (ps_fee_rates x) @ [ps_relayer_fee_recipient x]"

record bounded_statement =
  bounded_match_result_val :: bounded_match_result
  bst_amount_public_share :: scalar
  bst_in_balance_public_shares :: post_match_balance_share
  bst_out_balance_public_shares :: post_match_balance_share
  internal_relayer_fee :: fixed_point
  external_relayer_fee :: fixed_point
  bst_relayer_fee_recipient :: address

definition bounded_match_to_scalars :: "bounded_match_result \<Rightarrow> scalar list" where
  "bounded_match_to_scalars m =
     [address_to_scalar (internal_party_input_token m), address_to_scalar (internal_party_output_token m),
      scalar_of_u128 (min_internal_party_amount_in m), scalar_of_u128 (max_internal_party_amount_in m),
      repr (bounded_price m), scalar_of_u64 (block_deadline m)]"

definition bounded_match_vars :: "bounded_match_var \<Rightarrow> variable list" where
  "bounded_match_vars m =
     [mv_input_token m, mv_output_token m, mv_min_amount_in m, mv_max_amount_in m, mv_price m, mv_block_deadline m]"

definition bounded_statement_to_scalars :: "bounded_statement \<Rightarrow> scalar list" where
  "bounded_statement_to_scalars x =
     bounded_match_to_scalars (bounded_match_result_val x) @ [bst_amount_public_share x] @
     post_match_share_to_scalars (bst_in_balance_public_shares x) @
     post_match_share_to_scalars (bst_out_balance_public_shares x) @
     [repr (internal_relayer_fee x), repr (external_relayer_fee x), address_to_scalar (bst_relayer_fee_recipient x)]"

definition bounded_statement_vars :: "bounded_settlement_statement \<Rightarrow> variable list" where
  "bounded_statement_vars x =
     bounded_match_vars (bs_result x) @ [bs_amount_public_share x] @
     post_match_vars (bs_in_balance_public_shares x) @ post_match_vars (bs_out_balance_public_shares x) @
     [bs_internal_relayer_fee x, bs_external_relayer_fee x, bs_relayer_fee_recipient x]"

section \<open>Acceptance\<close>

text \<open>The statement of a public settlement repeats the shares and the fee recipient of the witness.\<close>

definition public_accepted :: "public_statement \<Rightarrow> public_witness \<Rightarrow> bool" where
  "public_accepted st wit \<longleftrightarrow>
     (let ob = settlement_obligation_val st in
      party_accepted (intent_val wit) (in_balance wit) (out_balance wit) ob
        (compute_fee_take (fee_rates_val st) (ob_amount_out ob)) \<and>
      amount_public_share st = pre_settlement_amount_public_share wit \<and>
      in_balance_public_shares st = pre_settlement_in_balance_shares wit \<and>
      out_balance_public_shares st = pre_settlement_out_balance_shares wit \<and>
      recipient_val st = relayer_fee_recipient (out_balance wit))"

definition valid_public :: "public_statement \<Rightarrow> public_witness \<Rightarrow> bool" where
  "valid_public st wit \<longleftrightarrow>
     valid_intent (intent_val wit) \<and> valid_balance (in_balance wit) \<and> valid_balance (out_balance wit) \<and>
     valid_obligation (settlement_obligation_val st) \<and> valid_rates (fee_rates_val st)"

lemma map_append_eq: "length xs = length (ys :: scalar list) \<Longrightarrow> map w (xs @ us) = ys @ vs \<longleftrightarrow> map w xs = ys \<and> map w us = vs"
  by simp

lemma post_match_share_inj: "post_match_share_to_scalars x = post_match_share_to_scalars y \<longleftrightarrow> x = y"
  by (auto simp: post_match_share_to_scalars_def)

lemma lengths:
  "length (intent_vars iv) = length (intent_to_scalars i)" "length (balance_vars bv) = length (balance_to_scalars b)"
  "length (post_match_vars pv) = length (post_match_share_to_scalars p)"
  "length (obligation_vars ov) = length (obligation_to_scalars ob)" "length (rates_vars rv) = length (rates_to_scalars r)"
  "length (bounded_match_vars mv) = length (bounded_match_to_scalars m)"
  by (simp_all add: holds_defs post_match_vars_def post_match_share_to_scalars_def bounded_match_vars_def bounded_match_to_scalars_def)

lemma public_held:
  "map w (public_witness_vars wv) = public_witness_to_scalars wit \<longleftrightarrow>
     map w (intent_vars (pw_intent wv)) = intent_to_scalars (intent_val wit) \<and>
     w (pw_amount_public_share wv) = pre_settlement_amount_public_share wit \<and>
     map w (balance_vars (pw_in_balance wv)) = balance_to_scalars (in_balance wit) \<and>
     map w (post_match_vars (pw_in_balance_shares wv)) = post_match_share_to_scalars (pre_settlement_in_balance_shares wit) \<and>
     map w (balance_vars (pw_out_balance wv)) = balance_to_scalars (out_balance wit) \<and>
     map w (post_match_vars (pw_out_balance_shares wv)) = post_match_share_to_scalars (pre_settlement_out_balance_shares wit)"
  unfolding public_witness_vars_def public_witness_to_scalars_def by (simp add: map_append_eq lengths del: map_append)

lemma public_statement_held:
  "map w (public_statement_vars sv) = public_statement_to_scalars st \<longleftrightarrow>
     map w (obligation_vars (ps_obligation sv)) = obligation_to_scalars (settlement_obligation_val st) \<and>
     w (ps_amount_public_share sv) = amount_public_share st \<and>
     map w (post_match_vars (ps_in_balance_public_shares sv)) = post_match_share_to_scalars (in_balance_public_shares st) \<and>
     map w (post_match_vars (ps_out_balance_public_shares sv)) = post_match_share_to_scalars (out_balance_public_shares st) \<and>
     map w (rates_vars (ps_fee_rates sv)) = rates_to_scalars (fee_rates_val st) \<and>
     w (ps_relayer_fee_recipient sv) = address_to_scalar (recipient_val st)"
  unfolding public_statement_vars_def public_statement_to_scalars_def by (simp add: map_append_eq lengths del: map_append)

lemma leak_iff:
  assumes "map w (public_witness_vars wv) = public_witness_to_scalars wit"
    and "w s = x" "map w (post_match_vars b) = post_match_share_to_scalars y"
      "map w (post_match_vars d) = post_match_share_to_scalars z" "w r = address_to_scalar a"
  shows "leak_rel w wv s b d r \<longleftrightarrow>
    x = pre_settlement_amount_public_share wit \<and> y = pre_settlement_in_balance_shares wit \<and>
    z = pre_settlement_out_balance_shares wit \<and> a = relayer_fee_recipient (out_balance wit)"
proof -
  have "w (bv_relayer_fee_recipient (pw_out_balance wv)) = address_to_scalar (relayer_fee_recipient (out_balance wit))"
    using assms(1) by (simp add: public_held holds_defs)
  then show ?thesis
    using assms unfolding leak_rel_def public_held by (simp add: post_match_share_inj)
qed

lemma public_vals:
  "vals P c (public_witness_vars wv) (public_witness_to_scalars wit) \<longleftrightarrow>
     vals P c (intent_vars (pw_intent wv)) (intent_to_scalars (intent_val wit)) \<and>
     val P c (pw_amount_public_share wv) = Some (pre_settlement_amount_public_share wit) \<and>
     vals P c (balance_vars (pw_in_balance wv)) (balance_to_scalars (in_balance wit)) \<and>
     vals P c (post_match_vars (pw_in_balance_shares wv)) (post_match_share_to_scalars (pre_settlement_in_balance_shares wit)) \<and>
     vals P c (balance_vars (pw_out_balance wv)) (balance_to_scalars (out_balance wit)) \<and>
     vals P c (post_match_vars (pw_out_balance_shares wv)) (post_match_share_to_scalars (pre_settlement_out_balance_shares wit))"
  unfolding public_witness_vars_def public_witness_to_scalars_def by (simp add: vals_append lengths)

lemma public_statement_vals:
  "vals P c (public_statement_vars sv) (public_statement_to_scalars st) \<longleftrightarrow>
     vals P c (obligation_vars (ps_obligation sv)) (obligation_to_scalars (settlement_obligation_val st)) \<and>
     val P c (ps_amount_public_share sv) = Some (amount_public_share st) \<and>
     vals P c (post_match_vars (ps_in_balance_public_shares sv)) (post_match_share_to_scalars (in_balance_public_shares st)) \<and>
     vals P c (post_match_vars (ps_out_balance_public_shares sv)) (post_match_share_to_scalars (out_balance_public_shares st)) \<and>
     vals P c (rates_vars (ps_fee_rates sv)) (rates_to_scalars (fee_rates_val st)) \<and>
     val P c (ps_relayer_fee_recipient sv) = Some (address_to_scalar (recipient_val st))"
  unfolding public_statement_vars_def public_statement_to_scalars_def by (simp add: vals_append lengths)

lemma recipient_val:
  "vals P c (balance_vars bv) (balance_to_scalars b) \<Longrightarrow>
     val P c (bv_relayer_fee_recipient bv) = Some (address_to_scalar (relayer_fee_recipient b))"
  by (simp add: holds_defs)

context circuit_contract
begin

lemma fees_complete:
  assumes at: "vals P c (rates_vars rv) (rates_to_scalars r)" "val P c a = Some (scalar_of_u128 x)"
    and v: "valid_rates r" "validate_amount_bitlength x"
  shows "completes P sat (fee_take_gadget P a rv) c (\<lambda>t c'.
     val P c' (tv_relayer_fee t) = Some (scalar_of_u128 (relayer_fee (compute_fee_take r x))) \<and>
     val P c' (tv_protocol_fee t) = Some (scalar_of_u128 (protocol_fee (compute_fee_take r x))))"
proof -
  have "vals P c [a, rv_relayer_fee_rate rv, rv_protocol_fee_rate rv]
      [scalar_of_u128 x, repr (relayer_fee_rate r), repr (protocol_fee_rate r)]"
    using at by (simp add: rates_vars_def rates_to_scalars_def)
  from fee_take_complete [OF this] show ?thesis
    using fee_value(1) [OF valid_ratesD(1) [OF v(1)] v(2)] fee_value(1) [OF valid_ratesD(2) [OF v(1)] v(2)]
    by (simp add: compute_fee_take_def)
qed

lemma leak_complete:
  assumes vs: "vals P c ([s, s'] @ post_match_vars b @ post_match_vars b' @ post_match_vars d @ post_match_vars d' @ [r, r'])
      ([x, x] @ post_match_share_to_scalars y @ post_match_share_to_scalars y @ post_match_share_to_scalars z @
       post_match_share_to_scalars z @ [u, u])"
  shows "completes P sat
     (seqb (constrain_eq P [s] [s'])
     (seqb (constrain_eq P (post_match_vars b) (post_match_vars b'))
     (seqb (constrain_eq P (post_match_vars d) (post_match_vars d')) (constrain_eq P [r] [r'])))) c (\<lambda>_ _. True)"
proof -
  let ?vs = "[s, s'] @ post_match_vars b @ post_match_vars b' @ post_match_vars d @ post_match_vars d' @ [r, r']"
  let ?xs = "[x, x] @ post_match_share_to_scalars y @ post_match_share_to_scalars y @ post_match_share_to_scalars z @
    post_match_share_to_scalars z @ [u, u]"
  have split: "vals P e ?vs ?xs \<longleftrightarrow> vals P e [s] [x] \<and> vals P e [s'] [x] \<and>
      vals P e (post_match_vars b) (post_match_share_to_scalars y) \<and> vals P e (post_match_vars b') (post_match_share_to_scalars y) \<and>
      vals P e (post_match_vars d) (post_match_share_to_scalars z) \<and> vals P e (post_match_vars d') (post_match_share_to_scalars z) \<and>
      vals P e [r] [u] \<and> vals P e [r'] [u]" for e
    by (simp add: vals_append lengths)
  show ?thesis
    by (rule completes_seq_vals [OF vs constrain_eq_complete [of _ _ "[x]"]], (use vs split in blast)+,
        rule completes_seq_vals [OF _ constrain_eq_complete [of _ _ "post_match_share_to_scalars y"]], assumption,
        use split in blast, use split in blast,
        rule completes_seq_vals [OF _ constrain_eq_complete [of _ _ "post_match_share_to_scalars z"]], assumption,
        use split in blast, use split in blast, rule constrain_eq_complete [of _ _ "[u]"]) (use split in blast)+
qed

lemma public_complete:
  assumes at: "vals P c (public_witness_vars wv) (public_witness_to_scalars wit)"
      "vals P c (public_statement_vars sv) (public_statement_to_scalars st)"
    and v: "valid_public st wit" and acc: "public_accepted st wit"
  shows "completes P sat (intent_and_balance_public_settlement P sv wv) c (\<lambda>_ _. True)"
  unfolding intent_and_balance_public_settlement_def
proof (rule completes_bind [OF fees_complete])
  let ?ob = "settlement_obligation_val st"
  show "vals P c (rates_vars (ps_fee_rates sv)) (rates_to_scalars (fee_rates_val st))" "valid_rates (fee_rates_val st)"
    "val P c (ov_amount_out (ps_obligation sv)) = Some (scalar_of_u128 (ob_amount_out ?ob))"
    "validate_amount_bitlength (ob_amount_out ?ob)"
    using at(2) v by (simp_all add: public_statement_vals valid_public_def valid_obligation_def holds_defs)
  fix t :: fee_take_var and c1
  let ?f = "compute_fee_take (fee_rates_val st) (ob_amount_out ?ob)"
  assume ext: "extends P c c1" and t: "val P c1 (tv_relayer_fee t) = Some (scalar_of_u128 (relayer_fee ?f)) \<and>
    val P c1 (tv_protocol_fee t) = Some (scalar_of_u128 (protocol_fee ?f))"
  define T where "T d \<longleftrightarrow> vals P d (public_witness_vars wv) (public_witness_to_scalars wit) \<and>
    vals P d (public_statement_vars sv) (public_statement_to_scalars st)" for d
  have mono: "T d \<Longrightarrow> T e" if "extends P d e" for d e using vals_mono [OF that] by (auto simp: T_def)
  have T1: "T c1" using mono [OF ext] at by (simp add: T_def)
  have party: "completes P sat (verify_intent_and_balance_obligation_constraints P (pw_intent wv) (pw_in_balance wv)
      (pw_out_balance wv) (ps_obligation sv) t) c1 (\<lambda>_ _. True)"
    by (rule party_complete [where f = ?f and ob = ?ob and i = "intent_val wit" and b = "in_balance wit" and b' = "out_balance wit"])
      (use T1 t v acc in \<open>simp_all add: T_def public_vals public_statement_vals valid_public_def public_accepted_def Let_def\<close>)
  show "completes P sat
      (seqb (verify_intent_and_balance_obligation_constraints P (pw_intent wv) (pw_in_balance wv) (pw_out_balance wv)
         (ps_obligation sv) t)
      (seqb (constrain_eq P [pw_amount_public_share wv] [ps_amount_public_share sv])
      (seqb (constrain_eq P (post_match_vars (pw_in_balance_shares wv)) (post_match_vars (ps_in_balance_public_shares sv)))
      (seqb (constrain_eq P (post_match_vars (pw_out_balance_shares wv)) (post_match_vars (ps_out_balance_public_shares sv)))
      (constrain_eq P [bv_relayer_fee_recipient (pw_out_balance wv)] [ps_relayer_fee_recipient sv]))))) c1 (\<lambda>_ _. True)"
  proof (rule completes_seq_mono [where T = T, OF party T1], erule mono, assumption, rule leak_complete)
    fix d
    assume d: "T d"
    then have "val P d (bv_relayer_fee_recipient (pw_out_balance wv)) = Some (address_to_scalar (recipient_val st))"
      using acc by (simp add: T_def public_vals recipient_val public_accepted_def Let_def)
    then show "vals P d
      ([pw_amount_public_share wv, ps_amount_public_share sv] @ post_match_vars (pw_in_balance_shares wv) @
       post_match_vars (ps_in_balance_public_shares sv) @ post_match_vars (pw_out_balance_shares wv) @
       post_match_vars (ps_out_balance_public_shares sv) @
       [bv_relayer_fee_recipient (pw_out_balance wv), ps_relayer_fee_recipient sv])
      ([amount_public_share st, amount_public_share st] @ post_match_share_to_scalars (in_balance_public_shares st) @
       post_match_share_to_scalars (in_balance_public_shares st) @ post_match_share_to_scalars (out_balance_public_shares st) @
       post_match_share_to_scalars (out_balance_public_shares st) @
       [address_to_scalar (recipient_val st), address_to_scalar (recipient_val st)])"
      using d acc by (simp add: vals_append lengths T_def public_vals public_statement_vals public_accepted_def Let_def)
  qed
qed

lemma public_sound:
  assumes run: "intent_and_balance_public_settlement P sv wv c = Some (Inr (u, c'))" "sat c' w"
    and at: "map w (public_witness_vars wv) = public_witness_to_scalars wit"
      "map w (public_statement_vars sv) = public_statement_to_scalars st" and v: "valid_public st wit"
  shows "public_accepted st wit"
proof -
  obtain t where t: "take_rel w (ps_fee_rates sv) (w (ov_amount_out (ps_obligation sv))) t"
      "party_rel w (pw_intent wv) (pw_in_balance wv) (pw_out_balance wv) (ps_obligation sv) t"
    and leak: "leak_rel w wv (ps_amount_public_share sv) (ps_in_balance_public_shares sv) (ps_out_balance_public_shares sv)
      (ps_relayer_fee_recipient sv)"
    using soundD [OF public_settlement_sound run] by blast
  have "party_accepted (intent_val wit) (in_balance wit) (out_balance wit) (settlement_obligation_val st)
      (compute_fee_take (fee_rates_val st) (ob_amount_out (settlement_obligation_val st)))"
    by (rule party_values(3) [OF _ _ _ _ _ _ _ _ _ _ t])
      (use at v in \<open>simp_all add: public_held public_statement_held valid_public_def\<close>)
  moreover have "amount_public_share st = pre_settlement_amount_public_share wit \<and>
      in_balance_public_shares st = pre_settlement_in_balance_shares wit \<and>
      out_balance_public_shares st = pre_settlement_out_balance_shares wit \<and> recipient_val st = relayer_fee_recipient (out_balance wit)"
    using leak at(2) by (subst (asm) leak_iff [OF at(1)]) (auto simp: public_statement_held)
  ultimately show ?thesis by (simp add: public_accepted_def Let_def)
qed

end

section \<open>Private settlements\<close>

text \<open>
  A private settlement publishes only new shares. The state elements of a party are its intent
  and its input and output balance, each with its public shares.
\<close>

definition party_vars :: "party_witness \<Rightarrow> variable list" where
  "party_vars y =
     intent_vars (yw_intent y) @ [yw_amount_public_share y] @
     balance_vars (yw_input_balance y) @ post_match_vars (yw_in_balance_shares y) @
     balance_vars (yw_output_balance y) @ post_match_vars (yw_out_balance_shares y)"

definition party_to_scalars :: "state_intent \<Rightarrow> state_balance \<Rightarrow> state_balance \<Rightarrow> scalar list" where
  "party_to_scalars wi wb wo =
     intent_to_scalars (inner wi) @ [amount_in_share (public_share wi)] @
     balance_to_scalars (inner wb) @ post_match_share_to_scalars (post_match_share wb) @
     balance_to_scalars (inner wo) @ post_match_share_to_scalars (post_match_share wo)"

lemma party_held:
  "map w (party_vars y) = party_to_scalars wi wb wo \<longleftrightarrow>
     map w (intent_vars (yw_intent y)) = intent_to_scalars (inner wi) \<and>
     w (yw_amount_public_share y) = amount_in_share (public_share wi) \<and>
     map w (balance_vars (yw_input_balance y)) = balance_to_scalars (inner wb) \<and>
     map w (post_match_vars (yw_in_balance_shares y)) = post_match_share_to_scalars (post_match_share wb) \<and>
     map w (balance_vars (yw_output_balance y)) = balance_to_scalars (inner wo) \<and>
     map w (post_match_vars (yw_out_balance_shares y)) = post_match_share_to_scalars (post_match_share wo)"
  unfolding party_vars_def party_to_scalars_def by (simp add: map_append_eq lengths del: map_append)

lemma party_vals:
  "vals P c (party_vars y) (party_to_scalars wi wb wo) \<longleftrightarrow>
     vals P c (intent_vars (yw_intent y)) (intent_to_scalars (inner wi)) \<and>
     val P c (yw_amount_public_share y) = Some (amount_in_share (public_share wi)) \<and>
     vals P c (balance_vars (yw_input_balance y)) (balance_to_scalars (inner wb)) \<and>
     vals P c (post_match_vars (yw_in_balance_shares y)) (post_match_share_to_scalars (post_match_share wb)) \<and>
     vals P c (balance_vars (yw_output_balance y)) (balance_to_scalars (inner wo)) \<and>
     vals P c (post_match_vars (yw_out_balance_shares y)) (post_match_share_to_scalars (post_match_share wo))"
  unfolding party_vars_def party_to_scalars_def by (simp add: vals_append lengths)

definition valid_party :: "state_intent \<Rightarrow> state_balance \<Rightarrow> state_balance \<Rightarrow> bool" where
  "valid_party wi wb wo \<longleftrightarrow> valid_intent (inner wi) \<and> valid_balance (inner wb) \<and> valid_balance (inner wo)"

definition party_statement_vars :: "party_statement \<Rightarrow> variable list" where
  "party_statement_vars s =
     [ys_new_amount_public_share s] @ post_match_vars (ys_new_in_balance_public_shares s) @
     post_match_vars (ys_new_out_balance_public_shares s)"

text \<open>The public shares of the elements of a party after it settled an obligation natively.\<close>

definition settled_shares ::
    "settlement_obligation \<Rightarrow> fee_take \<Rightarrow> state_intent \<Rightarrow> state_balance \<Rightarrow> state_balance \<Rightarrow> scalar list" where
  "settled_shares ob f wi wb wo =
     [amount_in_share (public_share (intent_apply_settlement_obligation ob wi))] @
     post_match_share_to_scalars (post_match_share (apply_obligation_in_balance ob wb)) @
     post_match_share_to_scalars (post_match_share (apply_obligation_out_balance ob f wo))"

definition mirrored :: "settlement_obligation \<Rightarrow> settlement_obligation" where
  "mirrored ob =
     \<lparr>input_token = output_token ob, output_token = input_token ob, ob_amount_in = ob_amount_out ob,
      ob_amount_out = ob_amount_in ob\<rparr>"

lemma settled_shares_values:
  assumes "unat (relayer_fee f) + unat (protocol_fee f) \<le> unat (ob_amount_out ob)"
  shows "settled_shares ob f wi wb wo =
    (let ai = scalar_of_u128 (ob_amount_in ob); rf = scalar_of_u128 (relayer_fee f); pf = scalar_of_u128 (protocol_fee f);
         b = post_match_share wb; d = post_match_share wo in
     [amount_in_share (public_share wi) - ai, pm_relayer_fee_balance_share b, pm_protocol_fee_balance_share b,
      pm_amount_share b - ai, pm_relayer_fee_balance_share d + rf, pm_protocol_fee_balance_share d + pf,
      pm_amount_share d + (scalar_of_u128 (ob_amount_out ob) - (rf + pf))])"
proof -
  have tot: "unat (fee_total f) = unat (relayer_fee f) + unat (protocol_fee f)"
    using assms unat_less_u128 [of "ob_amount_out ob"] by (simp add: fee_total_def unat_plus_no_wrap)
  then have "fee_total f \<le> ob_amount_out ob" using assms by (simp add: word_le_nat_alt)
  then have "scalar_of_u128 (ob_amount_out ob - fee_total f) = scalar_of_u128 (ob_amount_out ob) - scalar_of_u128 (fee_total f)"
    by (rule scalar_of_u128_diff)
  moreover have "scalar_of_u128 (fee_total f) = scalar_of_u128 (relayer_fee f) + scalar_of_u128 (protocol_fee f)"
    by (simp add: of_nat_unat tot)
  ultimately show ?thesis
    by (simp add: settled_shares_def intent_apply_settlement_obligation_def apply_obligation_in_balance_def
        apply_obligation_out_balance_def add_fees_def apply_obligation_out_balance_no_fees_def post_match_share_def
        post_match_share_of_balance_share_def post_match_share_to_scalars_def Let_def)
qed

lemma valid_u128: "valid x \<Longrightarrow> scalar_of_u128 (scalar_to_u128 x) = x" "valid x \<Longrightarrow> validate_amount_bitlength (scalar_to_u128 x)"
  by (auto simp: valid_def validate_amount_iff unat_scalar_to_u128 intro!: scalar_u128_value)

text \<open>The obligation that the variables of a party hold, when its tokens are those of the intent.\<close>

definition obligation_of :: "assignment \<Rightarrow> obligation_var \<Rightarrow> intent \<Rightarrow> settlement_obligation" where
  "obligation_of w ov i =
     \<lparr>input_token = in_token i, output_token = out_token i, ob_amount_in = scalar_to_u128 (w (ov_amount_in ov)),
      ob_amount_out = scalar_to_u128 (w (ov_amount_out ov))\<rparr>"

lemma obligation_of_held:
  assumes "intent_rel w iv ov" "map w (intent_vars iv) = intent_to_scalars i"
    "valid (w (ov_amount_in ov))" "valid (w (ov_amount_out ov))"
  shows "map w (obligation_vars ov) = obligation_to_scalars (obligation_of w ov i)" "valid_obligation (obligation_of w ov i)"
  using assms by (simp_all add: intent_rel_def holds_defs obligation_of_def valid_u128 valid_obligation_def)

lemma private_party_sound:
  assumes rel: "private_rel w rr pr y s" and at: "map w (party_vars y) = party_to_scalars wi wb wo" "w rr = repr (relayer_fee_rate r)" "w pr = repr (protocol_fee_rate r)"
    and v: "valid_party wi wb wo" "valid_rates r" "valid (w (ov_amount_in (yw_obligation y)))" "valid (w (ov_amount_out (yw_obligation y)))"
  defines "ob \<equiv> obligation_of w (yw_obligation y) (inner wi)"
  shows "map w (obligation_vars (yw_obligation y)) = obligation_to_scalars ob"
    and "party_accepted (inner wi) (inner wb) (inner wo) ob (compute_fee_take r (ob_amount_out ob))"
    and "map w (party_statement_vars s) = settled_shares ob (compute_fee_take r (ob_amount_out ob)) wi wb wo"
proof -
  obtain t where t: "take_rel w \<lparr>rv_relayer_fee_rate = rr, rv_protocol_fee_rate = pr\<rparr> (w (ov_amount_out (yw_obligation y))) t"
      "party_rel w (yw_intent y) (yw_input_balance y) (yw_output_balance y) (yw_obligation y) t"
    and up: "update_rel w t (yw_amount_public_share y) (ys_new_amount_public_share s)
      (yw_in_balance_shares y) (ys_new_in_balance_public_shares s)
      (yw_out_balance_shares y) (ys_new_out_balance_public_shares s) (yw_obligation y)"
    using rel by (auto simp: private_rel_def)
  have hold: "map w (intent_vars (yw_intent y)) = intent_to_scalars (inner wi)"
      "map w (balance_vars (yw_input_balance y)) = balance_to_scalars (inner wb)"
      "map w (balance_vars (yw_output_balance y)) = balance_to_scalars (inner wo)"
    using at(1) by (simp_all add: party_held)
  have ir: "intent_rel w (yw_intent y) (yw_obligation y)" using t(2) by (simp add: party_rel_def)
  show ob: "map w (obligation_vars (yw_obligation y)) = obligation_to_scalars ob"
    unfolding ob_def by (rule obligation_of_held(1) [OF ir hold(1) v(3,4)])
  have vob: "valid_obligation ob"
    unfolding ob_def by (rule obligation_of_held(2) [OF ir hold(1) v(3,4)])
  have rates: "map w (rates_vars \<lparr>rv_relayer_fee_rate = rr, rv_protocol_fee_rate = pr\<rparr>) = rates_to_scalars r"
    using at by (simp add: rates_vars_def rates_to_scalars_def)
  have vp: "valid_intent (inner wi)" "valid_balance (inner wb)" "valid_balance (inner wo)"
    using v(1) by (simp_all add: valid_party_def)
  note pv = party_values [OF hold(1) ob hold(2,3) rates vp(1) vob vp(2,3) v(2) t]
  show "party_accepted (inner wi) (inner wb) (inner wo) ob (compute_fee_take r (ob_amount_out ob))" by (rule pv(3))
  have "validate_amount_bitlength (ob_amount_out ob)" using vob by (simp add: valid_obligation_def)
  note fv = fee_take_values [OF _ this, of r]
  have "unat (relayer_fee (compute_fee_take r (ob_amount_out ob))) + unat (protocol_fee (compute_fee_take r (ob_amount_out ob))) \<le>
      unat (ob_amount_out ob)"
    using fv v(2) by (simp add: valid_rates_def DEFAULT_FP_PRECISION_def)
  note sv = settled_shares_values [OF this, of wi wb wo]
  have am: "w (ov_amount_in (yw_obligation y)) = scalar_of_u128 (ob_amount_in ob)"
    "w (ov_amount_out (yw_obligation y)) = scalar_of_u128 (ob_amount_out ob)"
    using ob by (simp_all add: holds_defs)
  show "map w (party_statement_vars s) = settled_shares ob (compute_fee_take r (ob_amount_out ob)) wi wb wo"
    using up at(1) unfolding sv update_rel_def party_held am pv(1,2) Let_def
    by (simp add: party_statement_vars_def post_match_vars_def post_match_share_to_scalars_def)
qed

text \<open>Everything the circuit knows of one party.\<close>

definition party_known ::
    "('c, 'e) circuit \<Rightarrow> 'c \<Rightarrow> party_witness \<Rightarrow> party_statement \<Rightarrow> settlement_obligation \<Rightarrow> fee_take \<Rightarrow>
     state_intent \<Rightarrow> state_balance \<Rightarrow> state_balance \<Rightarrow> bool" where
  "party_known P c y s ob f wi wb wo \<longleftrightarrow>
     vals P c (party_vars y) (party_to_scalars wi wb wo) \<and>
     vals P c (obligation_vars (yw_obligation y)) (obligation_to_scalars ob) \<and>
     vals P c (party_statement_vars s) (settled_shares ob f wi wb wo)"

definition take_known :: "('c, 'e) circuit \<Rightarrow> 'c \<Rightarrow> fee_take_var \<Rightarrow> fee_take \<Rightarrow> bool" where
  "take_known P c t f \<longleftrightarrow>
     val P c (tv_relayer_fee t) = Some (scalar_of_u128 (relayer_fee f)) \<and>
     val P c (tv_protocol_fee t) = Some (scalar_of_u128 (protocol_fee f))"

lemma party_known_mono: "extends P c d \<Longrightarrow> party_known P c y s ob f wi wb wo \<Longrightarrow> party_known P d y s ob f wi wb wo"
  by (auto simp: party_known_def intro: vals_mono)

lemma take_known_mono: "extends P c d \<Longrightarrow> take_known P c t f \<Longrightarrow> take_known P d t f"
  by (auto simp: take_known_def intro: val_mono)

lemma obligation_vals:
  "vals P c (obligation_vars ov) (obligation_to_scalars ob) \<longleftrightarrow>
     val P c (ov_input_token ov) = Some (address_to_scalar (input_token ob)) \<and>
     val P c (ov_output_token ov) = Some (address_to_scalar (output_token ob)) \<and>
     val P c (ov_amount_in ov) = Some (scalar_of_u128 (ob_amount_in ob)) \<and>
     val P c (ov_amount_out ov) = Some (scalar_of_u128 (ob_amount_out ob))"
  by (simp add: obligation_vars_def obligation_to_scalars_def)

lemma valid_amount_scalar: "validate_amount_bitlength a \<Longrightarrow> valid (scalar_of_u128 a)"
  by (simp add: valid_def validate_amount_iff)

context circuit_contract
begin

lemma party_known_complete:
  assumes k: "party_known P c y s ob f wi wb wo" "take_known P c t f"
    and v: "valid_party wi wb wo" "valid_obligation ob" and acc: "party_accepted (inner wi) (inner wb) (inner wo) ob f"
  shows "completes P sat (verify_intent_and_balance_obligation_constraints P (yw_intent y) (yw_input_balance y)
    (yw_output_balance y) (yw_obligation y) t) c (\<lambda>_ _. True)"
  by (rule party_complete [where i = "inner wi" and b = "inner wb" and b' = "inner wo" and ob = ob and f = f])
    (use k v acc in \<open>simp_all add: party_known_def party_vals take_known_def valid_party_def\<close>)

lemma party_updates_complete:
  assumes k: "party_known P c y s ob f wi wb wo" "take_known P c t f"
    and le: "unat (relayer_fee f) + unat (protocol_fee f) \<le> unat (ob_amount_out ob)"
  shows "completes P sat (verify_state_updates P t (yw_amount_public_share y) (ys_new_amount_public_share s)
    (yw_in_balance_shares y) (ys_new_in_balance_public_shares s) (yw_out_balance_shares y)
    (ys_new_out_balance_public_shares s) (yw_obligation y)) c (\<lambda>_ _. True)"
  by (rule state_updates_complete)
    (use k in \<open>simp add: party_known_def party_vals take_known_def obligation_vals party_statement_vars_def post_match_vars_def
      post_match_share_to_scalars_def settled_shares_values [OF le] Let_def\<close>)

lemma compatibility_complete:
  assumes "vals P c (obligation_vars (yw_obligation (party0 wit))) (obligation_to_scalars ob)"
    "vals P c (obligation_vars (yw_obligation (party1 wit))) (obligation_to_scalars (mirrored ob))" and v: "valid_obligation ob"
  shows "completes P sat (validate_obligation_compatibility P wit) c (\<lambda>_ _. True)"
proof -
  let ?x = "yw_obligation (party0 wit)" and ?y = "yw_obligation (party1 wit)"
  let ?it = "address_to_scalar (input_token ob)" and ?ot = "address_to_scalar (output_token ob)"
  let ?a = "scalar_of_u128 (ob_amount_in ob)" and ?b = "scalar_of_u128 (ob_amount_out ob)"
  have vs: "vals P c [ov_input_token ?x, ov_output_token ?x, ov_amount_in ?x, ov_amount_out ?x,
      ov_input_token ?y, ov_output_token ?y, ov_amount_in ?y, ov_amount_out ?y] [?it, ?ot, ?a, ?b, ?ot, ?it, ?b, ?a]"
    using assms(1,2) by (simp add: obligation_vals mirrored_def)
  have va: "valid ?a" "valid ?b" using v by (simp_all add: valid_obligation_def valid_amount_scalar)
  show ?thesis
    unfolding validate_obligation_compatibility_def Let_def
    by (rule completes_seq_vals [OF vs valid_complete [OF _ va(1)]], use vs in simp,
        rule completes_seq_vals [OF _ valid_complete [OF _ va(2)]], assumption, simp,
        rule completes_seq_vals [OF _ valid_complete [OF _ va(2)]], assumption, simp,
        rule completes_seq_vals [OF _ valid_complete [OF _ va(1)]], assumption, simp,
        rule completes_seq_vals [OF _ constrain_eq_complete [of _ _ "[?it]"]], assumption, simp, simp,
        rule completes_seq_vals [OF _ constrain_eq_complete [of _ _ "[?ot]"]], assumption, simp, simp,
        rule completes_seq_vals [OF _ constrain_eq_complete [of _ _ "[?a]"]], assumption, simp, simp,
        rule constrain_eq_complete [of _ _ "[?b]"]) simp_all
qed

lemma fee_takes_complete:
  assumes "vals P c [st_relayer_fee0 st, st_relayer_fee1 st, st_protocol_fee st] [repr r0, repr r1, repr pr]"
    and "val P c (ov_amount_out (yw_obligation (party0 wit))) = Some (scalar_of_u128 a)" "validate_amount_bitlength a"
    and "val P c (ov_amount_out (yw_obligation (party1 wit))) = Some (scalar_of_u128 b)" "validate_amount_bitlength b"
    and "valid_rates \<lparr>relayer_fee_rate = r0, protocol_fee_rate = pr\<rparr>" "valid_rates \<lparr>relayer_fee_rate = r1, protocol_fee_rate = pr\<rparr>"
  shows "completes P sat (get_fee_takes P st wit) c (\<lambda>(t0, t1) c'.
    take_known P c' t0 (compute_fee_take \<lparr>relayer_fee_rate = r0, protocol_fee_rate = pr\<rparr> a) \<and>
    take_known P c' t1 (compute_fee_take \<lparr>relayer_fee_rate = r1, protocol_fee_rate = pr\<rparr> b))"
  unfolding get_fee_takes_def Let_def take_known_def
proof (rule completes_bind [OF fees_complete [OF _ assms(2,6,3)]], use assms(1) in \<open>simp add: rates_vars_def rates_to_scalars_def\<close>,
    rule completes_bind [OF fees_complete [OF _ val_mono [OF _ assms(4)] assms(7,5)]])
  show "vals P d (rates_vars \<lparr>rv_relayer_fee_rate = st_relayer_fee1 st, rv_protocol_fee_rate = st_protocol_fee st\<rparr>)
      (rates_to_scalars \<lparr>relayer_fee_rate = r1, protocol_fee_rate = pr\<rparr>)" if "extends P c d" for d
    using vals_mono [OF that assms(1)] by (simp add: rates_vars_def rates_to_scalars_def)
qed (auto intro!: completes_ret intro: val_mono)

lemma private_complete:
  fixes r0 r1 pr :: fixed_point and ob :: settlement_obligation
  defines "f0 \<equiv> compute_fee_take \<lparr>relayer_fee_rate = r0, protocol_fee_rate = pr\<rparr> (ob_amount_out ob)"
    and "f1 \<equiv> compute_fee_take \<lparr>relayer_fee_rate = r1, protocol_fee_rate = pr\<rparr> (ob_amount_out (mirrored ob))"
  assumes k: "party_known P c (party0 wit) (st_party0 st) ob f0 wi0 wb0 wo0"
      "party_known P c (party1 wit) (st_party1 st) (mirrored ob) f1 wi1 wb1 wo1"
      "vals P c [st_relayer_fee0 st, st_relayer_fee1 st, st_protocol_fee st] [repr r0, repr r1, repr pr]"
    and v: "valid_party wi0 wb0 wo0" "valid_party wi1 wb1 wo1" "valid_obligation ob"
      "valid_rates \<lparr>relayer_fee_rate = r0, protocol_fee_rate = pr\<rparr>" "valid_rates \<lparr>relayer_fee_rate = r1, protocol_fee_rate = pr\<rparr>"
    and acc: "party_accepted (inner wi0) (inner wb0) (inner wo0) ob f0"
      "party_accepted (inner wi1) (inner wb1) (inner wo1) (mirrored ob) f1"
  shows "completes P sat (intent_and_balance_private_settlement P st wit) c (\<lambda>_ _. True)"
proof -
  have vm: "valid_obligation (mirrored ob)" using v(3) by (simp add: valid_obligation_def mirrored_def)
  have va: "validate_amount_bitlength (ob_amount_out ob)" "validate_amount_bitlength (ob_amount_out (mirrored ob))"
    using v(3) vm by (simp_all add: valid_obligation_def)
  have le: "unat (relayer_fee f0) + unat (protocol_fee f0) \<le> unat (ob_amount_out ob)"
      "unat (relayer_fee f1) + unat (protocol_fee f1) \<le> unat (ob_amount_out (mirrored ob))"
    using fee_take_values [OF _ va(1), of "\<lparr>relayer_fee_rate = r0, protocol_fee_rate = pr\<rparr>"]
      fee_take_values [OF _ va(2), of "\<lparr>relayer_fee_rate = r1, protocol_fee_rate = pr\<rparr>"] v(4,5)
    by (simp_all add: f0_def f1_def valid_rates_def DEFAULT_FP_PRECISION_def)
  define T where "T d \<longleftrightarrow> party_known P d (party0 wit) (st_party0 st) ob f0 wi0 wb0 wo0 \<and>
    party_known P d (party1 wit) (st_party1 st) (mirrored ob) f1 wi1 wb1 wo1 \<and>
    vals P d [st_relayer_fee0 st, st_relayer_fee1 st, st_protocol_fee st] [repr r0, repr r1, repr pr]" for d
  define K where "K t0 t1 d \<longleftrightarrow> T d \<and> take_known P d t0 f0 \<and> take_known P d t1 f1" for t0 t1 d
  have T_mono: "T e" if "extends P d e" "T d" for d e
    using that party_known_mono [OF that(1)] vals_mono [OF that(1)] unfolding T_def by blast
  have K_mono: "K t0 t1 e" if "extends P d e" "K t0 t1 d" for t0 t1 d e
    using that T_mono [OF that(1)] take_known_mono [OF that(1)] unfolding K_def by blast
  have obs: "vals P d (obligation_vars (yw_obligation (party0 wit))) (obligation_to_scalars ob)"
      "vals P d (obligation_vars (yw_obligation (party1 wit))) (obligation_to_scalars (mirrored ob))"
      "vals P d [st_relayer_fee0 st, st_relayer_fee1 st, st_protocol_fee st] [repr r0, repr r1, repr pr]" if "T d" for d
    using that unfolding T_def party_known_def by blast+
  have fees: "completes P sat (get_fee_takes P st wit) d (\<lambda>(t0, t1) c'. take_known P c' t0 f0 \<and> take_known P c' t1 f1)" if "T d" for d
    unfolding f0_def f1_def
    by (rule fee_takes_complete [OF obs(3) [OF that] _ va(1) _ va(2) v(4,5)]) (use obs [OF that] in \<open>simp_all add: obligation_vals\<close>)
  let ?y0 = "party0 wit" and ?y1 = "party1 wit" and ?s0 = "st_party0 st" and ?s1 = "st_party1 st"
  let ?V0 = "verify_intent_and_balance_obligation_constraints P (yw_intent ?y0) (yw_input_balance ?y0) (yw_output_balance ?y0) (yw_obligation ?y0)"
    and ?V1 = "verify_intent_and_balance_obligation_constraints P (yw_intent ?y1) (yw_input_balance ?y1) (yw_output_balance ?y1) (yw_obligation ?y1)"
    and ?U0 = "\<lambda>t. verify_state_updates P t (yw_amount_public_share ?y0) (ys_new_amount_public_share ?s0) (yw_in_balance_shares ?y0)
      (ys_new_in_balance_public_shares ?s0) (yw_out_balance_shares ?y0) (ys_new_out_balance_public_shares ?s0) (yw_obligation ?y0)"
    and ?U1 = "\<lambda>t. verify_state_updates P t (yw_amount_public_share ?y1) (ys_new_amount_public_share ?s1) (yw_in_balance_shares ?y1)
      (ys_new_in_balance_public_shares ?s1) (yw_out_balance_shares ?y1) (ys_new_out_balance_public_shares ?s1) (yw_obligation ?y1)"
  have steps: "completes P sat (?V0 t0) d (\<lambda>_ _. True)" "completes P sat (?V1 t1) d (\<lambda>_ _. True)"
      "completes P sat (?U0 t0) d (\<lambda>_ _. True)" "completes P sat (?U1 t1) d (\<lambda>_ _. True)" if "K t0 t1 d" for t0 t1 d
    using that unfolding K_def T_def
    by (blast intro: party_known_complete [OF _ _ v(1,3) acc(1)] party_known_complete [OF _ _ v(2) vm acc(2)]
        party_updates_complete [OF _ _ le(1)] party_updates_complete [OF _ _ le(2)])+
  have rest: "completes P sat (seqb (?V0 t0) (seqb (?V1 t1) (seqb (?U0 t0) (?U1 t1)))) d (\<lambda>_ _. True)" if K: "K t0 t1 d" for t0 t1 d
    by (rule completes_seq_mono [where T = "K t0 t1", OF steps(1) [OF K] K K_mono], assumption, assumption,
        rule completes_seq_mono [where T = "K t0 t1", OF steps(2) _ K_mono], assumption, assumption, assumption, assumption,
        rule completes_seq_mono [where T = "K t0 t1", OF steps(3) _ K_mono], assumption, assumption, assumption, assumption,
        rule steps(4))
  have T0: "T c" using k by (simp add: T_def)
  have tail: "completes P sat (bindb (get_fee_takes P st wit) (\<lambda>(t0, t1). seqb (?V0 t0) (seqb (?V1 t1) (seqb (?U0 t0) (?U1 t1))))) d
      (\<lambda>_ _. True)" if "T d" for d
    by (rule completes_bind [OF fees [OF that]]) (use T_mono [OF _ that] in \<open>auto simp: K_def intro!: rest\<close>)
  show ?thesis
    unfolding intent_and_balance_private_settlement_def Let_def
    by (rule completes_seq_mono [where T = T, OF compatibility_complete [OF obs(1,2) [OF T0] v(3)] T0 T_mono tail])
qed

end

end
