(* ===== verification/Circuit_Bounded.thy ===== *)
theory Circuit_Bounded
  imports Circuit_Acceptance
begin

text \<open>
  The bounded settlement circuits fix a price and an upper bound of the input amount; the size is
  chosen when the match executes. Acceptance is for every size up to the bound.
\<close>

section \<open>Bounded matches\<close>

definition bounded_accepted :: "intent \<Rightarrow> darkpool_balance \<Rightarrow> darkpool_balance \<Rightarrow> bounded_match_result \<Rightarrow> bool" where
  "bounded_accepted i b b' m \<longleftrightarrow>
     internal_party_input_token m = in_token i \<and> internal_party_output_token m = out_token i \<and>
     max_internal_party_amount_in m \<le> amount_in i \<and>
     scalar_to_biguint (repr (min_price i)) \<le> scalar_to_biguint (repr (bounded_price m)) \<and>
     max_internal_party_amount_in m \<le> bal_amount b \<and>
     mint b' = internal_party_output_token m \<and> bal_owner b' = owner i \<and>
     unat (bal_amount b') + scalar_to_biguint (floor_mul_int (bounded_price m) (max_internal_party_amount_in m)) < 2 ^ AMOUNT_BITS"

definition valid_bounded :: "bounded_match_result \<Rightarrow> bool" where
  "valid_bounded m \<longleftrightarrow>
     validate_price_bitlength (bounded_price m) \<and> validate_amount_bitlength (max_internal_party_amount_in m)"

lemma bounded_statement_held:
  "map w (bounded_statement_vars sv) = bounded_statement_to_scalars st \<longleftrightarrow>
     map w (bounded_match_vars (bs_result sv)) = bounded_match_to_scalars (bounded_match_result_val st) \<and>
     w (bs_amount_public_share sv) = bst_amount_public_share st \<and>
     map w (post_match_vars (bs_in_balance_public_shares sv)) = post_match_share_to_scalars (bst_in_balance_public_shares st) \<and>
     map w (post_match_vars (bs_out_balance_public_shares sv)) = post_match_share_to_scalars (bst_out_balance_public_shares st) \<and>
     w (bs_internal_relayer_fee sv) = repr (internal_relayer_fee st) \<and>
     w (bs_external_relayer_fee sv) = repr (external_relayer_fee st) \<and>
     w (bs_relayer_fee_recipient sv) = address_to_scalar (bst_relayer_fee_recipient st)"
  unfolding bounded_statement_vars_def bounded_statement_to_scalars_def by (simp add: map_append_eq lengths del: map_append)

lemma bounded_statement_vals:
  "vals P c (bounded_statement_vars sv) (bounded_statement_to_scalars st) \<longleftrightarrow>
     vals P c (bounded_match_vars (bs_result sv)) (bounded_match_to_scalars (bounded_match_result_val st)) \<and>
     val P c (bs_amount_public_share sv) = Some (bst_amount_public_share st) \<and>
     vals P c (post_match_vars (bs_in_balance_public_shares sv)) (post_match_share_to_scalars (bst_in_balance_public_shares st)) \<and>
     vals P c (post_match_vars (bs_out_balance_public_shares sv)) (post_match_share_to_scalars (bst_out_balance_public_shares st)) \<and>
     val P c (bs_internal_relayer_fee sv) = Some (repr (internal_relayer_fee st)) \<and>
     val P c (bs_external_relayer_fee sv) = Some (repr (external_relayer_fee st)) \<and>
     val P c (bs_relayer_fee_recipient sv) = Some (address_to_scalar (bst_relayer_fee_recipient st))"
  unfolding bounded_statement_vars_def bounded_statement_to_scalars_def by (simp add: vals_append lengths)

lemma at_least_prices:
  "validate_price_bitlength p \<Longrightarrow> validate_price_bitlength q \<Longrightarrow>
     at_least 127 (repr p) (repr q) \<longleftrightarrow> scalar_to_biguint (repr q) \<le> scalar_to_biguint (repr p)"
  by (rule at_least_iff) (simp_all add: validate_price_iff)

lemma valid_out:
  assumes "floor_fn x = z" "unat a < 2 ^ 128" "scalar_to_biguint x < 2 ^ 252"
  shows "valid (scalar_of_u128 a + z) \<longleftrightarrow> unat a + scalar_to_biguint z < 2 ^ 100"
    and "floor_of x y \<Longrightarrow> valid (scalar_of_u128 a + y) \<Longrightarrow> y = z"
proof -
  have "scalar_to_biguint x div 2 ^ 63 < 2 ^ 252" using div_le_dividend assms(3) by (rule le_less_trans)
  then have z: "scalar_to_biguint z < 2 ^ 252" using assms(1) scalar_small [of "scalar_to_biguint x div 2 ^ 63"]
    by (simp add: floor_fn_def)
  then have "unat a + scalar_to_biguint z < 2 ^ 253" using assms(2) by simp
  then have "scalar_to_biguint (of_nat (unat a + scalar_to_biguint z)) = unat a + scalar_to_biguint z" by (rule scalar_small)
  then show "valid (scalar_of_u128 a + z) \<longleftrightarrow> unat a + scalar_to_biguint z < 2 ^ 100"
    by (simp add: valid_def of_nat_unat scalar_of_nat)
  assume y: "floor_of x y" "valid (scalar_of_u128 a + y)"
  have "of_nat (unat a) + y = of_nat (scalar_to_biguint (scalar_of_u128 a + y))" by (simp add: of_nat_unat scalar_of_nat)
  from floor_determined(1) [OF y(1) this assms(2) _ assms(3)] show "y = z" using y(2) assms(1) by (simp add: valid_def)
qed

lemma bounded_rel_iff:
  assumes at: "map w (intent_vars iv) = intent_to_scalars i" "map w (balance_vars bv) = balance_to_scalars b"
      "map w (balance_vars bv') = balance_to_scalars b'" "map w (bounded_match_vars mv) = bounded_match_to_scalars m"
    and v: "valid_intent i" "valid_balance b" "valid_bounded m"
  shows "bounded_rel w iv bv bv' mv \<longleftrightarrow> bounded_accepted i b b' m"
proof -
  let ?x = "repr (bounded_price m) * scalar_of_u128 (max_internal_party_amount_in m)"
  have x: "scalar_to_biguint ?x < 2 ^ 252" using v(3) by (intro price_product) (simp_all add: valid_bounded_def)
  note out = valid_out [where a = "bal_amount b'", OF floor_fn_price unat_less_u128 x]
  have room: "(\<exists>y. floor_of ?x y \<and> valid (scalar_of_u128 (bal_amount b') + y)) \<longleftrightarrow>
      unat (bal_amount b') + scalar_to_biguint (floor_mul_int (bounded_price m) (max_internal_party_amount_in m)) < 2 ^ 100"
  proof
    assume "\<exists>y. floor_of ?x y \<and> valid (scalar_of_u128 (bal_amount b') + y)"
    then obtain y where y: "floor_of ?x y" "valid (scalar_of_u128 (bal_amount b') + y)" by blast
    show "unat (bal_amount b') + scalar_to_biguint (floor_mul_int (bounded_price m) (max_internal_party_amount_in m)) < 2 ^ 100"
      using y(2) unfolding out(2) [OF y] out(1) .
  next
    assume "unat (bal_amount b') + scalar_to_biguint (floor_mul_int (bounded_price m) (max_internal_party_amount_in m)) < 2 ^ 100"
    then have "valid (scalar_of_u128 (bal_amount b') + floor_fn ?x)" unfolding floor_fn_price out(1) .
    then show "\<exists>y. floor_of ?x y \<and> valid (scalar_of_u128 (bal_amount b') + y)" using floor_fn_of by blast
  qed
  have le: "at_least 100 (scalar_of_u128 (amount_in i)) (scalar_of_u128 (max_internal_party_amount_in m)) \<longleftrightarrow>
        max_internal_party_amount_in m \<le> amount_in i"
      "at_least 100 (scalar_of_u128 (bal_amount b)) (scalar_of_u128 (max_internal_party_amount_in m)) \<longleftrightarrow>
        max_internal_party_amount_in m \<le> bal_amount b"
      "at_least 127 (repr (bounded_price m)) (repr (min_price i)) \<longleftrightarrow>
        scalar_to_biguint (repr (min_price i)) \<le> scalar_to_biguint (repr (bounded_price m))"
    using v by (simp_all add: at_least_amounts at_least_prices valid_intent_def valid_balance_def valid_bounded_def)
  show ?thesis
    using at unfolding bounded_rel_def bounded_intent_rel_def bounded_accepted_def AMOUNT_BITS_def
    by (simp add: holds_defs bounded_match_vars_def bounded_match_to_scalars_def le room)
qed

text \<open>An accepted bounded match can execute at every size up to its bound.\<close>

lemma floor_mul_int_mono:
  assumes "scalar_to_biguint (repr p) \<le> scalar_to_biguint (repr q)" "unat a \<le> unat b"
    "scalar_to_biguint (repr q) * unat b < scalar_modulus"
  shows "scalar_to_biguint (floor_mul_int p a) \<le> scalar_to_biguint (floor_mul_int q b)"
proof -
  have le: "scalar_to_biguint (repr p) * unat a \<le> scalar_to_biguint (repr q) * unat b"
    using assms(1,2) by (rule mult_le_mono)
  then show ?thesis
    using floor_mul_int_exact [OF le_less_trans [OF le assms(3)]] floor_mul_int_exact [OF assms(3)] by (simp add: div_le_mono)
qed

lemma bounded_fill:
  assumes acc: "bounded_accepted i b b' m" and v: "valid_bounded m" and a: "a \<le> max_internal_party_amount_in m"
  defines "ob \<equiv> to_internal_obligation m a"
  shows "obligation_accepted i ob" and "ob_amount_in ob \<le> bal_amount b"
    and "mint b' = output_token ob" "bal_owner b' = owner i" "unat (bal_amount b') + unat (ob_amount_out ob) < 2 ^ AMOUNT_BITS"
proof -
  let ?M = "max_internal_party_amount_in m" and ?p = "bounded_price m"
  have nw: "scalar_to_biguint (repr ?p) * unat ?M < scalar_modulus"
    using v by (intro price_amount_no_wrap) (simp_all add: valid_bounded_def)
  have le: "unat a \<le> unat ?M" using a by (simp add: word_le_nat_alt)
  have "scalar_to_biguint (repr ?p) * unat a \<le> scalar_to_biguint (repr ?p) * unat ?M" using le by (rule mult_le_mono2)
  then have nwa: "scalar_to_biguint (repr ?p) * unat a < scalar_modulus" using nw by (rule le_less_trans)
  have f: "scalar_to_biguint (floor_mul_int ?p a) \<le> scalar_to_biguint (floor_mul_int ?p ?M)"
    by (rule floor_mul_int_mono [OF order_refl le nw])
  have room: "unat (bal_amount b') + scalar_to_biguint (floor_mul_int ?p ?M) < 2 ^ 100"
    using acc by (simp add: bounded_accepted_def AMOUNT_BITS_def)
  have small: "scalar_to_biguint (floor_mul_int ?p a) < 2 ^ 128" using f room by simp
  have out: "unat (ob_amount_out ob) = scalar_to_biguint (floor_mul_int ?p a)"
    using small by (simp add: ob_def to_internal_obligation_def unat_scalar_to_u128)
  show "unat (bal_amount b') + unat (ob_amount_out ob) < 2 ^ AMOUNT_BITS"
    using f room by (simp add: out AMOUNT_BITS_def)
  have "scalar_to_biguint (floor_mul_int (min_price i) a) \<le> scalar_to_biguint (floor_mul_int ?p a)"
    using acc by (intro floor_mul_int_mono [OF _ order_refl nwa]) (simp add: bounded_accepted_def)
  then show "obligation_accepted i ob"
    using acc a out by (auto simp: obligation_accepted_def bounded_accepted_def ob_def to_internal_obligation_def)
  show "ob_amount_in ob \<le> bal_amount b" "mint b' = output_token ob" "bal_owner b' = owner i"
    using acc a by (auto simp: bounded_accepted_def ob_def to_internal_obligation_def)
qed

section \<open>Completeness\<close>

lemma PRICE_BITS_127: "PRICE_BITS = 127"
  by (simp add: fp_consts)

context circuit_contract
begin

lemma bounded_constraints_complete:
  assumes vs: "vals P c [iv_in_token i, iv_out_token i, iv_owner i, iv_min_price i, iv_amount_in i, bv_amount b, bv_mint b',
      bv_owner b', bv_amount b', mv_input_token m, mv_output_token m, mv_max_amount_in m, mv_price m]
      [it, ot, ow, mp, a, ba, ot, ow, oa, it, ot, k, p]"
    and h: "at_least 100 a k" "at_least 127 p mp" "at_least 100 ba k" "valid (oa + floor_fn (p * k))"
  shows "completes P sat (verify_bounded_match_result_constraints P i b b' m) c (\<lambda>_ _. True)"
proof -
  let ?vs = "[iv_in_token i, iv_out_token i, iv_owner i, iv_min_price i, iv_amount_in i, bv_amount b, bv_mint b',
      bv_owner b', bv_amount b', mv_input_token m, mv_output_token m, mv_max_amount_in m, mv_price m]"
  let ?xs = "[it, ot, ow, mp, a, ba, ot, ow, oa, it, ot, k, p]"
  have intent: "completes P sat (verify_bounded_intent_constraints P i m) c (\<lambda>_ _. True)"
    unfolding verify_bounded_intent_constraints_def PRICE_BITS_127 AMOUNT_BITS_def
    by (rule completes_seq_vals [OF vs constrain_eq_complete [of _ _ "[it]"]], use vs in simp, use vs in simp,
        rule completes_seq_vals [OF _ constrain_eq_complete [of _ _ "[ot]"]], assumption, simp, simp,
        rule completes_seq_vals [OF _ at_least_complete [OF _ _ h(1)]], assumption, simp, simp,
        rule at_least_complete [OF _ _ h(2)]) simp_all
  have inb: "completes P sat (verify_bounded_in_balance_constraints P b m) d (\<lambda>_ _. True)" if "vals P d ?vs ?xs" for d
    unfolding verify_bounded_in_balance_constraints_def AMOUNT_BITS_def
    by (rule at_least_complete [OF _ _ h(3)]) (use that in simp_all)
  have outb: "completes P sat (verify_bounded_out_balance_constraints P b' i m) d (\<lambda>_ _. True)" if d: "vals P d ?vs ?xs" for d
    unfolding verify_bounded_out_balance_constraints_def
    by (rule completes_seq_vals [OF d constrain_eq_complete [of _ _ "[ot]"]], use d in simp, use d in simp,
        rule completes_seq_vals [OF _ constrain_eq_complete [of _ _ "[ow]"]], assumption, simp, simp,
        rule completes_bind_vals [OF _ mul_integer_complete [of _ _ p _ k]], assumption, simp, simp,
        rule completes_bind_vals [OF _ floor_fn_complete [of _ _ "p * k"]], assumption, simp,
        rule completes_bind_vals [OF _ add_complete [of _ _ oa _ "floor_fn (p * k)"]], assumption, simp, simp,
        rule valid_complete [OF _ h(4)]) simp
  show ?thesis
    unfolding verify_bounded_match_result_constraints_def
    by (rule completes_seq_vals [OF vs intent], rule completes_seq_vals [OF _ inb], assumption, assumption, rule outb)
qed

lemma bounded_complete:
  fixes wit st
  defines "m \<equiv> bounded_match_result_val st"
  assumes at: "vals P c (public_witness_vars wv) (public_witness_to_scalars wit)"
      "vals P c (bounded_statement_vars sv) (bounded_statement_to_scalars st)"
    and v: "valid_intent (intent_val wit)" "valid_balance (in_balance wit)" "valid_bounded m"
    and acc: "bounded_accepted (intent_val wit) (in_balance wit) (out_balance wit) m"
      "bst_amount_public_share st = pre_settlement_amount_public_share wit"
      "bst_in_balance_public_shares st = pre_settlement_in_balance_shares wit"
      "bst_out_balance_public_shares st = pre_settlement_out_balance_shares wit"
      "bst_relayer_fee_recipient st = relayer_fee_recipient (out_balance wit)"
  shows "completes P sat (intent_and_balance_bounded_settlement P sv wv) c (\<lambda>_ _. True)"
proof -
  let ?i = "intent_val wit" and ?b = "in_balance wit" and ?b' = "out_balance wit"
  define T where "T d \<longleftrightarrow> vals P d (public_witness_vars wv) (public_witness_to_scalars wit) \<and>
    vals P d (bounded_statement_vars sv) (bounded_statement_to_scalars st)" for d
  have mono: "T e" if "extends P d e" "T d" for d e using vals_mono [OF that(1)] that(2) by (auto simp: T_def)
  have T0: "T c" using at by (simp add: T_def)
  have tok: "internal_party_input_token m = in_token ?i" "internal_party_output_token m = out_token ?i"
    "mint ?b' = internal_party_output_token m" "bal_owner ?b' = owner ?i"
    using acc(1) by (simp_all add: bounded_accepted_def)
  have h: "at_least 100 (scalar_of_u128 (amount_in ?i)) (scalar_of_u128 (max_internal_party_amount_in m))"
      "at_least 127 (repr (bounded_price m)) (repr (min_price ?i))"
      "at_least 100 (scalar_of_u128 (bal_amount ?b)) (scalar_of_u128 (max_internal_party_amount_in m))"
    using acc(1) v by (simp_all add: at_least_amounts at_least_prices valid_intent_def valid_balance_def valid_bounded_def bounded_accepted_def)
  have x: "scalar_to_biguint (repr (bounded_price m) * scalar_of_u128 (max_internal_party_amount_in m)) < 2 ^ 252"
    using v(3) by (intro price_product) (simp_all add: valid_bounded_def)
  have room: "valid (scalar_of_u128 (bal_amount ?b') +
      floor_fn (repr (bounded_price m) * scalar_of_u128 (max_internal_party_amount_in m)))"
    unfolding floor_fn_price valid_out(1) [where a = "bal_amount ?b'", OF floor_fn_price unat_less_u128 x]
    using acc(1) by (simp add: bounded_accepted_def AMOUNT_BITS_def)
  have constraints: "completes P sat (verify_bounded_match_result_constraints P (pw_intent wv) (pw_in_balance wv) (pw_out_balance wv)
      (bs_result sv)) c (\<lambda>_ _. True)"
    by (rule bounded_constraints_complete [OF _ h room])
      (use at tok in \<open>simp add: public_vals bounded_statement_vals holds_defs bounded_match_vars_def bounded_match_to_scalars_def m_def\<close>)
  have leak: "vals P d
      ([pw_amount_public_share wv, bs_amount_public_share sv] @ post_match_vars (pw_in_balance_shares wv) @
       post_match_vars (bs_in_balance_public_shares sv) @ post_match_vars (pw_out_balance_shares wv) @
       post_match_vars (bs_out_balance_public_shares sv) @
       [bv_relayer_fee_recipient (pw_out_balance wv), bs_relayer_fee_recipient sv])
      ([bst_amount_public_share st, bst_amount_public_share st] @ post_match_share_to_scalars (bst_in_balance_public_shares st) @
       post_match_share_to_scalars (bst_in_balance_public_shares st) @ post_match_share_to_scalars (bst_out_balance_public_shares st) @
       post_match_share_to_scalars (bst_out_balance_public_shares st) @
       [address_to_scalar (bst_relayer_fee_recipient st), address_to_scalar (bst_relayer_fee_recipient st)])" if d: "T d" for d
  proof -
    have "val P d (bv_relayer_fee_recipient (pw_out_balance wv)) = Some (address_to_scalar (bst_relayer_fee_recipient st))"
      using d acc(5) by (simp add: T_def public_vals recipient_val)
    then show ?thesis
      using d acc(2-4) by (simp add: vals_append lengths T_def public_vals bounded_statement_vals)
  qed
  show ?thesis
    unfolding intent_and_balance_bounded_settlement_def
    by (rule completes_seq_mono [where T = T, OF constraints T0 mono], assumption, assumption, rule leak_complete, rule leak)
qed

lemma bounded_sound:
  assumes run: "intent_and_balance_bounded_settlement P sv wv c = Some (Inr (u, c'))" "sat c' w"
    and at: "map w (public_witness_vars wv) = public_witness_to_scalars wit"
      "map w (bounded_statement_vars sv) = bounded_statement_to_scalars st"
    and v: "valid_intent (intent_val wit)" "valid_balance (in_balance wit)" "valid_bounded (bounded_match_result_val st)"
  shows "bounded_accepted (intent_val wit) (in_balance wit) (out_balance wit) (bounded_match_result_val st)"
    and "bst_amount_public_share st = pre_settlement_amount_public_share wit \<and>
      bst_in_balance_public_shares st = pre_settlement_in_balance_shares wit \<and>
      bst_out_balance_public_shares st = pre_settlement_out_balance_shares wit \<and>
      bst_relayer_fee_recipient st = relayer_fee_recipient (out_balance wit)"
proof -
  have rel: "bounded_rel w (pw_intent wv) (pw_in_balance wv) (pw_out_balance wv) (bs_result sv)"
    and leak: "leak_rel w wv (bs_amount_public_share sv) (bs_in_balance_public_shares sv) (bs_out_balance_public_shares sv)
      (bs_relayer_fee_recipient sv)"
    using soundD [OF bounded_settlement_sound run] by blast+
  have hold: "map w (intent_vars (pw_intent wv)) = intent_to_scalars (intent_val wit)"
      "map w (balance_vars (pw_in_balance wv)) = balance_to_scalars (in_balance wit)"
      "map w (balance_vars (pw_out_balance wv)) = balance_to_scalars (out_balance wit)"
      "map w (bounded_match_vars (bs_result sv)) = bounded_match_to_scalars (bounded_match_result_val st)"
    using at by (simp_all add: public_held bounded_statement_held)
  show "bounded_accepted (intent_val wit) (in_balance wit) (out_balance wit) (bounded_match_result_val st)"
    using rel bounded_rel_iff [OF hold v] by simp
  show "bst_amount_public_share st = pre_settlement_amount_public_share wit \<and>
      bst_in_balance_public_shares st = pre_settlement_in_balance_shares wit \<and>
      bst_out_balance_public_shares st = pre_settlement_out_balance_shares wit \<and>
      bst_relayer_fee_recipient st = relayer_fee_recipient (out_balance wit)"
    using leak at(2) by (subst (asm) leak_iff [OF at(1)]) (auto simp: bounded_statement_held)
qed

end

end
