(* ===== verification/Circuit_Properties.thy ===== *)
theory Circuit_Properties
  imports Circuit_Bounded
begin

text \<open>
  The properties of the settlement circuits over an arbitrary constraint system that keeps the
  contract, each applied to the reference constraint system.
\<close>

section \<open>Initial states of the reference system\<close>

definition ref_start :: "scalar list \<Rightarrow> ref_cs" where
  "ref_start xs = \<lparr>ref_values = xs, ref_gates = []\<rparr>"

lemma ref_start_honest: "honest ref_circuit ref_sat (ref_start xs)"
proof (rule honestI)
  fix w
  assume w: "\<And>v x. val ref_circuit (ref_start xs) v = Some x \<Longrightarrow> w v = x"
  have "val ref_circuit (ref_start xs) 0 = Some 0" "val ref_circuit (ref_start xs) 1 = Some 1"
    by (simp_all add: ref_val ref_start_def)
  then show "ref_sat (ref_start xs) w" using w by (auto simp: ref_sat_def ref_start_def)
qed

lemma ref_start_vals:
  assumes vs: "vs = [2..<k]" and k: "k - 2 = length xs"
  shows "vals ref_circuit (ref_start xs) vs xs"
proof -
  have "xs = map (\<lambda>v. (0 # 1 # xs) ! v) vs"
    unfolding vs by (rule nth_equalityI) (use k in \<open>simp_all add: nth_upt\<close>)
  moreover have "list_all (\<lambda>v. v < 2 + length xs) vs" unfolding vs using k by (auto simp: list_all_iff)
  ultimately show ?thesis by (simp add: ref_vals_iff ref_alloc_def ref_vals_def ref_start_def)
qed

text \<open>The prover's assignment.\<close>

definition ref_assignment :: "ref_cs \<Rightarrow> assignment" where
  "ref_assignment c v = (case val ref_circuit c v of Some x \<Rightarrow> x | None \<Rightarrow> 0)"

lemma ref_assignment_sat: "honest ref_circuit ref_sat c \<Longrightarrow> ref_sat c (ref_assignment c)"
  by (simp add: honest_def ref_assignment_def)

lemma ref_assignment_vals: "vals ref_circuit c vs xs \<Longrightarrow> extends ref_circuit c c' \<Longrightarrow> map (ref_assignment c') vs = xs"
proof -
  assume "vals ref_circuit c vs xs" "extends ref_circuit c c'"
  then have "vals ref_circuit c' vs xs" by (rule vals_mono [rotated])
  then show ?thesis
  proof (induction vs arbitrary: xs)
    case (Cons v vs)
    then show ?case by (cases xs) (auto simp: ref_assignment_def)
  qed (simp add: vals_def)
qed

section \<open>Examples\<close>

definition example_fp :: "nat \<Rightarrow> fixed_point" where
  "example_fp n = FixedPoint (biguint_to_scalar n)"

definition example_intent_of :: "address \<Rightarrow> address \<Rightarrow> address \<Rightarrow> intent" where
  "example_intent_of i j own =
     \<lparr>in_token = i, out_token = j, owner = own, min_price = example_fp (2 ^ 62), amount_in = 100\<rparr>"

definition example_balance_of :: "address \<Rightarrow> address \<Rightarrow> amount \<Rightarrow> darkpool_balance" where
  "example_balance_of m own a =
     \<lparr>mint = m, bal_owner = own, relayer_fee_recipient = 9, authority = \<lparr>point_x = 0, point_y = 0\<rparr>,
      relayer_fee_balance = 5, protocol_fee_balance = 6, bal_amount = a\<rparr>"

definition example_trade :: settlement_obligation where
  "example_trade = \<lparr>input_token = 1, output_token = 2, ob_amount_in = 40, ob_amount_out = 30\<rparr>"

definition example_rates :: fee_rates where
  "example_rates = \<lparr>relayer_fee_rate = example_fp (2 ^ 60), protocol_fee_rate = example_fp (2 ^ 60)\<rparr>"

definition example_share :: post_match_balance_share where
  "example_share = \<lparr>pm_relayer_fee_balance_share = 11, pm_protocol_fee_balance_share = 12, pm_amount_share = 13\<rparr>"

lemma example_fp_value: "n < 2 ^ 100 \<Longrightarrow> scalar_to_biguint (repr (example_fp n)) = n"
  by (simp add: example_fp_def scalar_to_biguint_to_scalar scalar_modulus_def)

lemma example_floor: "scalar_to_biguint (floor_mul_int (example_fp (2 ^ 62)) a) = unat a div 2" if "unat a < 2 ^ 100"
proof -
  have v: "scalar_to_biguint (repr (example_fp (2 ^ 62))) = 2 ^ 62" by (rule example_fp_value) simp
  have "scalar_to_biguint (repr (example_fp (2 ^ 62))) * unat a < scalar_modulus"
    unfolding v using that by (simp add: scalar_modulus_def)
  from floor_mul_int_exact [OF this] have "scalar_to_biguint (floor_mul_int (example_fp (2 ^ 62)) a) = 2 ^ 62 * unat a div 2 ^ 63"
    unfolding v by (simp add: fp_consts)
  then show ?thesis by simp
qed

lemma example_fees:
  "unat a < 2 ^ 100 \<Longrightarrow> unat (relayer_fee (compute_fee_take example_rates a)) = unat a div 8"
  "unat a < 2 ^ 100 \<Longrightarrow> unat (protocol_fee (compute_fee_take example_rates a)) = unat a div 8"
proof -
  have v: "scalar_to_biguint (repr (example_fp (2 ^ 60))) = 2 ^ 60" by (rule example_fp_value) simp
  assume "unat a < 2 ^ 100"
  then have a: "validate_amount_bitlength a" by (simp add: validate_amount_iff)
  have d: "2 ^ 60 * unat a div 2 ^ 63 = unat a div 8" by simp
  show "unat (relayer_fee (compute_fee_take example_rates a)) = unat a div 8"
    "unat (protocol_fee (compute_fee_take example_rates a)) = unat a div 8"
    using fee_take_values(1,2) [OF _ a, of example_rates] v d by (simp_all add: example_rates_def)
qed

lemma example_valid:
  "valid_intent (example_intent_of i j own)" "valid_obligation example_trade" "valid_obligation (mirrored example_trade)"
  "unat a < 2 ^ 100 \<Longrightarrow> valid_balance (example_balance_of i own a)" "valid_rates example_rates"
  using example_fp_value [of "2 ^ 62"] example_fp_value [of "2 ^ 60"]
  by (simp_all add: valid_intent_def example_intent_of_def validate_price_iff validate_amount_iff valid_obligation_def
      example_trade_def mirrored_def valid_balance_def example_balance_of_def valid_rates_def example_rates_def DEFAULT_FP_PRECISION_def)

lemmas example_simps = example_intent_of_def example_balance_of_def example_trade_def mirrored_def

lemma example_accepted0:
  "party_accepted (example_intent_of 1 2 3) (example_balance_of 1 3 50) (example_balance_of 2 3 10) example_trade
     (compute_fee_take example_rates (ob_amount_out example_trade))"
proof -
  have u: "unat (30 :: amount) = 30" "unat (40 :: amount) = 40" "unat (10 :: amount) = 10" "unat (5 :: amount) = 5" "unat (6 :: amount) = 6"
    by simp_all
  have f: "scalar_to_biguint (floor_mul_int (example_fp (2 ^ 62)) 40) = 20" using example_floor [of 40] u by simp
  have fees: "unat (relayer_fee (compute_fee_take example_rates 30)) = 3" "unat (protocol_fee (compute_fee_take example_rates 30)) = 3"
    using example_fees [of 30] u by simp_all
  have ob: "obligation_accepted (example_intent_of 1 2 3) example_trade"
    unfolding obligation_accepted_def example_simps intent.simps settlement_obligation.simps f by simp
  have rc: "receipt_accepted (example_intent_of 1 2 3) (example_balance_of 2 3 10) example_trade (compute_fee_take example_rates 30)"
    unfolding receipt_accepted_def fees by (simp add: example_simps AMOUNT_BITS_def)
  show ?thesis
    unfolding party_accepted_def using ob rc by (simp add: example_simps)
qed

lemma example_accepted1:
  "party_accepted (example_intent_of 2 1 4) (example_balance_of 2 4 60) (example_balance_of 1 4 0) (mirrored example_trade)
     (compute_fee_take example_rates (ob_amount_out (mirrored example_trade)))"
proof -
  have u: "unat (30 :: amount) = 30" "unat (40 :: amount) = 40" by simp_all
  have f: "scalar_to_biguint (floor_mul_int (example_fp (2 ^ 62)) 30) = 15" using example_floor [of 30] u by simp
  have fees: "unat (relayer_fee (compute_fee_take example_rates 40)) = 5" "unat (protocol_fee (compute_fee_take example_rates 40)) = 5"
    using example_fees [of 40] u by simp_all
  have ob: "obligation_accepted (example_intent_of 2 1 4) (mirrored example_trade)"
    unfolding obligation_accepted_def example_simps intent.simps settlement_obligation.simps f by simp
  have rc: "receipt_accepted (example_intent_of 2 1 4) (example_balance_of 1 4 0) (mirrored example_trade) (compute_fee_take example_rates 40)"
    unfolding receipt_accepted_def fees by (simp add: example_simps AMOUNT_BITS_def)
  show ?thesis
    unfolding party_accepted_def using ob rc by (simp add: example_simps)
qed

section \<open>Variables of the examples\<close>

text \<open>Records of variables numbered from a first one.\<close>

definition intent_at :: "nat \<Rightarrow> intent_var" where
  "intent_at n = \<lparr>iv_in_token = n, iv_out_token = n + 1, iv_owner = n + 2, iv_min_price = n + 3, iv_amount_in = n + 4\<rparr>"

definition balance_at :: "nat \<Rightarrow> balance_var" where
  "balance_at n =
     \<lparr>bv_mint = n, bv_owner = n + 1, bv_relayer_fee_recipient = n + 2, bv_authority_x = n + 3, bv_authority_y = n + 4,
      bv_relayer_fee_balance = n + 5, bv_protocol_fee_balance = n + 6, bv_amount = n + 7\<rparr>"

definition shares_at :: "nat \<Rightarrow> post_match_var" where
  "shares_at n = \<lparr>pv_relayer_fee_balance = n, pv_protocol_fee_balance = n + 1, pv_amount = n + 2\<rparr>"

definition obligation_at :: "nat \<Rightarrow> obligation_var" where
  "obligation_at n = \<lparr>ov_input_token = n, ov_output_token = n + 1, ov_amount_in = n + 2, ov_amount_out = n + 3\<rparr>"

definition public_witness_at :: "nat \<Rightarrow> public_settlement_witness" where
  "public_witness_at n =
     \<lparr>pw_intent = intent_at n, pw_amount_public_share = n + 5, pw_in_balance = balance_at (n + 6),
      pw_in_balance_shares = shares_at (n + 14), pw_out_balance = balance_at (n + 17), pw_out_balance_shares = shares_at (n + 25)\<rparr>"

definition public_statement_at :: "nat \<Rightarrow> public_settlement_statement" where
  "public_statement_at n =
     \<lparr>ps_obligation = obligation_at n, ps_amount_public_share = n + 4, ps_in_balance_public_shares = shares_at (n + 5),
      ps_out_balance_public_shares = shares_at (n + 8),
      ps_fee_rates = \<lparr>rv_relayer_fee_rate = n + 11, rv_protocol_fee_rate = n + 12\<rparr>, ps_relayer_fee_recipient = n + 13\<rparr>"

definition bounded_statement_at :: "nat \<Rightarrow> bounded_settlement_statement" where
  "bounded_statement_at n =
     \<lparr>bs_result = \<lparr>mv_input_token = n, mv_output_token = n + 1, mv_min_amount_in = n + 2, mv_max_amount_in = n + 3,
        mv_price = n + 4, mv_block_deadline = n + 5\<rparr>,
      bs_amount_public_share = n + 6, bs_in_balance_public_shares = shares_at (n + 7), bs_out_balance_public_shares = shares_at (n + 10),
      bs_internal_relayer_fee = n + 13, bs_external_relayer_fee = n + 14, bs_relayer_fee_recipient = n + 15\<rparr>"

definition party_at :: "nat \<Rightarrow> party_witness" where
  "party_at n =
     \<lparr>yw_obligation = obligation_at (n + 28), yw_intent = intent_at n, yw_amount_public_share = n + 5,
      yw_input_balance = balance_at (n + 6), yw_in_balance_shares = shares_at (n + 14),
      yw_output_balance = balance_at (n + 17), yw_out_balance_shares = shares_at (n + 25)\<rparr>"

definition party_statement_at :: "nat \<Rightarrow> party_statement" where
  "party_statement_at n =
     \<lparr>ys_new_amount_public_share = n, ys_new_in_balance_public_shares = shares_at (n + 1),
      ys_new_out_balance_public_shares = shares_at (n + 4)\<rparr>"

lemmas at_defs = intent_at_def balance_at_def shares_at_def obligation_at_def public_witness_at_def public_statement_at_def
  bounded_statement_at_def party_at_def party_statement_at_def

lemmas vars_defs = intent_vars_def balance_vars_def post_match_vars_def obligation_vars_def rates_vars_def bounded_match_vars_def
  public_witness_vars_def public_statement_vars_def bounded_statement_vars_def party_vars_def party_statement_vars_def

lemmas scalars_defs = intent_to_scalars_def balance_to_scalars_def post_match_share_to_scalars_def obligation_to_scalars_def
  rates_to_scalars_def bounded_match_to_scalars_def public_witness_to_scalars_def public_statement_to_scalars_def
  bounded_statement_to_scalars_def party_to_scalars_def settled_shares_def

definition example_public_witness :: public_witness where
  "example_public_witness =
     \<lparr>intent_val = example_intent_of 1 2 3, pre_settlement_amount_public_share = 7,
      in_balance = example_balance_of 1 3 50, pre_settlement_in_balance_shares = example_share,
      out_balance = example_balance_of 2 3 10, pre_settlement_out_balance_shares = example_share\<rparr>"

definition example_public_statement :: public_statement where
  "example_public_statement =
     \<lparr>settlement_obligation_val = example_trade, amount_public_share = 7, in_balance_public_shares = example_share,
      out_balance_public_shares = example_share, fee_rates_val = example_rates, recipient_val = 9\<rparr>"

lemma example_public_valid: "valid_public example_public_statement example_public_witness"
  using example_valid by (simp add: valid_public_def example_public_statement_def example_public_witness_def)

lemma example_public_accepted: "public_accepted example_public_statement example_public_witness"
  using example_accepted0
  by (simp add: public_accepted_def example_public_statement_def example_public_witness_def example_balance_of_def Let_def)

lemma mirror_obligation:
  assumes "mirror_rel w x y" "map w (obligation_vars x) = obligation_to_scalars a" "map w (obligation_vars y) = obligation_to_scalars b"
  shows "b = mirrored a"
proof -
  have "scalar_of_u128 (ob_amount_in b) = scalar_of_u128 (ob_amount_out a)" "scalar_of_u128 (ob_amount_out b) = scalar_of_u128 (ob_amount_in a)"
    "input_token b = output_token a" "output_token b = input_token a"
    using assms by (simp_all add: mirror_rel_def obligation_vars_def obligation_to_scalars_def)
  then show ?thesis by (metis mirrored_def scalar_u128_roundtrip settlement_obligation.surjective unit.exhaust)
qed

text \<open>The elements of the two parties of an example, and the state of the circuit that holds them.\<close>

definition example_state_intent :: "intent \<Rightarrow> state_intent" where
  "example_state_intent i =
     \<lparr>recovery_stream = \<lparr>seed = 1, index = 0\<rparr>, share_stream = \<lparr>seed = 2, index = 0\<rparr>, inner = i,
      public_share = \<lparr>in_token_share = 1, out_token_share = 2, owner_share = 3, min_price_share = 4, amount_in_share = 5\<rparr>\<rparr>"

definition example_state_balance :: "darkpool_balance \<Rightarrow> state_balance" where
  "example_state_balance b =
     \<lparr>recovery_stream = \<lparr>seed = 1, index = 0\<rparr>, share_stream = \<lparr>seed = 2, index = 0\<rparr>, inner = b,
      public_share = \<lparr>mint_share = 1, bal_owner_share = 2, relayer_fee_recipient_share = 3, authority_x_share = 4,
        authority_y_share = 5, relayer_fee_balance_share = 6, protocol_fee_balance_share = 7, bal_amount_share = 8\<rparr>\<rparr>"

definition example_party0 :: "state_intent \<times> state_balance \<times> state_balance" where
  "example_party0 = (example_state_intent (example_intent_of 1 2 3), example_state_balance (example_balance_of 1 3 50),
     example_state_balance (example_balance_of 2 3 10))"

definition example_party1 :: "state_intent \<times> state_balance \<times> state_balance" where
  "example_party1 = (example_state_intent (example_intent_of 2 1 4), example_state_balance (example_balance_of 2 4 60),
     example_state_balance (example_balance_of 1 4 0))"

definition example_private_witness :: private_settlement_witness where
  "example_private_witness = \<lparr>party0 = party_at 2, party1 = party_at 34\<rparr>"

definition example_private_statement :: private_settlement_statement where
  "example_private_statement =
     \<lparr>st_party0 = party_statement_at 66, st_party1 = party_statement_at 73, st_relayer_fee0 = 80, st_relayer_fee1 = 81,
      st_protocol_fee = 82\<rparr>"

definition example_private_start :: ref_cs where
  "example_private_start =
     (case example_party0 of (wi0, wb0, wo0) \<Rightarrow> case example_party1 of (wi1, wb1, wo1) \<Rightarrow>
      ref_start
       (party_to_scalars wi0 wb0 wo0 @ obligation_to_scalars example_trade @
        party_to_scalars wi1 wb1 wo1 @ obligation_to_scalars (mirrored example_trade) @
        settled_shares example_trade (compute_fee_take example_rates (ob_amount_out example_trade)) wi0 wb0 wo0 @
        settled_shares (mirrored example_trade) (compute_fee_take example_rates (ob_amount_out (mirrored example_trade))) wi1 wb1 wo1 @
        [repr (example_fp (2 ^ 60)), repr (example_fp (2 ^ 60)), repr (example_fp (2 ^ 60))]))"

definition example_known :: "(ref_cs \<Rightarrow> bool)" where
  "example_known c \<longleftrightarrow>
     (case example_party0 of (wi0, wb0, wo0) \<Rightarrow> case example_party1 of (wi1, wb1, wo1) \<Rightarrow>
      party_known ref_circuit c (party_at 2) (party_statement_at 66) example_trade
        (compute_fee_take example_rates (ob_amount_out example_trade)) wi0 wb0 wo0 \<and>
      party_known ref_circuit c (party_at 34) (party_statement_at 73) (mirrored example_trade)
        (compute_fee_take example_rates (ob_amount_out (mirrored example_trade))) wi1 wb1 wo1 \<and>
      vals ref_circuit c [80, 81, 82] [repr (example_fp (2 ^ 60)), repr (example_fp (2 ^ 60)), repr (example_fp (2 ^ 60))])"

lemma example_private_known: "example_known example_private_start"
proof -
  obtain wi0 wb0 wo0 where 0: "example_party0 = (wi0, wb0, wo0)" by (cases example_party0)
  obtain wi1 wb1 wo1 where 1: "example_party1 = (wi1, wb1, wo1)" by (cases example_party1)
  let ?f0 = "compute_fee_take example_rates (ob_amount_out example_trade)"
    and ?f1 = "compute_fee_take example_rates (ob_amount_out (mirrored example_trade))"
  let ?xs = "party_to_scalars wi0 wb0 wo0 @ obligation_to_scalars example_trade @
        party_to_scalars wi1 wb1 wo1 @ obligation_to_scalars (mirrored example_trade) @
        settled_shares example_trade ?f0 wi0 wb0 wo0 @ settled_shares (mirrored example_trade) ?f1 wi1 wb1 wo1 @
        [repr (example_fp (2 ^ 60)), repr (example_fp (2 ^ 60)), repr (example_fp (2 ^ 60))]"
  let ?vs = "party_vars (party_at 2) @ obligation_vars (yw_obligation (party_at 2)) @
        party_vars (party_at 34) @ obligation_vars (yw_obligation (party_at 34)) @
        party_statement_vars (party_statement_at 66) @ party_statement_vars (party_statement_at 73) @ [80, 81, 82]"
  have len: "length (party_vars y) = length (party_to_scalars wi wb wo)" "length (obligation_vars ov) = length (obligation_to_scalars ob)"
    "length (party_statement_vars s) = length (settled_shares ob f wi wb wo)" for y wi wb wo ov ob s f
    by (simp_all add: vars_defs scalars_defs)
  have "vals ref_circuit (ref_start ?xs) ?vs ?xs"
    by (rule ref_start_vals [of _ 83]) (simp_all add: vars_defs at_defs scalars_defs upt_rec_numeral)
  then show ?thesis
    unfolding example_known_def example_private_start_def 0 1 prod.case party_known_def by (simp only: vals_append len)
qed

lemma example_party_valid:
  "example_party0 = (wi0, wb0, wo0) \<Longrightarrow> valid_party wi0 wb0 wo0" "example_party1 = (wi1, wb1, wo1) \<Longrightarrow> valid_party wi1 wb1 wo1"
  using example_valid by (auto simp: example_party0_def example_party1_def valid_party_def example_state_intent_def example_state_balance_def)

lemma example_inner:
  "example_party0 = (wi, wb, wo) \<Longrightarrow>
     inner wi = example_intent_of 1 2 3 \<and> inner wb = example_balance_of 1 3 50 \<and> inner wo = example_balance_of 2 3 10"
  "example_party1 = (wi, wb, wo) \<Longrightarrow>
     inner wi = example_intent_of 2 1 4 \<and> inner wb = example_balance_of 2 4 60 \<and> inner wo = example_balance_of 1 4 0"
  by (auto simp: example_party0_def example_party1_def example_state_intent_def example_state_balance_def)

lemma example_private_honest: "honest ref_circuit ref_sat example_private_start"
  by (simp add: example_private_start_def ref_start_honest split: prod.split)

lemma example_private_run:
  "\<exists>c'. intent_and_balance_private_settlement ref_circuit example_private_statement example_private_witness example_private_start =
      Some (Inr ((), c')) \<and> extends ref_circuit example_private_start c' \<and> honest ref_circuit ref_sat c'"
proof -
  obtain wi0 wb0 wo0 where 0: "example_party0 = (wi0, wb0, wo0)" by (cases example_party0)
  obtain wi1 wb1 wo1 where 1: "example_party1 = (wi1, wb1, wo1)" by (cases example_party1)
  note fields = example_private_statement_def example_private_witness_def private_settlement_statement.simps private_settlement_witness.simps
  have "completes ref_circuit ref_sat (intent_and_balance_private_settlement ref_circuit example_private_statement example_private_witness)
      example_private_start (\<lambda>_ _. True)"
    by (rule ref.private_complete [where ?r0.0 = "example_fp (2 ^ 60)" and ?r1.0 = "example_fp (2 ^ 60)" and pr = "example_fp (2 ^ 60)"
          and ob = example_trade and ?wi0.0 = wi0 and ?wb0.0 = wb0 and ?wo0.0 = wo0 and ?wi1.0 = wi1 and ?wb1.0 = wb1 and ?wo1.0 = wo1,
          folded example_rates_def, unfolded fields])
      (use example_private_known example_party_valid(1) [OF 0] example_party_valid(2) [OF 1] example_valid(2,5) example_accepted0 example_accepted1
        in \<open>simp_all only: example_known_def 0 1 prod.case example_inner(1) [OF 0] example_inner(2) [OF 1] fields\<close>)
  then show ?thesis using example_private_honest by (auto simp: completes_def)
qed

definition example_bounded_match :: bounded_match_result where
  "example_bounded_match =
     \<lparr>internal_party_input_token = 1, internal_party_output_token = 2, min_internal_party_amount_in = 10,
      max_internal_party_amount_in = 40, bounded_price = example_fp (2 ^ 62), block_deadline = 0\<rparr>"

definition example_bounded_statement :: bounded_statement where
  "example_bounded_statement =
     \<lparr>bounded_match_result_val = example_bounded_match, bst_amount_public_share = 7, bst_in_balance_public_shares = example_share,
      bst_out_balance_public_shares = example_share, internal_relayer_fee = example_fp 0, external_relayer_fee = example_fp 0,
      bst_relayer_fee_recipient = 9\<rparr>"

definition example_bounded_start :: ref_cs where
  "example_bounded_start =
     ref_start (public_witness_to_scalars example_public_witness @ bounded_statement_to_scalars example_bounded_statement)"

lemma example_bounded_valid: "valid_bounded example_bounded_match"
  using example_fp_value [of "2 ^ 62"] by (simp add: valid_bounded_def example_bounded_match_def validate_price_iff validate_amount_iff)

lemma example_bounded_accepted:
  "bounded_accepted (intent_val example_public_witness) (in_balance example_public_witness) (out_balance example_public_witness)
     example_bounded_match"
proof -
  have "unat (40 :: amount) = 40" by simp
  then have "scalar_to_biguint (floor_mul_int (example_fp (2 ^ 62)) 40) = 20" using example_floor [of 40] by simp
  then have "unat (10 :: amount) + scalar_to_biguint (floor_mul_int (bounded_price example_bounded_match) (max_internal_party_amount_in example_bounded_match)) < 2 ^ 100"
    unfolding example_bounded_match_def bounded_match_result.simps by simp
  then show ?thesis
    unfolding bounded_accepted_def AMOUNT_BITS_def example_public_witness_def public_witness.simps
    by (simp add: example_simps example_bounded_match_def)
qed

lemma example_bounded_vals:
  "vals ref_circuit example_bounded_start (public_witness_vars (public_witness_at 2)) (public_witness_to_scalars example_public_witness)"
  "vals ref_circuit example_bounded_start (bounded_statement_vars (bounded_statement_at 30)) (bounded_statement_to_scalars example_bounded_statement)"
proof -
  let ?xs = "public_witness_to_scalars example_public_witness" and ?ys = "bounded_statement_to_scalars example_bounded_statement"
  have "vals ref_circuit (ref_start (?xs @ ?ys)) (public_witness_vars (public_witness_at 2) @ bounded_statement_vars (bounded_statement_at 30))
      (?xs @ ?ys)"
    by (rule ref_start_vals [of _ 46]) (simp_all add: vars_defs at_defs scalars_defs upt_rec_numeral)
  moreover have "length (public_witness_vars (public_witness_at 2)) = length ?xs" by (simp add: vars_defs scalars_defs)
  ultimately show "vals ref_circuit example_bounded_start (public_witness_vars (public_witness_at 2)) ?xs"
    "vals ref_circuit example_bounded_start (bounded_statement_vars (bounded_statement_at 30)) ?ys"
    unfolding example_bounded_start_def by (simp_all only: vals_append)
qed

lemma example_public_valid_parts:
  "valid_intent (intent_val example_public_witness)" "valid_balance (in_balance example_public_witness)"
  using example_public_valid by (simp_all add: valid_public_def)

lemma example_bounded_run:
  "\<exists>c'. intent_and_balance_bounded_settlement ref_circuit (bounded_statement_at 30) (public_witness_at 2) example_bounded_start =
      Some (Inr ((), c')) \<and> extends ref_circuit example_bounded_start c' \<and> honest ref_circuit ref_sat c'"
proof -
  have "bounded_match_result_val example_bounded_statement = example_bounded_match" by (simp add: example_bounded_statement_def)
  then have "completes ref_circuit ref_sat (intent_and_balance_bounded_settlement ref_circuit (bounded_statement_at 30) (public_witness_at 2))
      example_bounded_start (\<lambda>_ _. True)"
    using example_bounded_valid example_bounded_accepted
    by (intro ref.bounded_complete [OF example_bounded_vals example_public_valid_parts])
      (simp_all add: example_bounded_statement_def example_public_witness_def example_balance_of_def)
  moreover have "honest ref_circuit ref_sat example_bounded_start" by (simp add: example_bounded_start_def ref_start_honest)
  ultimately show ?thesis by (auto simp: completes_def)
qed

section \<open>Integers the fixed point gadgets accept\<close>

text \<open>The inverse of the fixed point unit in the field, and an integer that leaves any remainder.\<close>

definition TWO_TO_M_INV :: scalar where
  "TWO_TO_M_INV = of_nat 11437060649125912278440144565459790791608412322157352952724393619486497692825"

definition quotient_leaving :: "nat \<Rightarrow> scalar \<Rightarrow> scalar" where
  "quotient_leaving d x = (x - of_nat d) * TWO_TO_M_INV"

lemma TWO_TO_M_INV: "TWO_TO_M_SCALAR * TWO_TO_M_INV = 1"
proof -
  let ?n = "11437060649125912278440144565459790791608412322157352952724393619486497692825 :: nat"
  have "TWO_TO_M_SCALAR * TWO_TO_M_INV = of_nat (2 ^ 63 * ?n)" by (simp only: TWO_TO_M_nat TWO_TO_M_INV_def of_nat_mult)
  moreover have "scalar_to_biguint (of_nat (2 ^ 63 * ?n)) = scalar_to_biguint (1 :: scalar)"
    by (simp only: scalar_to_biguint_of_nat scalar_modulus_def) (simp add: scalar_modulus_def)
  ultimately show ?thesis by (simp only: scalar_eq_iff)
qed

lemma quotient_leaving: "x - TWO_TO_M_SCALAR * quotient_leaving d x = of_nat d"
  unfolding quotient_leaving_def mult.left_commute [of TWO_TO_M_SCALAR] TWO_TO_M_INV by simp

lemma quotient_not_floor:
  assumes "d < 2 ^ 63" "d \<noteq> scalar_to_biguint x mod 2 ^ 63"
  shows "quotient_leaving d x \<noteq> fp_floor (FixedPoint x)"
proof
  let ?r = "scalar_to_biguint x mod 2 ^ 63"
  assume "quotient_leaving d x = fp_floor (FixedPoint x)"
  then have q: "quotient_leaving d x = of_nat (scalar_to_biguint x div 2 ^ 63)" by (simp add: fp_floor_scalar)
  have "x = of_nat (2 ^ 63 * (scalar_to_biguint x div 2 ^ 63) + ?r)" by (simp add: scalar_of_nat)
  then have "x = TWO_TO_M_SCALAR * quotient_leaving d x + of_nat ?r" unfolding q TWO_TO_M_nat of_nat_add of_nat_mult .
  then have "of_nat d = (of_nat ?r :: scalar)" using quotient_leaving [of x d] by (metis add_diff_cancel_left')
  moreover have "?r < 2 ^ 63" by simp
  ultimately show False using scalar_small_inj [of d ?r] assms by simp
qed

section \<open>Properties\<close>

text \<open>
  C6. The public settlement circuit is exact. Whatever assignment satisfies the gates, if the
  statement and witness variables hold values within their bit lengths, then the settlement
  meets the native conditions: the obligation is within the intent's amount and price, the input
  balance covers it, the output balance is the owner's and has room for the amount net of the
  natively computed fees, and the published shares are those of the witness. Conversely a prover
  whose values meet the conditions builds the circuit without an error and satisfies it.
\<close>

theorem public_settlement_exact:
  assumes contract: "circuit_contract P sat" and v: "valid_public st wit"
  shows "(\<forall>c c' w. intent_and_balance_public_settlement P sv wv c = Some (Inr ((), c')) \<longrightarrow> sat c' w \<longrightarrow>
            map w (public_witness_vars wv) = public_witness_to_scalars wit \<longrightarrow>
            map w (public_statement_vars sv) = public_statement_to_scalars st \<longrightarrow> public_accepted st wit) \<and>
         (\<forall>c. honest P sat c \<longrightarrow> vals P c (public_witness_vars wv) (public_witness_to_scalars wit) \<longrightarrow>
            vals P c (public_statement_vars sv) (public_statement_to_scalars st) \<longrightarrow> public_accepted st wit \<longrightarrow>
            (\<exists>c'. intent_and_balance_public_settlement P sv wv c = Some (Inr ((), c')) \<and> honest P sat c'))"
  using circuit_contract.public_sound [OF contract _ _ _ _ v] circuit_contract.public_complete [OF contract _ _ v]
  by (fastforce simp: completes_def)

theorem public_settlement_exact_witness:
  "\<exists>c'. intent_and_balance_public_settlement ref_circuit (public_statement_at 30) (public_witness_at 2)
      (ref_start (public_witness_to_scalars example_public_witness @ public_statement_to_scalars example_public_statement)) =
      Some (Inr ((), c')) \<and> honest ref_circuit ref_sat c'"
proof -
  let ?xs = "public_witness_to_scalars example_public_witness" and ?ys = "public_statement_to_scalars example_public_statement"
  have "vals ref_circuit (ref_start (?xs @ ?ys)) (public_witness_vars (public_witness_at 2) @ public_statement_vars (public_statement_at 30))
      (?xs @ ?ys)"
    by (rule ref_start_vals [of _ 44]) (simp_all add: vars_defs at_defs scalars_defs upt_rec_numeral)
  then have "vals ref_circuit (ref_start (?xs @ ?ys)) (public_witness_vars (public_witness_at 2)) ?xs"
      "vals ref_circuit (ref_start (?xs @ ?ys)) (public_statement_vars (public_statement_at 30)) ?ys"
    by (simp_all add: vals_append vars_defs scalars_defs)
  then show ?thesis
    using public_settlement_exact [OF ref.circuit_contract_axioms example_public_valid] example_public_accepted ref_start_honest by blast
qed

text \<open>
  C5. A private settlement proof is a settlement of two mirrored obligations. Whatever assignment
  satisfies the gates, if the linked variables hold the state elements of the two parties, then
  there is an obligation, hidden in the witness, that the first party settles and whose mirror
  image the second party settles: both meet the native conditions with the natively computed
  fees, and the new public shares in the statement are exactly those of the native updates of
  the two intents and the four balances.
\<close>

theorem private_settlement_refines:
  assumes contract: "circuit_contract P sat"
    and run: "intent_and_balance_private_settlement P st wit c = Some (Inr ((), c'))" "sat c' w"
    and held: "map w (party_vars (party0 wit)) = party_to_scalars wi0 wb0 wo0"
      "map w (party_vars (party1 wit)) = party_to_scalars wi1 wb1 wo1"
      "w (st_relayer_fee0 st) = repr (relayer_fee_rate r0)" "w (st_relayer_fee1 st) = repr (relayer_fee_rate r1)"
      "w (st_protocol_fee st) = repr (protocol_fee_rate r0)" "protocol_fee_rate r1 = protocol_fee_rate r0"
    and v: "valid_party wi0 wb0 wo0" "valid_party wi1 wb1 wo1" "valid_rates r0" "valid_rates r1"
  shows "\<exists>ob. let f0 = compute_fee_take r0 (ob_amount_out ob); f1 = compute_fee_take r1 (ob_amount_out (mirrored ob)) in
    map w (obligation_vars (yw_obligation (party0 wit))) = obligation_to_scalars ob \<and>
    map w (obligation_vars (yw_obligation (party1 wit))) = obligation_to_scalars (mirrored ob) \<and>
    party_accepted (inner wi0) (inner wb0) (inner wo0) ob f0 \<and>
    party_accepted (inner wi1) (inner wb1) (inner wo1) (mirrored ob) f1 \<and>
    map w (party_statement_vars (st_party0 st)) = settled_shares ob f0 wi0 wb0 wo0 \<and>
    map w (party_statement_vars (st_party1 st)) = settled_shares (mirrored ob) f1 wi1 wb1 wo1"
proof -
  let ?y0 = "party0 wit" and ?y1 = "party1 wit"
  have rel: "mirror_rel w (yw_obligation ?y0) (yw_obligation ?y1)"
    "private_rel w (st_relayer_fee0 st) (st_protocol_fee st) ?y0 (st_party0 st)"
    "private_rel w (st_relayer_fee1 st) (st_protocol_fee st) ?y1 (st_party1 st)"
    using soundD [OF circuit_contract.private_settlement_sound [OF contract] run] by blast+
  have am: "valid (w (ov_amount_in (yw_obligation ?y0)))" "valid (w (ov_amount_out (yw_obligation ?y0)))"
    "valid (w (ov_amount_in (yw_obligation ?y1)))" "valid (w (ov_amount_out (yw_obligation ?y1)))"
    using rel(1) by (simp_all add: mirror_rel_def)
  note p0 = private_party_sound [OF rel(2) held(1,3,5) v(1,3) am(1,2)]
  note p1 = private_party_sound [OF rel(3) held(2,4) held(5) [folded held(6)] v(2,4) am(3,4)]
  have m: "obligation_of w (yw_obligation ?y1) (inner wi1) = mirrored (obligation_of w (yw_obligation ?y0) (inner wi0))"
    by (rule mirror_obligation [OF rel(1) p0(1) p1(1)])
  show ?thesis
    unfolding Let_def using p0 p1 unfolding m by blast
qed

theorem private_settlement_refines_witness:
  "\<exists>c' w. intent_and_balance_private_settlement ref_circuit example_private_statement example_private_witness example_private_start =
      Some (Inr ((), c')) \<and> ref_sat c' w \<and>
    (\<exists>ob. map w (obligation_vars (obligation_at 30)) = obligation_to_scalars ob \<and>
       map w (obligation_vars (obligation_at 62)) = obligation_to_scalars (mirrored ob))"
proof -
  obtain wi0 wb0 wo0 where 0: "example_party0 = (wi0, wb0, wo0)" by (cases example_party0)
  obtain wi1 wb1 wo1 where 1: "example_party1 = (wi1, wb1, wo1)" by (cases example_party1)
  obtain c' where c': "intent_and_balance_private_settlement ref_circuit example_private_statement example_private_witness
      example_private_start = Some (Inr ((), c'))" "extends ref_circuit example_private_start c'" "honest ref_circuit ref_sat c'"
    using example_private_run by blast
  let ?w = "ref_assignment c'"
  have k: "vals ref_circuit example_private_start (party_vars (party_at 2)) (party_to_scalars wi0 wb0 wo0)"
    "vals ref_circuit example_private_start (party_vars (party_at 34)) (party_to_scalars wi1 wb1 wo1)"
    "vals ref_circuit example_private_start [80, 81, 82] [repr (example_fp (2 ^ 60)), repr (example_fp (2 ^ 60)), repr (example_fp (2 ^ 60))]"
    using example_private_known unfolding example_known_def 0 1 prod.case party_known_def by blast+
  note held = k [THEN ref_assignment_vals, OF c'(2)]
  note fields = example_private_statement_def example_private_witness_def private_settlement_statement.simps private_settlement_witness.simps
  have "\<exists>ob. map ?w (obligation_vars (yw_obligation (party_at 2))) = obligation_to_scalars ob \<and>
      map ?w (obligation_vars (yw_obligation (party_at 34))) = obligation_to_scalars (mirrored ob)"
    using private_settlement_refines [OF ref.circuit_contract_axioms c'(1) ref_assignment_sat [OF c'(3)],
        where ?r0.0 = example_rates and ?r1.0 = example_rates, unfolded fields, OF held(1,2)] held(3)
      example_party_valid(1) [OF 0] example_party_valid(2) [OF 1] example_valid(5)
    by (auto simp: example_rates_def Let_def)
  then show ?thesis using c' ref_assignment_sat by (auto simp: party_at_def)
qed

text \<open>
  C35. Every private settlement that meets the native conditions can be proved: when the circuit
  holds the elements of two parties that accept an obligation and its mirror image, and the
  shares of the native updates as the statement, building the circuit neither fails nor panics
  and the prover's assignment satisfies every gate.
\<close>

theorem private_settlement_provable:
  assumes contract: "circuit_contract P sat" and h: "honest P sat c"
    and k: "party_known P c (party0 wit) (st_party0 st) ob (compute_fee_take r0 (ob_amount_out ob)) wi0 wb0 wo0"
      "party_known P c (party1 wit) (st_party1 st) (mirrored ob) (compute_fee_take r1 (ob_amount_out (mirrored ob))) wi1 wb1 wo1"
      "vals P c [st_relayer_fee0 st, st_relayer_fee1 st, st_protocol_fee st]
        [repr (relayer_fee_rate r0), repr (relayer_fee_rate r1), repr (protocol_fee_rate r0)]"
      "protocol_fee_rate r1 = protocol_fee_rate r0"
    and v: "valid_party wi0 wb0 wo0" "valid_party wi1 wb1 wo1" "valid_obligation ob" "valid_rates r0" "valid_rates r1"
    and acc: "party_accepted (inner wi0) (inner wb0) (inner wo0) ob (compute_fee_take r0 (ob_amount_out ob))"
      "party_accepted (inner wi1) (inner wb1) (inner wo1) (mirrored ob) (compute_fee_take r1 (ob_amount_out (mirrored ob)))"
  shows "\<exists>c'. intent_and_balance_private_settlement P st wit c = Some (Inr ((), c')) \<and> extends P c c' \<and> honest P sat c'"
proof -
  have r: "r0 = \<lparr>relayer_fee_rate = relayer_fee_rate r0, protocol_fee_rate = protocol_fee_rate r0\<rparr>"
    "r1 = \<lparr>relayer_fee_rate = relayer_fee_rate r1, protocol_fee_rate = protocol_fee_rate r0\<rparr>"
    using k(4) by simp_all
  have "completes P sat (intent_and_balance_private_settlement P st wit) c (\<lambda>_ _. True)"
    by (rule circuit_contract.private_complete [OF contract, where ?r0.0 = "relayer_fee_rate r0" and ?r1.0 = "relayer_fee_rate r1"
          and pr = "protocol_fee_rate r0" and ob = ob, folded r]) (use k(1-3) v acc in simp_all)
  then show ?thesis using h by (auto simp: completes_def)
qed

theorem private_settlement_provable_witness:
  "\<exists>c'. intent_and_balance_private_settlement ref_circuit example_private_statement example_private_witness example_private_start =
      Some (Inr ((), c')) \<and> extends ref_circuit example_private_start c' \<and> honest ref_circuit ref_sat c'"
proof -
  obtain wi0 wb0 wo0 where 0: "example_party0 = (wi0, wb0, wo0)" by (cases example_party0)
  obtain wi1 wb1 wo1 where 1: "example_party1 = (wi1, wb1, wo1)" by (cases example_party1)
  show ?thesis
    by (rule private_settlement_provable [OF ref.circuit_contract_axioms example_private_honest, where ?r0.0 = example_rates and ?r1.0 = example_rates
          and ob = example_trade and ?wi0.0 = wi0 and ?wb0.0 = wb0 and ?wo0.0 = wo0 and ?wi1.0 = wi1 and ?wb1.0 = wb1 and ?wo1.0 = wo1])
      (use example_private_known example_party_valid(1) [OF 0] example_party_valid(2) [OF 1] example_valid(2,5) example_accepted0 example_accepted1
        in \<open>simp_all only: example_known_def 0 1 prod.case example_inner(1) [OF 0] example_inner(2) [OF 1] example_private_statement_def example_private_witness_def
          private_settlement_statement.simps private_settlement_witness.simps example_rates_def fee_rates.simps\<close>)
qed

text \<open>
  C7. A bounded settlement proof covers every size. Whatever assignment satisfies the gates, if
  the variables hold values within their bit lengths, then for every input amount up to the
  bound the obligation of the internal party at the fixed price is within the intent's amount
  and price, is covered by the input balance, and fits in the output balance, which is of the
  right token and owner.
\<close>

theorem bounded_settlement_covers_fills:
  assumes contract: "circuit_contract P sat"
    and run: "intent_and_balance_bounded_settlement P sv wv c = Some (Inr ((), c'))" "sat c' w"
    and held: "map w (public_witness_vars wv) = public_witness_to_scalars wit"
      "map w (bounded_statement_vars sv) = bounded_statement_to_scalars st"
    and v: "valid_intent (intent_val wit)" "valid_balance (in_balance wit)" "valid_bounded (bounded_match_result_val st)"
    and a: "a \<le> max_internal_party_amount_in (bounded_match_result_val st)"
  shows "let ob = to_internal_obligation (bounded_match_result_val st) a in
    obligation_accepted (intent_val wit) ob \<and> ob_amount_in ob \<le> bal_amount (in_balance wit) \<and>
    mint (out_balance wit) = output_token ob \<and> bal_owner (out_balance wit) = owner (intent_val wit) \<and>
    unat (bal_amount (out_balance wit)) + unat (ob_amount_out ob) < 2 ^ AMOUNT_BITS"
  using bounded_fill [OF circuit_contract.bounded_sound(1) [OF contract run held v] v(3) a] by (simp add: Let_def)

theorem bounded_settlement_covers_fills_witness:
  "obligation_accepted (intent_val example_public_witness) (to_internal_obligation example_bounded_match 25)"
proof -
  obtain c' where c': "intent_and_balance_bounded_settlement ref_circuit (bounded_statement_at 30) (public_witness_at 2)
      example_bounded_start = Some (Inr ((), c'))" "extends ref_circuit example_bounded_start c'" "honest ref_circuit ref_sat c'"
    using example_bounded_run by blast
  have m: "bounded_match_result_val example_bounded_statement = example_bounded_match" by (simp add: example_bounded_statement_def)
  note held = example_bounded_vals [THEN ref_assignment_vals, OF c'(2)]
  show ?thesis
    using bounded_settlement_covers_fills [OF ref.circuit_contract_axioms c'(1) ref_assignment_sat [OF c'(3)] held
        example_public_valid_parts, of 25] example_bounded_valid
    unfolding m by (simp add: Let_def example_bounded_match_def)
qed

text \<open>
  C36. The floor gadget alone does not determine the floor. For every remainder below the fixed
  point unit there is an integer of the field that the gadget accepts for a given fixed point
  value, and unless the remainder is the fraction of the value this integer is not its floor.
  The circuits that use the gadget must bound the integer, as the settlement circuits do.
\<close>

theorem floor_gadget_underconstrained:
  assumes contract: "circuit_contract P sat" and h: "honest P sat c"
    and c: "val P c fp = Some x" "val P c i = Some (quotient_leaving d x)" and d: "d < 2 ^ 63" "d \<noteq> scalar_to_biguint x mod 2 ^ 63"
  shows "(\<exists>c'. constrain_equal_floor P fp i c = Some (Inr ((), c')) \<and> honest P sat c') \<and>
    quotient_leaving d x \<noteq> fp_floor (FixedPoint x)"
  using circuit_contract.equal_floor_accepts [OF contract c quotient_leaving d(1)] h quotient_not_floor [OF d]
  by (auto simp: completes_def)

theorem floor_gadget_underconstrained_witness:
  "\<exists>c'. constrain_equal_floor ref_circuit 2 3 (ref_start [0, quotient_leaving 1 0]) = Some (Inr ((), c')) \<and>
     honest ref_circuit ref_sat c' \<and> quotient_leaving 1 0 \<noteq> fp_floor (FixedPoint 0)"
  using floor_gadget_underconstrained [OF ref.circuit_contract_axioms ref_start_honest [of "[0, quotient_leaving 1 0]"], of 2 0 3 1]
  by (auto simp: ref_val ref_start_def)

text \<open>
  C37. The equality gadget that ignores the fraction accepts the next integer of an exact one: a
  fixed point value that is the integer \<open>n\<close> passes as equal to \<open>n + 1\<close>, because the difference is
  checked in one bit more than the fraction has.
\<close>

theorem ignore_fraction_accepts_next:
  assumes contract: "circuit_contract P sat" and h: "honest P sat c"
    and c: "val P c lhs = Some (TWO_TO_M_SCALAR * of_nat n)" "val P c rhs = Some (of_nat (n + 1))"
  shows "\<exists>c'. constrain_equal_integer_ignore_fraction P lhs rhs c = Some (Inr ((), c')) \<and> honest P sat c'"
proof -
  have "TWO_TO_M_SCALAR - 1 - (TWO_TO_M_SCALAR * of_nat n - TWO_TO_M_SCALAR * of_nat (n + 1)) = 2 * TWO_TO_M_SCALAR - 1"
    by (simp add: algebra_simps)
  also have "\<dots> = of_nat (2 ^ 64 - 1)" unfolding TWO_TO_M_nat by simp
  finally have "completes P sat (constrain_equal_integer_ignore_fraction P lhs rhs) c (\<lambda>_ _. True)"
    using c by (intro circuit_contract.ignore_fraction_accepts [OF contract, where d = "2 ^ 64 - 1"]) simp_all
  then show ?thesis using h by (auto simp: completes_def)
qed

theorem ignore_fraction_accepts_next_witness:
  "\<exists>c'. constrain_equal_integer_ignore_fraction ref_circuit 2 3 (ref_start [TWO_TO_M_SCALAR * of_nat 5, of_nat (5 + 1)]) =
     Some (Inr ((), c')) \<and> honest ref_circuit ref_sat c'"
  by (rule ignore_fraction_accepts_next [where n = 5, OF ref.circuit_contract_axioms ref_start_honest]) (simp_all add: ref_val ref_start_def)

end
