(* ===== verification/Spec2Isabelle.thy ===== *)
theory Spec2Isabelle
  imports Snapshot_Recovery Circuit_Properties
begin

text \<open>
  A verification library for the relayer of a dark pool. The relayer keeps the accounts, orders
  and balances of its users in a replicated database, matches orders in an in-memory engine that
  caches the database, runs tasks that settle the matches, and replicates every change of state
  with a raft log. The theories follow this structure, from the arithmetic up to the replicated
  state machine. Paths below are relative to \<open>src/crates\<close>.

  \<^bold>\<open>Conventions.\<close> A \<open>Result\<close> of the code is a sum whose left side is the error, the
  question mark operator is \<open>and_then\<close>, a loop with early returns is \<open>try_fold\<close>, and a panic is
  \<open>None\<close>. Fixed width integers are words, field elements are integers modulo the field order
  with the reductions written out. Stateful code is a function from state to state. Functions of third party
  crates (permit hashes and signers, printing of identifiers, the storage engine's cursor, the
  constraint system of the proof library) are arguments of the definitions, with their documented
  contracts as locale assumptions.

  \<^bold>\<open>Arithmetic and cryptography.\<close>
  \<^item> \<open>Prelude\<close>: the result monad, loops, vectors, and the locale \<open>invariant_system\<close>, which
    carries an invariant along every run of a step relation. All state machines below are
    interpretations of it.
  \<^item> \<open>Scalar_Field\<close>, \<open>Fixed_Point\<close>: \<open>crypto/src/fields.rs\<close> and
    \<open>circuits/circuit-types/src/primitives/fixed_point.rs\<close>. Rounding is exact within the
    protocol's bit lengths and nothing wraps in the field; the order on numbers is the order of
    values except on two negative numbers.
  \<^item> \<open>Poseidon2\<close>: \<open>crypto/src/hash\<close>. The incremental sponge implements the block-wise sponge
    and never panics; the linear layers are the specified matrices.
  \<^item> \<open>State_Wrapper\<close>: \<open>darkpool-types/src/state_wrapper.rs\<close> and \<open>csprng.rs\<close>. New wrappers
    open to their element, the peeking functions agree with the mutating ones, and partial
    commitments complete to full ones. The locale \<open>secret_share\<close> is the contract of shared types.
  \<^item> \<open>Settlement\<close>: intents, balances, fees, obligations of \<open>darkpool-types\<close>. A settlement moves
    exactly the obligation's amounts.

  \<^bold>\<open>Orders and matching.\<close>
  \<^item> \<open>Account_Types\<close>: pairs, orders, rings, balances, keychains and accounts of
    \<open>relayer-types/types-account\<close>.
  \<^item> \<open>Ordered_Set\<close>, \<open>Book\<close>, \<open>Matching_Engine\<close>: \<open>workers/matching-engine/matching-engine-core\<close>.
    A book is a hash map with a sorted set of keys; \<open>ordered_set\<close> and \<open>order_book\<close> are the
    contracts of the two levels. A query returns the best eligible order, reported matches
    respect both parties' limits, reservations never overcommit, and the all-pools view agrees
    with the views of the pools.

  \<^bold>\<open>Tasks.\<close>
  \<^item> \<open>Task_Types\<close>, \<open>Task_Queue\<close>: \<open>relayer-types/types-tasks\<close> and
    \<open>state/src/storage/tx/task_queue/queue_type.rs\<close>. A queue is a readers-writer lock.
  \<^item> \<open>Task_Storage\<close>, \<open>Task_Consistency\<close>: \<open>storage.rs\<close>, \<open>task_assignments.rs\<close>,
    \<open>task_history.rs\<close>, and the invariant across queues, tasks, assignments and the lists of
    deferred settlements. A serial preemption takes all its queues or none.
  \<^item> \<open>Applicator_Types\<close>, \<open>Task_Applicator\<close>: \<open>state/src/applicator/task_queue.rs\<close>. In every
    reachable state a task is marked running exactly when it holds all its queues, a pop with its
    completion hook returns, and deferred settlements cannot deadlock. The hook's loop is fuelled
    by the number of pending entries plus one: every round but the last removes an entry.

  \<^bold>\<open>Storage and accounts.\<close>
  \<^item> \<open>Storage_Table\<close>, \<open>Raft_Log\<close>: \<open>state/src/storage/cursor.rs\<close>, \<open>tx/raft_log.rs\<close> and
    \<open>replication/log_store.rs\<close>, over the locales \<open>mdbx_cursor\<close>, \<open>byte_cursor\<close> and
    \<open>log_cursor_contract\<close>. A prefix scan returns exactly the entries with the prefix, and the
    log store refines a finite map from indices to entries.
  \<^item> \<open>Account_Storage\<close>: \<open>tx/account_index.rs\<close>, \<open>matching_pools.rs\<close>, \<open>order_auth.rs\<close>, \<open>proofs.rs\<close>,
    \<open>merkle_proofs.rs\<close>, and the well-formedness of the tables.
  \<^item> \<open>Account_Applicator\<close>, \<open>Account_Refresh\<close>: every account transition of
    \<open>state/src/applicator\<close> with its engine updates and messages, and that each keeps the tables
    well formed and the engine a cache of them.
  \<^item> \<open>Account_Machine\<close>: all runs of account transitions, reservations and queries. What the
    engine offers is stored and covered by the balance; a refresh never raises a stored order's
    remaining amount; moving an order to a pool without a book, and removing a partially filled
    public order, leave stale index entries.

  \<^bold>\<open>Replication.\<close>
  \<^item> \<open>State_Machine\<close>: \<open>state_transition.rs\<close>, the dispatch of \<open>applicator/mod.rs\<close>,
    \<open>notifications.rs\<close> and the log application of \<open>replication/state_machine/mod.rs\<close>. Applying
    a log runs its transitions in order, account transitions never stop it, and every
    registered proposal is answered once.
  \<^item> \<open>Snapshot_Recovery\<close>: \<open>snapshot.rs\<close> and \<open>recovery.rs\<close>. Recovery restores the state a
    snapshot was taken of; installing a snapshot on a running node keeps stale engine entries.

  \<^bold>\<open>Settlement circuits.\<close> A gadget is a computation that extends a constraint system. It is
  \<open>sound\<close> when every assignment that satisfies the added gates has the gadget's relation, and it
  \<open>completes\<close> when it neither fails nor panics and the prover's own assignment satisfies them.
  \<^item> \<open>Circuit_Builder\<close>: the interface of the constraint system as a record, its contract as the
    locale \<open>circuit_contract\<close>, the rules for composing gadgets, and a reference system that
    interprets the locale, which the concrete instances of the theorems run on.
  \<^item> \<open>Circuit_Gadgets\<close>: \<open>circuits/circuits-core/src/zk_gadgets/primitives\<close>: bits, comparisons,
    selection, division, powers, fixed point numbers and bit lengths, with soundness and
    completeness. The floor gadget fixes the floor only together with a bound on it.
  \<^item> \<open>Circuit_Settlement\<close>: the fee gadget of \<open>state_gadgets/fee.rs\<close>, \<open>settlement_lib.rs\<close> and the
    five circuits of \<open>zk_circuits/settlement\<close>; the relations their gates enforce, and what these
    say of native values within the protocol's bit lengths.
  \<^item> \<open>Circuit_Acceptance\<close>, \<open>Circuit_Bounded\<close>: statements and witnesses, the native conditions of
    a settlement, and that the circuits are satisfied exactly under them.
  \<^item> \<open>Circuit_Properties\<close>: a public settlement is provable exactly when it meets the native
    conditions; a private one settles two mirrored obligations and publishes the shares of the
    native updates of \<open>Settlement\<close>; a bounded one covers every size up to its bound. Bit lengths
    of linked values are hypotheses: the validity proofs and the contracts establish them.

  \<^bold>\<open>Not modelled.\<close> Locks and concurrent maps are sequential state, since every operation here
  runs under one lock or inside one write transaction. Failures of the storage engine and
  serialization are left out, so tables are typed. Signatures, encryption and keccak are third
  party code.
  Of the circuits, the validity, deposit, withdrawal, cancellation and fee payment circuits rest on
  in-circuit hashing, Merkle openings and signatures and are left out, as are the multiprover
  gadgets, which need an MPC fabric, and the layout of proof links; variable types that macros
  derive are records with a variable for each scalar. The workers (task driver, API server,
  network and gossip, proof manager, chain events, price reporter, event manager), the darkpool
  client, the bootloader and the sidecars are asynchronous I/O.
\<close>

end
